(* ===== verification/Prelude.thy ===== *)
theory Prelude
  imports
    Main
    "HOL-Library.Word"
    "HOL-Library.Monad_Syntax"
begin

text \<open>
  Shared vocabulary of the development: the fixed-width integers of the C++ sources, the
  helpers for C arithmetic whose undefined behaviour the model keeps visible, little-endian
  byte encodings of words, the error codes every unwinder component returns, and the generic
  lemmas the component theories use.

  Conventions.  The unwinder is modelled for the LP64 little-endian target (\<^verbatim>\<open>__aarch64__\<close>), so
  \<^verbatim>\<open>uintptr_t\<close>, \<^verbatim>\<open>size_t\<close> and \<^verbatim>\<open>long\<close> are 64 bits wide.  A computation whose C++ counterpart
  can run into undefined behaviour has an \<open>option\<close> result and is \<^term>\<open>None\<close> exactly there.
\<close>

section \<open>Machine integers\<close>

unbundle bit_operations_syntax

type_synonym u8 = "8 word"
type_synonym u16 = "16 word"
type_synonym u32 = "32 word"
type_synonym u64 = "64 word"

named_theorems mem_simps \<open>reads of the target memory\<close>
named_theorems inv_intros \<open>preservation of component invariants\<close>

text \<open>The shift operators of C++ on a 64-bit operand: a count of 64 or more is undefined.\<close>

definition shl64 :: "u64 \<Rightarrow> nat \<Rightarrow> u64 option" where
  "shl64 v n = (if n < 64 then Some (push_bit n v) else None)"

definition shr64 :: "u64 \<Rightarrow> nat \<Rightarrow> u64 option" where
  "shr64 v n = (if n < 64 then Some (drop_bit n v) else None)"

definition sar64 :: "u64 \<Rightarrow> nat \<Rightarrow> u64 option" where
  "sar64 v n = (if n < 64 then Some (signed_drop_bit n v) else None)"

text \<open>
  Signed 64-bit arithmetic on two's complement words: a result outside of \<^verbatim>\<open>int64_t\<close> is
  undefined, and division truncates towards zero.
\<close>

definition s64 :: "int \<Rightarrow> u64 option" where
  "s64 i = (if - (2 ^ 63) \<le> i \<and> i < 2 ^ 63 then Some (of_int i) else None)"

definition sadd64 :: "u64 \<Rightarrow> u64 \<Rightarrow> u64 option" where
  "sadd64 a b = s64 (sint a + sint b)"

definition smul64 :: "u64 \<Rightarrow> u64 \<Rightarrow> u64 option" where
  "smul64 a b = s64 (sint a * sint b)"

definition sneg64 :: "u64 \<Rightarrow> u64 option" where
  "sneg64 a = s64 (- sint a)"

definition sdiv64 :: "u64 \<Rightarrow> u64 \<Rightarrow> u64 option" where
  "sdiv64 a b = (if b = 0 then None else s64 (sgn (sint a) * sgn (sint b) * (\<bar>sint a\<bar> div \<bar>sint b\<bar>)))"

text \<open>\<^verbatim>\<open>__builtin_add_overflow\<close> on \<^verbatim>\<open>uint64_t\<close>: the wrapped sum, and whether it wrapped.\<close>

definition add_overflow :: "u64 \<Rightarrow> u64 \<Rightarrow> bool \<times> u64" where
  "add_overflow a b = (2 ^ 64 \<le> unat a + unat b, a + b)"

section \<open>Little-endian bytes\<close>

text \<open>The object representation of an unsigned integer in memory.\<close>

definition word_bytes :: "u64 \<Rightarrow> u8 list" where
  "word_bytes w = map (\<lambda>i. ucast (drop_bit (8 * i) w)) [0..<8]"

fun bytes_word :: "u8 list \<Rightarrow> u64" where
  "bytes_word [] = 0"
| "bytes_word (b # bs) = ucast b OR push_bit 8 (bytes_word bs)"

text \<open>The \<open>n\<close> bytes a memory holds from address \<open>a\<close> on; addresses wrap around.\<close>

definition bytes_at :: "(u64 \<Rightarrow> u8) \<Rightarrow> u64 \<Rightarrow> nat \<Rightarrow> u8 list" where
  "bytes_at byte a n = map (\<lambda>i. byte (a + of_nat i)) [0..<n]"

section \<open>Error codes\<close>

datatype unw_error =
    UNW_ERROR_NONE
  | UNW_ERROR_NO_UNWIND_INFO
  | UNW_ERROR_PC_NOT_IN_UNWIND_INFO
  | UNW_ERROR_INVALID_CONTEXT
  | UNW_ERROR_INVALID_MEMORY
  | UNW_ERROR_INVALID_REGS
  | UNW_ERROR_INVALID_MAP
  | UNW_ERROR_INVALID_ELF
  | UNW_ERROR_INVALID_PID
  | UNW_ERROR_RESERVED_VALUE
  | UNW_ERROR_ILLEGAL_VALUE
  | UNW_ERROR_ILLEGAL_STATE
  | UNW_ERROR_UNREADABLE_SP
  | UNW_ERROR_REPEATED_FRAME
  | UNW_ERROR_RETURN_ADDRESS_SAME
  | UNW_ERROR_RETURN_ADDRESS_UNDEFINED
  | UNW_ERROR_MAX_FRAMES_EXCEEDED
  | UNW_ERROR_INVALID_ALIGNMENT
  | UNW_ERROR_INVALID_PERSONALITY
  | UNW_ERROR_CANT_UNWIND
  | UNW_ERROR_ARM_EXIDX_SPARE
  | UNW_ERROR_ARM_EXIDX_FINISH
  | UNW_ERROR_DWARF_INVALID_CFA
  | UNW_ERROR_DWARF_INVALID_FDE
  | UNW_ERROR_DWARF_INVALID_INSTR
  | UNW_ERROR_STEP_ARK_FRAME
  | UNW_ERROR_UNKNOWN_ARK_MAP
  | UNW_ERROR_UNSUPPORTED_QUT_REG
  | UNW_ERROR_UNSUPPORTED_VERSION
  | UNW_ERROR_NOT_SUPPORT

section \<open>Lemmas on bytes\<close>

lemma bit_bytes_word:
  "bit (bytes_word bs) n \<longleftrightarrow> n < 64 \<and> n div 8 < length bs \<and> bit (bs ! (n div 8)) (n mod 8)"
proof (induction bs arbitrary: n)
  case (Cons b bs)
  show ?case
  proof (cases "n < 8")
    case True
    then show ?thesis by (simp add: bit_simps)
  next
    case False
    then have "n div 8 = Suc ((n - 8) div 8)" "(n - 8) mod 8 = n mod 8" and b: "\<not> bit b n"
      using bit_imp_le_length[of b n] by (auto simp: le_div_geq le_mod_geq)
    then show ?thesis using False Cons.IH[of "n - 8"] by (auto simp: bit_simps)
  qed
qed simp

lemma length_word_bytes [simp]: "length (word_bytes w) = 8"
  by (simp add: word_bytes_def)

lemma word_bytes_nth: "i < 8 \<Longrightarrow> word_bytes w ! i = ucast (drop_bit (8 * i) w)"
  by (simp add: word_bytes_def)

lemma bytes_word_word_bytes [simp]: "bytes_word (word_bytes w) = w"
  by (rule bit_word_eqI) (auto simp: bit_bytes_word word_bytes_nth bit_simps less_mult_imp_div_less)

lemma word_bytes_bytes_word: "length bs = 8 \<Longrightarrow> word_bytes (bytes_word bs) = bs"
  by (rule nth_equalityI) (auto simp: word_bytes_nth intro!: bit_word_eqI simp: bit_simps bit_bytes_word)

lemma bytes_word_append_zeros [simp]: "bytes_word (bs @ replicate k 0) = bytes_word bs"
  by (rule bit_word_eqI) (auto simp: bit_bytes_word nth_append)

lemma bytes_word_single [simp]: "bytes_word [b] = ucast b"
  by simp

lemma length_bytes_at [simp]: "length (bytes_at byte a n) = n"
  by (simp add: bytes_at_def)

lemma bytes_at_0 [simp]: "bytes_at byte a 0 = []"
  by (simp add: bytes_at_def)

lemma bytes_at_nth: "i < n \<Longrightarrow> bytes_at byte a n ! i = byte (a + of_nat i)"
  by (simp add: bytes_at_def)

lemma bytes_at_add: "bytes_at byte a (n + k) = bytes_at byte a n @ bytes_at byte (a + of_nat n) k"
  by (rule nth_equalityI) (auto simp: bytes_at_nth nth_append)

lemma bytes_at_Suc: "bytes_at byte a (Suc n) = byte a # bytes_at byte (a + 1) n"
  using bytes_at_add[of byte a 1 n] by (simp add: bytes_at_def)

lemma take_bytes_at [simp]: "take k (bytes_at byte a n) = bytes_at byte a (min k n)"
  by (rule nth_equalityI) (auto simp: bytes_at_nth)

lemma drop_bytes_at [simp]: "drop k (bytes_at byte a n) = bytes_at byte (a + of_nat k) (n - k)"
  by (rule nth_equalityI) (auto simp: bytes_at_nth add.assoc)

lemma and_not_plus_and [simp]: "(x AND NOT k) + (x AND k) = (x :: u64)"
proof -
  have "(x AND NOT k) + (x AND k) = (x AND NOT k) OR (x AND k)"
    by (rule disjunctive_add) (auto simp: bit_simps)
  also have "\<dots> = x"
    by (rule bit_word_eqI) (auto simp: bit_simps)
  finally show ?thesis .
qed

lemma ucast_u8_u64 [simp]: "ucast (ucast (b :: u8) :: u64) = b"
  by (rule bit_word_eqI) (auto simp: bit_simps)

section \<open>Lemmas on words\<close>

lemma unat_ucast_u32 [simp]: "unat (ucast (w :: u32) :: u64) = unat w"
  using unsigned_less[of w, where 'a = nat] by (simp add: unsigned_ucast_eq take_bit_nat_eq_self)

lemma bit_less_exp: "unat (w :: u64) < 2 ^ k \<Longrightarrow> bit w n \<Longrightarrow> n < k"
proof -
  assume "unat w < 2 ^ k" "bit w n"
  then have "bit (take_bit k (unat w)) n" by (simp add: take_bit_nat_eq_self bit_unsigned_iff)
  then show "n < k" by (simp add: bit_take_bit_iff)
qed

end
