(* ===== verification/Memory.thy ===== *)
theory Memory
  imports Prelude
begin

text \<open>
  The typed view of the target's memory, \<^verbatim>\<open>DfxMemory\<close>
  (\<^verbatim>\<open>src/interfaces/innerkits/unwinder/src/memory/dfx_memory.cpp\<close>): block reads made of word
  accesses, LEB128 numbers, \<^verbatim>\<open>DW_EH_PE\<close> encoded pointers, strings and prel31 offsets.

  The accessor behind it (local process, ptrace, a caller's callbacks) is a field of the state:
  \<open>mem_acc\<close> is \<^term>\<open>None\<close> for a null pointer, and otherwise answers a word access with the word or
  with a failure.  The locale \<open>mem_view\<close> states what an accessor promises about the bytes of the
  target; the correctness of every read is proved inside it.
\<close>

section \<open>State\<close>

record DfxAccessors =
  AccessMem :: "u64 \<Rightarrow> u64 option"
  AccessReg :: "int \<Rightarrow> u64 option"

record DfxMemory =
  mem_acc :: "DfxAccessors option"
  mem_alignAddr :: bool
  mem_alignBytes :: u32
  mem_dataOffset :: u64
  mem_funcOffset :: u64

definition DfxMemory_init :: "DfxAccessors option \<Rightarrow> DfxMemory" where
  "DfxMemory_init a = \<lparr>mem_acc = a, mem_alignAddr = False, mem_alignBytes = 0, mem_dataOffset = 0, mem_funcOffset = 0\<rparr>"

definition SetAlign :: "DfxMemory \<Rightarrow> bool \<Rightarrow> u32 \<Rightarrow> DfxMemory" where
  "SetAlign m alignAddr alignBytes = m\<lparr>mem_alignAddr := alignAddr, mem_alignBytes := alignBytes\<rparr>"

definition SetDataOffset :: "DfxMemory \<Rightarrow> u64 \<Rightarrow> DfxMemory" where
  "SetDataOffset m offset = m\<lparr>mem_dataOffset := offset\<rparr>"

definition SetFuncOffset :: "DfxMemory \<Rightarrow> u64 \<Rightarrow> DfxMemory" where
  "SetFuncOffset m offset = m\<lparr>mem_funcOffset := offset\<rparr>"

section \<open>Word and block reads\<close>

definition ReadReg :: "DfxMemory \<Rightarrow> int \<Rightarrow> u64 option" where
  "ReadReg m regIdx = (case mem_acc m of None \<Rightarrow> None | Some a \<Rightarrow> AccessReg a regIdx)"

definition ReadMem :: "DfxMemory \<Rightarrow> u64 \<Rightarrow> u64 option" where
  "ReadMem m addr = (case mem_acc m of None \<Rightarrow> None | Some a \<Rightarrow> AccessMem a addr)"

text \<open>
  The unaligned head of a block read: the bytes copied out of the aligned word, the address
  after them, and whether the read goes on.  Copying past the eight bytes of the local
  \<^verbatim>\<open>valp\<close> is undefined; an empty destination makes \<^verbatim>\<open>memcpy_s\<close> fail.
\<close>

definition read_head :: "DfxMemory \<Rightarrow> u64 \<Rightarrow> nat \<Rightarrow> (u8 list \<times> u64 \<times> bool) option" where
  "read_head m tmpAddr sz =
    (let ab = scast (mem_alignBytes m) :: u64;
         alignBytes = tmpAddr AND (ab - 1)
     in if mem_alignAddr m \<and> mem_alignBytes m \<noteq> 0 \<and> alignBytes \<noteq> 0 then
          (case ReadMem m (tmpAddr AND NOT (ab - 1)) of
             None \<Rightarrow> Some ([], tmpAddr, False)
           | Some valp \<Rightarrow>
               (let copyBytes = min (unat (ab - alignBytes)) sz
                in if 8 < unat alignBytes + copyBytes then None
                   else if sz = 0 then Some ([], tmpAddr, False)
                   else Some (take copyBytes (drop (unat alignBytes) (word_bytes valp)),
                              tmpAddr + of_nat copyBytes, True)))
        else Some ([], tmpAddr, True))"

fun read_words :: "DfxMemory \<Rightarrow> u64 \<Rightarrow> nat \<Rightarrow> u8 list \<times> u64 \<times> bool" where
  "read_words m tmpAddr 0 = ([], tmpAddr, True)"
| "read_words m tmpAddr (Suc n) =
    (case ReadMem m tmpAddr of
       None \<Rightarrow> ([], tmpAddr, False)
     | Some tmpVal \<Rightarrow>
         (case read_words m (tmpAddr + 8) n of
            (bs, tmpAddr', ok) \<Rightarrow> (word_bytes tmpVal @ bs, tmpAddr', ok)))"

text \<open>
  \<^verbatim>\<open>DfxMemory::Read\<close>: the bytes stored to \<^verbatim>\<open>val\<close> (their number is the returned \<^verbatim>\<open>bytesRead\<close>)
  and the final value of the reference parameter \<^verbatim>\<open>addr\<close>.
\<close>

definition Read :: "DfxMemory \<Rightarrow> u64 \<Rightarrow> nat \<Rightarrow> bool \<Rightarrow> (u8 list \<times> u64) option" where
  "Read m addr sz incre =
    (if 2 ^ 64 \<le> unat addr + sz then Some ([], addr)
     else do {
       (bs, tmpAddr, ok) \<leftarrow> read_head m addr sz;
       if \<not> ok then Some (bs, addr)
       else
         (let sz' = sz - length bs;
              (bs', tmpAddr', ok') = read_words m tmpAddr (sz' div 8);
              leftOver = sz' mod 8
          in if \<not> ok' then Some (bs @ bs', addr)
             else if leftOver = 0 then Some (bs @ bs', if incre then tmpAddr' else addr)
             else
               (case ReadMem m tmpAddr' of
                  None \<Rightarrow> Some (bs @ bs', addr)
                | Some tmpVal \<Rightarrow>
                    Some (bs @ bs' @ take leftOver (word_bytes tmpVal),
                          if incre then tmpAddr' + of_nat leftOver else addr)))
     })"

text \<open>
  \<^verbatim>\<open>Read<T>\<close> for an unsigned \<^verbatim>\<open>T\<close> of \<open>n\<close> bytes into a variable that holds 0, as in
  \<^verbatim>\<open>ReadValue<T>\<close>: whether all bytes were read, the variable, and \<^verbatim>\<open>addr\<close>.
\<close>

definition ReadT :: "DfxMemory \<Rightarrow> u64 \<Rightarrow> nat \<Rightarrow> bool \<Rightarrow> (bool \<times> u64 \<times> u64) option" where
  "ReadT m addr n incre = do {
     (bs, addr') \<leftarrow> Read m addr n incre;
     Some (length bs = n, bytes_word bs, addr')
   }"

definition ReadValue :: "DfxMemory \<Rightarrow> u64 \<Rightarrow> nat \<Rightarrow> (u64 \<times> u64) option" where
  "ReadValue m addr n = do {
     (_, v, addr') \<leftarrow> ReadT m addr n True;
     Some (v, addr')
   }"

section \<open>LEB128\<close>

function (sequential) uleb_loop :: "DfxMemory \<Rightarrow> u64 \<Rightarrow> u64 \<Rightarrow> nat \<Rightarrow> (u64 \<times> u64) option" where
  "uleb_loop m addr val shift = do {
     (ok, v, addr') \<leftarrow> ReadT m addr 1 True;
     if \<not> ok then Some (val, addr')
     else do {
       part \<leftarrow> shl64 (v AND 0x7f) shift;
       if v AND 0x80 \<noteq> 0 then uleb_loop m addr' (val OR part) (shift + 7)
       else Some (val OR part, addr')
     }
   }"
  by pat_completeness auto
termination
  by (relation "measure (\<lambda>(m, addr, val, shift). 70 - shift)") (auto simp: shl64_def split: if_splits)

definition ReadUleb128 :: "DfxMemory \<Rightarrow> u64 \<Rightarrow> (u64 \<times> u64) option" where
  "ReadUleb128 m addr = uleb_loop m addr 0 0"

text \<open>The loop of \<^verbatim>\<open>ReadSleb128\<close> also leaves \<^verbatim>\<open>byte\<close> and \<^verbatim>\<open>shift\<close> for the sign extension.\<close>

function (sequential) sleb_loop ::
    "DfxMemory \<Rightarrow> u64 \<Rightarrow> u64 \<Rightarrow> nat \<Rightarrow> u64 \<Rightarrow> (u64 \<times> nat \<times> u64 \<times> u64) option" where
  "sleb_loop m addr val shift byte = do {
     (ok, v, addr') \<leftarrow> ReadT m addr 1 True;
     if \<not> ok then Some (val, shift, byte, addr')
     else do {
       part \<leftarrow> shl64 (v AND 0x7f) shift;
       if v AND 0x80 \<noteq> 0 then sleb_loop m addr' (val OR part) (shift + 7) v
       else Some (val OR part, shift + 7, v, addr')
     }
   }"
  by pat_completeness auto
termination
  by (relation "measure (\<lambda>(m, addr, val, shift, byte). 70 - shift)")
    (auto simp: shl64_def split: if_splits)

definition ReadSleb128 :: "DfxMemory \<Rightarrow> u64 \<Rightarrow> (u64 \<times> u64) option" where
  "ReadSleb128 m addr = do {
     (val, shift, byte, addr') \<leftarrow> sleb_loop m addr 0 0 0;
     if byte AND 0x40 \<noteq> 0 then do {
       ext \<leftarrow> shl64 (- 1) shift;
       Some (val OR ext, addr')
     } else Some (val, addr')
   }"

section \<open>Encoded pointers\<close>

definition DW_EH_PE_omit :: u8 where "DW_EH_PE_omit = 0xff"
definition DW_EH_PE_absptr :: u8 where "DW_EH_PE_absptr = 0x00"
definition DW_EH_PE_uleb128 :: u8 where "DW_EH_PE_uleb128 = 0x01"
definition DW_EH_PE_udata2 :: u8 where "DW_EH_PE_udata2 = 0x02"
definition DW_EH_PE_udata4 :: u8 where "DW_EH_PE_udata4 = 0x03"
definition DW_EH_PE_udata8 :: u8 where "DW_EH_PE_udata8 = 0x04"
definition DW_EH_PE_sleb128 :: u8 where "DW_EH_PE_sleb128 = 0x09"
definition DW_EH_PE_sdata2 :: u8 where "DW_EH_PE_sdata2 = 0x0a"
definition DW_EH_PE_sdata4 :: u8 where "DW_EH_PE_sdata4 = 0x0b"
definition DW_EH_PE_sdata8 :: u8 where "DW_EH_PE_sdata8 = 0x0c"
definition DW_EH_PE_udata1 :: u8 where "DW_EH_PE_udata1 = 0x0d"
definition DW_EH_PE_sdata1 :: u8 where "DW_EH_PE_sdata1 = 0x0e"
definition DW_EH_PE_pcrel :: u8 where "DW_EH_PE_pcrel = 0x10"
definition DW_EH_PE_textrel :: u8 where "DW_EH_PE_textrel = 0x20"
definition DW_EH_PE_datarel :: u8 where "DW_EH_PE_datarel = 0x30"
definition DW_EH_PE_funcrel :: u8 where "DW_EH_PE_funcrel = 0x40"
definition DW_EH_PE_aligned :: u8 where "DW_EH_PE_aligned = 0x50"
definition DW_EH_PE_indirect :: u8 where "DW_EH_PE_indirect = 0x80"
definition DW_EH_PE_FORMAT_MASK :: u8 where "DW_EH_PE_FORMAT_MASK = 0x0f"
definition DW_EH_PE_APPL_MASK :: u8 where "DW_EH_PE_APPL_MASK = 0x70"

lemmas DW_EH_PE_defs =
  DW_EH_PE_omit_def DW_EH_PE_absptr_def DW_EH_PE_uleb128_def DW_EH_PE_udata2_def
  DW_EH_PE_udata4_def DW_EH_PE_udata8_def DW_EH_PE_sleb128_def DW_EH_PE_sdata2_def
  DW_EH_PE_sdata4_def DW_EH_PE_sdata8_def DW_EH_PE_udata1_def DW_EH_PE_sdata1_def
  DW_EH_PE_pcrel_def DW_EH_PE_textrel_def DW_EH_PE_datarel_def DW_EH_PE_funcrel_def
  DW_EH_PE_aligned_def DW_EH_PE_indirect_def DW_EH_PE_FORMAT_MASK_def DW_EH_PE_APPL_MASK_def

definition GetEncodedSize :: "u8 \<Rightarrow> nat" where
  "GetEncodedSize encoding =
    (let e = encoding AND 0x0f
     in if e = DW_EH_PE_absptr then 8
        else if e = DW_EH_PE_udata1 \<or> e = DW_EH_PE_sdata1 then 1
        else if e = DW_EH_PE_udata2 \<or> e = DW_EH_PE_sdata2 then 2
        else if e = DW_EH_PE_udata4 \<or> e = DW_EH_PE_sdata4 then 4
        else if e = DW_EH_PE_udata8 \<or> e = DW_EH_PE_sdata8 then 8
        else 0)"

text \<open>Sign extension of the low \<open>n\<close> bytes, \<^verbatim>\<open>static_cast<uintptr_t>\<close> of an \<^verbatim>\<open>intN_t\<close>.\<close>

definition sext8 :: "u64 \<Rightarrow> u64" where "sext8 v = scast (ucast v :: u8)"
definition sext16 :: "u64 \<Rightarrow> u64" where "sext16 v = scast (ucast v :: u16)"
definition sext32 :: "u64 \<Rightarrow> u64" where "sext32 v = scast (ucast v :: u32)"

definition map_val :: "(u64 \<Rightarrow> u64) \<Rightarrow> (u64 \<times> u64) option \<Rightarrow> (u64 \<times> u64) option" where
  "map_val f r = map_option (\<lambda>(v, addr). (f v, addr)) r"

definition ReadFormatEncodedValue :: "DfxMemory \<Rightarrow> u64 \<Rightarrow> u64 \<Rightarrow> u8 \<Rightarrow> (u64 \<times> u64) option" where
  "ReadFormatEncodedValue m addr val fmt =
    (if fmt = DW_EH_PE_uleb128 then ReadUleb128 m addr
     else if fmt = DW_EH_PE_sleb128 then ReadSleb128 m addr
     else if fmt = DW_EH_PE_udata1 then ReadValue m addr 1
     else if fmt = DW_EH_PE_sdata1 then map_val sext8 (ReadValue m addr 1)
     else if fmt = DW_EH_PE_udata2 then ReadValue m addr 2
     else if fmt = DW_EH_PE_sdata2 then map_val sext16 (ReadValue m addr 2)
     else if fmt = DW_EH_PE_udata4 then ReadValue m addr 4
     else if fmt = DW_EH_PE_sdata4 then map_val sext32 (ReadValue m addr 4)
     else if fmt = DW_EH_PE_udata8 then ReadValue m addr 8
     else if fmt = DW_EH_PE_sdata8 then ReadValue m addr 8
     else Some (val, addr))"

text \<open>A read into a variable that already holds a value: the bytes not read keep it.\<close>

definition overlay :: "u8 list \<Rightarrow> u64 \<Rightarrow> u64" where
  "overlay bs v = bytes_word (bs @ drop (length bs) (word_bytes v))"

definition apply_encoding :: "DfxMemory \<Rightarrow> u64 \<Rightarrow> u8 \<Rightarrow> u64 \<Rightarrow> u64" where
  "apply_encoding m startAddr encoding val =
    (let app = encoding AND DW_EH_PE_APPL_MASK
     in if app = DW_EH_PE_pcrel then val + startAddr
        else if app = DW_EH_PE_datarel then val + mem_dataOffset m
        else if app = DW_EH_PE_funcrel then val + mem_funcOffset m
        else val)"

definition ReadEncodedValue :: "DfxMemory \<Rightarrow> u64 \<Rightarrow> u8 \<Rightarrow> (u64 \<times> u64) option" where
  "ReadEncodedValue m addr encoding =
    (if encoding = DW_EH_PE_omit then Some (0, addr)
     else if encoding = DW_EH_PE_aligned then
       (case add_overflow addr 7 of (ovf, addr') \<Rightarrow>
          if ovf then Some (0, addr') else ReadValue m (addr' AND - 8) 8)
     else if encoding AND DW_EH_PE_FORMAT_MASK = DW_EH_PE_absptr then ReadValue m addr 8
     else do {
       (v, addr') \<leftarrow> ReadFormatEncodedValue m addr 0 (encoding AND DW_EH_PE_FORMAT_MASK);
       let val = apply_encoding m addr encoding v;
       if encoding AND DW_EH_PE_indirect \<noteq> 0 then do {
         (bs, _) \<leftarrow> Read m val 8 True;
         Some (overlay bs val, addr')
       } else Some (val, addr')
     })"

section \<open>Strings and prel31 offsets\<close>

definition NAME_BUF_LEN :: nat where "NAME_BUF_LEN = 128"

text \<open>\<^verbatim>\<open>strnlen\<close> of a buffer of which only the given bytes count.\<close>

definition strnlen :: "u8 list \<Rightarrow> nat" where
  "strnlen bs = length (takeWhile (\<lambda>b. b \<noteq> 0) bs)"

text \<open>
  \<^verbatim>\<open>ReadString\<close> returns its result, the final \<^verbatim>\<open>*str\<close> and the final \<^verbatim>\<open>addr\<close>; \<open>str\<close> is the
  content the caller's string had.
\<close>

function read_string_loop ::
    "DfxMemory \<Rightarrow> u64 \<Rightarrow> u8 list \<Rightarrow> nat \<Rightarrow> bool \<Rightarrow> nat \<Rightarrow> (bool \<times> u8 list \<times> u64) option" where
  "read_string_loop m addr str maxSize incre offset =
    (if maxSize \<le> offset then Some (False, str, if incre then addr + of_nat (length str) else addr)
     else do {
       (buf, _) \<leftarrow> Read m (addr + of_nat offset) (min NAME_BUF_LEN (maxSize - offset)) False;
       if buf = [] then Some (False, str, addr)
       else if length buf \<le> strnlen buf then
         read_string_loop m addr str maxSize incre (offset + length buf)
       else if offset = 0 then Some (True, take (strnlen buf) buf, addr)
       else do {
         (bs, _) \<leftarrow> Read m addr (offset + strnlen buf) False;
         Some (True, bs @ replicate (offset + strnlen buf - length bs) 0, addr)
       }
     })"
  by pat_completeness auto
termination
  by (relation "measure (\<lambda>(m, addr, str, maxSize, incre, offset). maxSize - offset)") (auto intro: diff_less_mono2)

definition ReadString :: "DfxMemory \<Rightarrow> u64 \<Rightarrow> u8 list \<Rightarrow> nat \<Rightarrow> bool \<Rightarrow> (bool \<times> u8 list \<times> u64) option" where
  "ReadString m addr str maxSize incre = read_string_loop m addr str maxSize incre 0"

definition ReadPrel31 :: "DfxMemory \<Rightarrow> u64 \<Rightarrow> (u64 option) option" where
  "ReadPrel31 m addr = do {
     (ok, offset, _) \<leftarrow> ReadT m addr 8 False;
     if \<not> ok then Some None
     else Some (Some (addr + scast (signed_drop_bit 1 (ucast (push_bit 1 offset) :: u32))))
   }"

section \<open>Reference encodings\<close>

text \<open>
  The LEB128 byte sequences of a natural number and of an integer, and what a plain (unaligned)
  memory must offer for a block to be read: every word access that starts inside it succeeds.
\<close>

fun uleb_enc :: "nat \<Rightarrow> u8 list" where
  "uleb_enc n = (if n < 128 then [of_nat n] else (of_nat (n mod 128) OR 0x80) # uleb_enc (n div 128))"

function sleb_enc :: "int \<Rightarrow> u8 list" where
  "sleb_enc i = (if - 64 \<le> i \<and> i < 64 then [of_int (i mod 128)]
                 else (of_int (i mod 128) OR 0x80) # sleb_enc (i div 128))"
  by pat_completeness auto
termination
  by (relation "measure (\<lambda>i. nat \<bar>i\<bar>)") auto

definition readable :: "DfxMemory \<Rightarrow> u64 \<Rightarrow> nat \<Rightarrow> bool" where
  "readable m a n \<longleftrightarrow> \<not> mem_alignAddr m \<and> unat a + n < 2 ^ 64 \<and> (\<forall>i<n. ReadMem m (a + of_nat i) \<noteq> None)"

text \<open>The bytes \<open>bs\<close> stand at \<open>a\<close> and can be read.\<close>

definition code_at :: "DfxMemory \<Rightarrow> (u64 \<Rightarrow> u8) \<Rightarrow> u64 \<Rightarrow> u8 list \<Rightarrow> bool" where
  "code_at m byte a bs \<longleftrightarrow> readable m a (length bs) \<and> bytes_at byte a (length bs) = bs"

text \<open>
  A memory whose accessor answers every word access from the bytes \<open>mem\<close>, and the bytes \<open>bs\<close>
  placed at \<open>base\<close>.
\<close>

definition byte_memory :: "(u64 \<Rightarrow> u8) \<Rightarrow> DfxMemory" where
  "byte_memory mem =
    DfxMemory_init (Some \<lparr>AccessMem = (\<lambda>a. Some (bytes_word (bytes_at mem a 8))), AccessReg = (\<lambda>_. None)\<rparr>)"

definition rom :: "u64 \<Rightarrow> u8 list \<Rightarrow> u64 \<Rightarrow> u8" where
  "rom base bs a = (if unat (a - base) < length bs then bs ! unat (a - base) else 0)"

section \<open>Lemmas on LEB128 bytes\<close>

lemma and_7f: "(x :: u64) AND 0x7f = take_bit 7 x"
  by (simp add: take_bit_eq_mask mask_eq_exp_minus_1)

lemma and_80: "(x :: u64) AND 0x80 = 0 \<longleftrightarrow> \<not> bit x 7"
  using and_exp_eq_0_iff_not_bit[of x 7] by simp

lemma and_40: "(x :: u64) AND 0x40 = 0 \<longleftrightarrow> \<not> bit x 6"
  using and_exp_eq_0_iff_not_bit[of x 6] by simp

lemma bit_0x80: "bit (0x80 :: u8) n \<longleftrightarrow> n = 7" "bit (0x80 :: u64) n \<longleftrightarrow> n = 7"
  "bit (0x80 :: nat) n \<longleftrightarrow> n = 7" "bit (0x80 :: int) n \<longleftrightarrow> n = 7"
  using bit_exp_iff[where 'a = nat, of 7 n] bit_exp_iff[where 'a = int, of 7 n] bit_exp_iff[where 'a = u8, of 7 n] bit_exp_iff[where 'a = u64, of 7 n] by auto

lemma bit_mod128: "bit (i mod 128 :: int) n \<longleftrightarrow> n < 7 \<and> bit i n" "bit (k mod 128 :: nat) n \<longleftrightarrow> n < 7 \<and> bit k n"
  using bit_take_bit_iff[of 7 i n] bit_take_bit_iff[of 7 k n] by (simp_all add: take_bit_eq_mod)

declare uleb_enc.simps [simp del] sleb_enc.simps [simp del]

lemma uleb_bytes:
  "(ucast (of_nat (k mod 128) :: u8) :: u64) AND 0x7f = of_nat (k mod 128)"
  "(ucast (of_nat (k mod 128) OR 0x80 :: u8) :: u64) AND 0x7f = of_nat (k mod 128)"
  "(ucast (of_nat (k mod 128) :: u8) :: u64) AND 0x80 = 0"
  "(ucast (of_nat (k mod 128) OR 0x80 :: u8) :: u64) AND 0x80 \<noteq> 0"
  unfolding and_7f and_80
  by (auto intro!: bit_word_eqI simp: bit_0x80 bit_mod128 bit_take_bit_iff bit_unsigned_iff bit_or_iff
      bit_of_int_iff bit_of_nat_iff)

lemma sleb_bytes:
  "(ucast (of_int (i mod 128) :: u8) :: u64) AND 0x7f = take_bit 7 (of_int i)"
  "(ucast (of_int (i mod 128) OR 0x80 :: u8) :: u64) AND 0x7f = take_bit 7 (of_int i)"
  "(ucast (of_int (i mod 128) :: u8) :: u64) AND 0x80 = 0"
  "(ucast (of_int (i mod 128) OR 0x80 :: u8) :: u64) AND 0x80 \<noteq> 0"
  unfolding and_7f and_80
  by (auto intro!: bit_word_eqI simp: bit_0x80 bit_mod128 bit_take_bit_iff bit_unsigned_iff bit_or_iff
      bit_of_int_iff bit_of_nat_iff)

lemma of_nat_split7: "(of_nat n :: u64) = of_nat (n mod 128) OR push_bit 7 (of_nat (n div 128))"
proof (rule bit_word_eqI)
  fix i assume "i < LENGTH(64)"
  have "n mod 128 = take_bit 7 n" "n div 128 = drop_bit 7 n" by (simp_all add: take_bit_eq_mod drop_bit_eq_div)
  then show "bit (of_nat n :: u64) i = bit (of_nat (n mod 128) OR push_bit 7 (of_nat (n div 128) :: u64)) i"
     by (auto simp: bit_simps)
qed

lemma take_bit_split7:
  "take_bit (7 + l) (of_int i :: u64) = take_bit 7 (of_int i) OR push_bit 7 (take_bit l (of_int (i div 128)))"
proof (rule bit_word_eqI)
  fix n assume "n < LENGTH(64)"
  have "i div 128 = drop_bit 7 i" by (simp add: drop_bit_eq_div)
  then show "bit (take_bit (7 + l) (of_int i :: u64)) n =
      bit (take_bit 7 (of_int i) OR push_bit 7 (take_bit l (of_int (i div 128) :: u64))) n"
    by (auto simp: bit_simps)
qed

lemma bit_int_high:
  assumes "- (2 ^ k) \<le> i" "i < (2 :: int) ^ k" "k \<le> n"
  shows "bit i n \<longleftrightarrow> i < 0"
proof (cases "i < 0")
  case True
  have "(2 :: int) ^ k \<le> 2 ^ n" using assms(3) by (simp add: power_increasing)
  then have "take_bit n (NOT i) = NOT i"
    unfolding take_bit_int_eq_self_iff not_int_def using True assms(1) by linarith
  then have "\<not> bit (NOT i) n" by (metis bit_take_bit_iff less_irrefl)
  then show ?thesis using True by (simp add: bit_not_iff)
next
  case False
  have "(2 :: int) ^ k \<le> 2 ^ n" using assms(3) by (simp add: power_increasing)
  then have "take_bit n i = i"
    unfolding take_bit_int_eq_self_iff using False assms(2) by linarith
  then show ?thesis using False by (metis bit_take_bit_iff less_irrefl)
qed

lemma sleb_enc_sign: "(ucast (last (sleb_enc i)) :: u64) AND 0x40 \<noteq> 0 \<longleftrightarrow> i < 0"
proof (induction i rule: sleb_enc.induct)
  case (1 i)
  show ?case
  proof (cases "- 64 \<le> i \<and> i < 64")
    case True
    have "bit i 6 \<longleftrightarrow> i < 0"
      using True bit_int_high[of 6 i 6] by simp
    then show ?thesis
      using True by (simp add: sleb_enc.simps[of i] and_40 bit_mod128 bit_of_int_iff bit_unsigned_iff)
  next
    case False
    have "sleb_enc (i div 128) \<noteq> []" by (simp add: sleb_enc.simps[of "i div 128"])
    moreover have "i div 128 < 0 \<longleftrightarrow> i < 0" by presburger
    ultimately show ?thesis using 1 False by (auto simp: sleb_enc.simps[of i])
  qed
qed

lemma sleb_enc_length:
  "length (sleb_enc i) \<le> Suc k \<longleftrightarrow> - (2 ^ (7 * k + 6)) \<le> i \<and> i < 2 ^ (7 * k + 6)"
proof (induction i arbitrary: k rule: sleb_enc.induct)
  case (1 i)
  show ?case
  proof (cases "- 64 \<le> i \<and> i < 64")
    case True
    have "(64::int) \<le> 2 ^ (7 * k + 6)" by (simp add: power_add)
    then show ?thesis using True by (simp add: sleb_enc.simps[of i])
  next
    case False
    show ?thesis
    proof (cases k)
      case 0
      have "sleb_enc (i div 128) \<noteq> []" by (simp add: sleb_enc.simps[of "i div 128"])
      then show ?thesis using 0 False by (auto simp: sleb_enc.simps[of i])
    next
      case (Suc l)
      have e: "7 * k + 6 = 7 + (7 * l + 6)" using Suc by simp
      have "- P \<le> i div 128 \<and> i div 128 < P \<longleftrightarrow> - (128 * P) \<le> i \<and> i < 128 * P" for P
        using div_mult_mod_eq[of i 128] pos_mod_bound[of 128 i] pos_mod_sign[of 128 i] by linarith
      from this[of "2 ^ (7 * l + 6)"]
      have "- (2 ^ (7 * l + 6)) \<le> i div 128 \<and> i div 128 < 2 ^ (7 * l + 6) \<longleftrightarrow>
          - (2 ^ (7 * k + 6)) \<le> i \<and> i < 2 ^ (7 * k + 6)"
        unfolding e power_add[of 2 7] by simp
      moreover have "sleb_enc i = (of_int (i mod 128) OR 0x80) # sleb_enc (i div 128)"
        using False by (simp only: sleb_enc.simps[of i] if_False)
      ultimately show ?thesis using 1[OF False, of l] Suc by (simp only: length_Cons Suc_le_mono)
    qed
  qed
qed

lemma readable_Suc:
  assumes "readable m a (Suc n)"
  shows "readable m (a + 1) n"
proof -
  have "unat (a + 1) = unat a + 1"
    using assms by (simp add: readable_def unat_word_ariths)
  moreover have "ReadMem m (a + 1 + of_nat i) \<noteq> None" if "i < n" for i
    using assms that unfolding readable_def by (metis Suc_less_eq add.assoc of_nat_Suc)
  ultimately show ?thesis using assms by (simp add: readable_def)
qed

lemma readable_add:
  assumes "readable m a (n + k)"
  shows "readable m a n" "readable m (a + of_nat n) k"
proof -
  show "readable m a n" using assms by (auto simp: readable_def)
  have lt: "unat a + n < 2 ^ 64" using assms by (simp add: readable_def)
  then have "unat (a + of_nat n) = unat a + n"
    by (simp add: unat_word_ariths unat_of_nat)
  moreover have "ReadMem m (a + of_nat n + of_nat i) \<noteq> None" if "i < k" for i
    using assms that unfolding readable_def
    by (metis add.assoc add_less_cancel_left of_nat_add)
  ultimately show "readable m (a + of_nat n) k" using assms by (simp add: readable_def)
qed

lemma code_at_append:
  assumes "code_at m byte a (xs @ ys)"
  shows "code_at m byte a xs" "code_at m byte (a + of_nat (length xs)) ys"
  using assms readable_add[of m a "length xs" "length ys"]
    bytes_at_add[of byte a "length xs" "length ys"]
  by (auto simp: code_at_def append_eq_append_conv)

lemma code_at_end:
  assumes "code_at m byte a (xs @ r)"
  shows "unat (a + of_nat (length xs)) = unat a + length xs"
  using assms by (simp add: code_at_def readable_def unat_word_ariths unat_of_nat)

lemma code_at_Cons:
  assumes "code_at m byte a (b # ys)"
  shows "readable m a (Suc 0)" "byte a = b" "code_at m byte (a + 1) ys"
proof -
  show "readable m a (Suc 0)" "byte a = b" "code_at m byte (a + 1) ys"
    using assms readable_add[of m a 1 "length ys"] by (auto simp: code_at_def bytes_at_Suc)
qed

lemma length_uleb_enc: "n < 128 ^ Suc k \<Longrightarrow> length (uleb_enc n) \<le> Suc k"
proof (induction k arbitrary: n)
  case 0
  then show ?case by (simp add: uleb_enc.simps[of n])
next
  case (Suc k)
  have "n div 128 < 128 ^ Suc k" using Suc.prems by (simp add: less_mult_imp_div_less mult.commute)
  then have "length (uleb_enc (n div 128)) \<le> Suc k" by (rule Suc.IH)
  then show ?case by (subst uleb_enc.simps) simp
qed

section \<open>Reads never move backwards\<close>

lemma read_head_addr:
  assumes "read_head m a n = Some (bs, a', ok)"
  shows "a' = a + of_nat (length bs) \<and> length bs \<le> n \<and> (\<not> ok \<longrightarrow> bs = [])"
proof -
  have len: "length (take c (drop y (word_bytes w))) = c" if "\<not> 8 < y + c" for c y and w :: u64
    using that by simp
  show ?thesis
    using assms len
    by (auto simp: read_head_def Let_def simp del: length_take length_drop split: if_splits option.splits)
qed

lemma read_words_addr:
  "read_words m a n = (bs, a', ok) \<Longrightarrow>
    a' = a + of_nat (length bs) \<and> length bs \<le> 8 * n \<and> ok = (length bs = 8 * n)"
proof (induction n arbitrary: a bs)
  case (Suc n)
  show ?case
  proof (cases "ReadMem m a")
    case (Some w)
    then obtain bs' where "bs = word_bytes w @ bs'" "read_words m (a + 8) n = (bs', a', ok)"
      using Suc.prems by (auto split: prod.splits)
    then show ?thesis using Suc.IH[of "a + 8" bs'] by (auto simp: add.assoc)
  qed (use Suc.prems in auto)
qed simp

lemma Read_addr:
  assumes "Read m a n incre = Some (bs, a')"
  shows "a' = (if incre \<and> length bs = n then a + of_nat n else a) \<and> (incre \<and> length bs = n \<and> 0 < n \<longrightarrow> unat a + n < 2 ^ 64)"
proof (cases "2 ^ 64 \<le> unat a + n")
  case True
  then show ?thesis using assms unsigned_less[of a] by (auto simp: Read_def)
next
  case False
  then obtain hs t ok where h: "read_head m a n = Some (hs, t, ok)"
    using assms by (auto simp: Read_def bind_eq_Some_conv)
  note ha = read_head_addr[OF h]
  show ?thesis
  proof (cases ok)
    case False
    then show ?thesis using assms h ha \<open>\<not> 2 ^ 64 \<le> unat a + n\<close> by (auto simp: Read_def)
  next
    case True
    obtain ws t' ok' where w: "read_words m t ((n - length hs) div 8) = (ws, t', ok')"
      by (metis prod_cases3)
    let ?q = "(n - length hs) div 8" and ?r = "(n - length hs) mod 8"
    note wa = read_words_addr[OF w]
    have R: "Read m a n incre =
        (if \<not> ok' then Some (hs @ ws, a)
         else if ?r = 0 then Some (hs @ ws, if incre then t' else a)
         else (case ReadMem m t' of None \<Rightarrow> Some (hs @ ws, a)
               | Some v \<Rightarrow> Some (hs @ ws @ take ?r (word_bytes v), if incre then t' + of_nat ?r else a)))"
      using False True h w by (simp add: Read_def Let_def)
    have n: "n = length hs + 8 * ?q + ?r" using ha by simp
    have t': "t' = a + of_nat (length hs + length ws)" using ha wa by simp
    show ?thesis
    proof (cases "ok' \<and> ?r \<noteq> 0 \<and> ReadMem m t' \<noteq> None")
      case False
      have "ok' \<and> ?r = 0 \<longleftrightarrow> length hs + length ws = n" using n wa by linarith
      then show ?thesis using assms R False t' \<open>\<not> 2 ^ 64 \<le> unat a + n\<close> by (auto split: if_splits)
    next
      case True
      have n': "n = length hs + length ws + ?r" using n wa True by linarith
      then have "t' + of_nat ?r = a + of_nat n" using t' by (metis add.assoc of_nat_add)
      then have "length bs = n \<and> a' = (if incre then a + of_nat n else a)"
        using assms R True n' ha by auto
      then show ?thesis using \<open>\<not> 2 ^ 64 \<le> unat a + n\<close> by auto
    qed
  qed
qed

lemma unat_add_of_nat: "unat a + n < 2 ^ 64 \<Longrightarrow> unat (a + of_nat n :: u64) = unat a + n"
  by (simp add: unat_word_ariths unat_of_nat)

lemma Read_mono: "Read m a n incre = Some (bs, a') \<Longrightarrow> unat a \<le> unat a'"
  using Read_addr[of m a n incre bs a'] unat_add_of_nat[of a n] by (cases "n = 0") (auto split: if_splits)

lemma ReadT_step: "ReadT m a n True = Some (True, v, a') \<Longrightarrow> 0 < n \<Longrightarrow> unat a < unat a'"
  using Read_addr[of m a n True] unat_add_of_nat[of a n]
  by (auto simp: ReadT_def bind_eq_Some_conv)

lemma ReadT_mono: "ReadT m a n incre = Some (ok, v, a') \<Longrightarrow> unat a \<le> unat a'"
  using Read_mono by (auto simp: ReadT_def bind_eq_Some_conv)

lemma ReadValue_mono: "ReadValue m a n = Some (v, a') \<Longrightarrow> unat a \<le> unat a'"
  using ReadT_mono by (auto simp: ReadValue_def bind_eq_Some_conv)

lemma uleb_loop_mono: "uleb_loop m a val shift = Some (v, a') \<Longrightarrow> unat a \<le> unat a'"
proof (induction m a val shift arbitrary: v a' rule: uleb_loop.induct)
  case (1 m a val shift)
  then obtain ok x p where r: "ReadT m a 1 True = Some (ok, x, p)"
    by (auto simp: uleb_loop.simps[of m a] bind_eq_Some_conv)
  note p = ReadT_mono[OF r]
  show ?case
  proof (cases "ok \<and> x AND 0x80 \<noteq> 0")
    case True
    then obtain part where s: "shl64 (x AND 0x7f) shift = Some part" and l: "uleb_loop m p (val OR part) (shift + 7) = Some (v, a')"
      using 1(2) r by (auto simp: uleb_loop.simps[of m a] bind_eq_Some_conv)
    have "unat p \<le> unat a'" using 1(1)[OF r refl refl _ s] True l by blast
    then show ?thesis using p by simp
  next
    case False
    then have "a' = p" using 1(2) r by (auto simp: uleb_loop.simps[of m a] bind_eq_Some_conv split: if_splits)
    then show ?thesis using p by simp
  qed
qed

lemma ReadUleb128_mono: "ReadUleb128 m a = Some (v, a') \<Longrightarrow> unat a \<le> unat a'"
  using uleb_loop_mono by (simp add: ReadUleb128_def)

lemma sleb_loop_mono: "sleb_loop m a val shift byte = Some (v, sh, b, a') \<Longrightarrow> unat a \<le> unat a'"
proof (induction m a val shift byte arbitrary: v sh b a' rule: sleb_loop.induct)
  case (1 m a val shift byte)
  then obtain ok x p where r: "ReadT m a 1 True = Some (ok, x, p)"
    by (auto simp: sleb_loop.simps[of m a] bind_eq_Some_conv)
  note p = ReadT_mono[OF r]
  show ?case
  proof (cases "ok \<and> x AND 0x80 \<noteq> 0")
    case True
    then obtain part where s: "shl64 (x AND 0x7f) shift = Some part"
      and l: "sleb_loop m p (val OR part) (shift + 7) x = Some (v, sh, b, a')"
      using 1(2) r by (auto simp: sleb_loop.simps[of m a] bind_eq_Some_conv)
    have "unat p \<le> unat a'" using 1(1)[OF r refl refl _ s] True l by blast
    then show ?thesis using p by simp
  next
    case False
    then have "a' = p" using 1(2) r by (auto simp: sleb_loop.simps[of m a] bind_eq_Some_conv split: if_splits)
    then show ?thesis using p by simp
  qed
qed

lemma ReadSleb128_mono: "ReadSleb128 m a = Some (v, a') \<Longrightarrow> unat a \<le> unat a'"
proof -
  assume "ReadSleb128 m a = Some (v, a')"
  then obtain val sh b where "sleb_loop m a 0 0 0 = Some (val, sh, b, a')"
    by (auto simp: ReadSleb128_def bind_eq_Some_conv simp del: sleb_loop.simps split: if_splits)
  then show ?thesis by (rule sleb_loop_mono)
qed

lemma ReadFormatEncodedValue_mono: "ReadFormatEncodedValue m a x f = Some (v, a') \<Longrightarrow> unat a \<le> unat a'"
  using ReadUleb128_mono ReadSleb128_mono ReadValue_mono
  by (auto simp: ReadFormatEncodedValue_def map_val_def split: if_splits)

lemma ReadEncodedValue_mono:
  assumes "ReadEncodedValue m a enc = Some (v, a')" "enc \<noteq> DW_EH_PE_aligned"
  shows "unat a \<le> unat a'"
  using assms ReadFormatEncodedValue_mono ReadValue_mono
  by (auto simp: ReadEncodedValue_def Let_def bind_eq_Some_conv split: if_splits)

section \<open>Reads over a byte memory\<close>

text \<open>
  What an accessor promises: a word it returns consists of the target's bytes at the address.
\<close>

locale mem_view =
  fixes m :: DfxMemory and byte :: "u64 \<Rightarrow> u8"
  assumes word_at: "ReadMem m a = Some w \<Longrightarrow> word_bytes w = bytes_at byte a 8"
begin

lemma read_head_view:
  assumes "read_head m a n = Some (bs, a', ok)"
  shows "bs = bytes_at byte a (length bs) \<and> a' = a + of_nat (length bs) \<and> length bs \<le> n
    \<and> (\<not> ok \<longrightarrow> bs = [])"
  using assms
  by (auto simp: read_head_def Let_def word_at min_def split: if_splits option.splits)

lemma read_words_view:
  "read_words m a n = (bs, a', ok) \<Longrightarrow>
    bs = bytes_at byte a (length bs) \<and> a' = a + of_nat (length bs) \<and> length bs \<le> 8 * n
    \<and> ok = (length bs = 8 * n)"
proof (induction n arbitrary: a bs)
  case (Suc n)
  show ?case
  proof (cases "ReadMem m a")
    case None
    then show ?thesis using Suc.prems by auto
  next
    case (Some w)
    obtain bs' where bs: "bs = word_bytes w @ bs'" and r: "read_words m (a + 8) n = (bs', a', ok)"
      using Suc.prems Some by (auto split: prod.splits)
    show ?thesis
      using Suc.IH[OF r] bytes_at_add[of byte a 8 "length bs'"] word_at[OF Some]
      by (auto simp: bs algebra_simps)
  qed
qed simp

lemma Read_view:
  assumes "Read m a n incre = Some (bs, a')"
  shows "bs = bytes_at byte a (length bs) \<and> length bs \<le> n
    \<and> a' = (if incre \<and> length bs = n then a + of_nat n else a)"
proof (cases "2 ^ 64 \<le> unat a + n")
  case True
  then show ?thesis using assms unsigned_less[of a] by (auto simp: Read_def)
next
  case False
  then obtain hs t ok where h: "read_head m a n = Some (hs, t, ok)"
    using assms by (auto simp: Read_def bind_eq_Some_conv)
  note hv = read_head_view[OF h]
  show ?thesis
  proof (cases ok)
    case False
    then show ?thesis using assms h hv \<open>\<not> 2 ^ 64 \<le> unat a + n\<close> by (auto simp: Read_def)
  next
    case True
    obtain ws t' ok' where w: "read_words m t ((n - length hs) div 8) = (ws, t', ok')"
      by (metis prod_cases3)
    let ?q = "(n - length hs) div 8" and ?r = "(n - length hs) mod 8"
    note wv = read_words_view[OF w]
    have R: "Read m a n incre =
        (if \<not> ok' then Some (hs @ ws, a)
         else if ?r = 0 then Some (hs @ ws, if incre then t' else a)
         else (case ReadMem m t' of None \<Rightarrow> Some (hs @ ws, a)
               | Some v \<Rightarrow> Some (hs @ ws @ take ?r (word_bytes v), if incre then t' + of_nat ?r else a)))"
      using False True h w by (simp add: Read_def Let_def)
    have n: "n = length hs + 8 * ?q + ?r" using hv by simp
    have app: "hs @ ws = bytes_at byte a (length hs + length ws)"
      using hv wv by (simp add: bytes_at_add)
    have t': "t' = a + of_nat (length hs + length ws)" using hv wv by simp
    show ?thesis
    proof (cases "ok' \<and> ?r \<noteq> 0 \<and> ReadMem m t' \<noteq> None")
      case False
      have "length hs + length ws \<le> n" "ok' \<and> ?r = 0 \<longleftrightarrow> length hs + length ws = n"
        using n wv by linarith+
      then show ?thesis using assms R False app t' by (auto split: if_splits)
    next
      case True
      have n': "n = length hs + length ws + ?r" using n wv True by linarith
      then have "bytes_at byte a n = hs @ ws @ bytes_at byte t' ?r" "t' + of_nat ?r = a + of_nat n"
        using bytes_at_add[of byte a "length hs + length ws" ?r] app t'
        by (metis append.assoc, metis add.assoc of_nat_add)
      then have "bs = bytes_at byte a n \<and> a' = (if incre then a + of_nat n else a)"
        using assms R True word_at by auto
      then show ?thesis by simp
    qed
  qed
qed

lemma ReadT_byte:
  assumes "readable m a (Suc n)"
  shows "ReadT m a (Suc 0) True = Some (True, ucast (byte a), a + 1)"
proof -
  have "ReadMem m (a + of_nat 0) \<noteq> None"
    using assms unfolding readable_def by blast
  then obtain w where "ReadMem m a = Some w" by auto
  moreover from this have "take (Suc 0) (word_bytes w) = [byte a]"
    by (simp add: word_at bytes_at_Suc min_def)
  ultimately show ?thesis
    using assms by (simp add: ReadT_def Read_def read_head_def readable_def Let_def)
qed

lemma read_words_ok:
  "(\<And>i. i < n \<Longrightarrow> ReadMem m (a + of_nat (8 * i)) \<noteq> None) \<Longrightarrow>
    read_words m a n = (bytes_at byte a (8 * n), a + of_nat (8 * n), True)"
proof (induction n arbitrary: a)
  case (Suc n)
  obtain w where w: "ReadMem m a = Some w" using Suc.prems[of 0] by auto
  have "ReadMem m (a + 8 + of_nat (8 * i)) \<noteq> None" if "i < n" for i
    using Suc.prems[of "Suc i"] that by (simp add: add.assoc)
  from Suc.IH[OF this] w show ?case
    using bytes_at_add[of byte a 8 "8 * n"] by (simp add: word_at algebra_simps)
qed simp

lemma Read_ok:
  assumes "readable m a n"
  shows "Read m a n incre = Some (bytes_at byte a n, if incre then a + of_nat n else a)"
proof -
  let ?q = "n div 8" and ?r = "n mod 8"
  have rd: "ReadMem m (a + of_nat i) \<noteq> None" if "i < n" for i using assms that by (simp add: readable_def)
  have "ReadMem m (a + of_nat (8 * i)) \<noteq> None" if "i < ?q" for i by (rule rd) (use that in linarith)
  note w = read_words_ok[OF this]
  have n: "n = 8 * ?q + ?r" by simp
  then have full: "bytes_at byte a n = bytes_at byte a (8 * ?q) @ bytes_at byte (a + of_nat (8 * ?q)) ?r"
    and an: "a + of_nat n = a + of_nat (8 * ?q) + of_nat ?r"
    by (metis bytes_at_add, metis add.assoc of_nat_add)
  have R: "Read m a n incre =
      (if ?r = 0 then Some (bytes_at byte a (8 * ?q), if incre then a + of_nat (8 * ?q) else a)
       else case ReadMem m (a + of_nat (8 * ?q)) of None \<Rightarrow> Some (bytes_at byte a (8 * ?q), a)
         | Some v \<Rightarrow> Some (bytes_at byte a (8 * ?q) @ take ?r (word_bytes v),
                          if incre then a + of_nat (8 * ?q) + of_nat ?r else a))"
    using assms w[of ?q] by (simp add: Read_def read_head_def readable_def Let_def split: option.split)
  show ?thesis
  proof (cases "?r = 0")
    case True
    then show ?thesis using R full an by simp
  next
    case False
    then have "8 * ?q < n" using n by linarith
    then obtain v where "ReadMem m (a + of_nat (8 * ?q)) = Some v" using rd by blast
    then show ?thesis using R full an False by (simp add: word_at)
  qed
qed

lemma uleb_loop_enc:
  assumes "bytes_at byte a (length (uleb_enc n)) = uleb_enc n" "readable m a (length (uleb_enc n))"
    and "s < 64" "n < 2 ^ (64 - s)"
  shows "uleb_loop m a val s = Some (val OR push_bit s (of_nat n), a + of_nat (length (uleb_enc n)))"
  using assms
proof (induction n arbitrary: a val s rule: uleb_enc.induct)
  case (1 n)
  show ?case
  proof (cases "n < 128")
    case True
    with 1(2-4) have b: "byte a = of_nat (n mod 128)" and r: "readable m a (Suc 0)"
      by (auto simp: uleb_enc.simps[of n] bytes_at_Suc)
    show ?thesis
      using True 1(4) uleb_bytes(1,3)[of n]
      by (simp add: uleb_loop.simps[of m a] ReadT_byte[OF r] b shl64_def uleb_enc.simps[of n] del: push_bit_and)
  next
    case False
    let ?e = "uleb_enc (n div 128)"
    have b: "byte a = of_nat (n mod 128) OR 0x80" and bs: "bytes_at byte (a + 1) (length ?e) = ?e"
      and r: "readable m a (Suc (length ?e))"
      using 1(2,3) False by (auto simp: uleb_enc.simps[of n] bytes_at_Suc)
    have "(2::nat) ^ 7 \<le> n" using False by simp
    then have "(2::nat) ^ 7 < 2 ^ (64 - s)" using 1(5) by (rule order_le_less_trans)
    then have "7 < 64 - s" by (rule power_less_imp_less_exp[rotated]) simp
    then have s: "s + 7 < 64" by simp
    obtain r' where r': "64 - s = r' + 7" "64 - (s + 7) = r'"
      using s by (metis add.commute diff_diff_left le_add_diff_inverse less_diff_conv less_imp_le)
    have n: "n div 128 < 2 ^ (64 - (s + 7))"
      using 1(5) unfolding r' power_add by (intro less_mult_imp_div_less) simp
    have val: "(val OR push_bit s (of_nat (n mod 128))) OR push_bit (s + 7) (of_nat (n div 128))
        = val OR push_bit s (of_nat n)"
      unfolding of_nat_split7[of n] by (simp add: or.assoc)
    show ?thesis
      using 1(1)[OF False bs readable_Suc[OF r] s n] False s uleb_bytes(2,4)[of n]
      by (simp add: uleb_loop.simps[of m a] ReadT_byte[OF r] b shl64_def uleb_enc.simps[of n] val del: push_bit_and)
  qed
qed

lemma sleb_loop_enc:
  assumes "bytes_at byte a (length (sleb_enc i)) = sleb_enc i" "readable m a (length (sleb_enc i))"
    and "s + 7 * length (sleb_enc i) < 71"
  shows "sleb_loop m a val s b0 =
    Some (val OR push_bit s (take_bit (7 * length (sleb_enc i)) (of_int i)), s + 7 * length (sleb_enc i),
      ucast (last (sleb_enc i)), a + of_nat (length (sleb_enc i)))"
  using assms
proof (induction i arbitrary: a val s b0 rule: sleb_enc.induct)
  case (1 i)
  show ?case
  proof (cases "- 64 \<le> i \<and> i < 64")
    case True
    with 1(2-4) have b: "byte a = of_int (i mod 128)" and r: "readable m a (Suc 0)"
      by (auto simp: sleb_enc.simps[of i] bytes_at_Suc)
    show ?thesis
      using True 1(4) sleb_bytes(1,3)[of i]
      by (simp add: sleb_loop.simps[of m a] ReadT_byte[OF r] b shl64_def sleb_enc.simps[of i] del: push_bit_and)
  next
    case False
    let ?e = "sleb_enc (i div 128)"
    have ne: "?e \<noteq> []" by (simp add: sleb_enc.simps[of "i div 128"])
    have e: "sleb_enc i = (of_int (i mod 128) OR 0x80) # ?e" using False by (auto simp: sleb_enc.simps[of i])
    have b: "byte a = of_int (i mod 128) OR 0x80" and bs: "bytes_at byte (a + 1) (length ?e) = ?e"
      and r: "readable m a (Suc (length ?e))"
      using 1(2,3) by (auto simp: e bytes_at_Suc)
    have s: "s + 7 + 7 * length ?e < 71" using 1(4) by (simp add: e)
    have "1 \<le> length ?e" using ne by (simp add: Suc_le_eq)
    then have "s < 64" using s by simp
    have val: "(val OR push_bit s (take_bit 7 (of_int i))) OR push_bit (s + 7) (take_bit (7 * length ?e) (of_int (i div 128)))
        = val OR push_bit s (take_bit (7 + 7 * length ?e) (of_int i))"
      by (simp add: take_bit_split7 or.assoc)
    show ?thesis
      using 1(1)[OF False bs readable_Suc[OF r] s] \<open>s < 64\<close> sleb_bytes(2,4)[of i] ne
      by (simp add: sleb_loop.simps[of m a] ReadT_byte[OF r] b shl64_def e val add.assoc del: push_bit_and)
  qed
qed

lemma ReadUleb128_enc:
  assumes "bytes_at byte a (length (uleb_enc n)) = uleb_enc n" "readable m a (length (uleb_enc n))" "n < 2 ^ 64"
  shows "ReadUleb128 m a = Some (of_nat n, a + of_nat (length (uleb_enc n)))"
  using uleb_loop_enc[of a n 0 0] assms by (simp add: ReadUleb128_def)

lemma ReadSleb128_enc:
  assumes "bytes_at byte a (length (sleb_enc i)) = sleb_enc i" "readable m a (length (sleb_enc i))"
    and i: "- (2 ^ 62) \<le> i" "i < 2 ^ 63"
  shows "ReadSleb128 m a = Some (of_int i, a + of_nat (length (sleb_enc i)))"
proof -
  let ?L = "length (sleb_enc i)"
  have L: "?L \<le> 10" using i sleb_enc_length[of i 9] by simp
  have neg: "?L \<le> 9" if "i < 0" using i that sleb_enc_length[of i 8] by simp
  have "?L \<noteq> 0" by (simp add: sleb_enc.simps[of i])
  then obtain k where k: "?L = Suc k" by (cases ?L) auto
  have r: "- (2 ^ (7 * k + 6)) \<le> i" "i < 2 ^ (7 * k + 6)" using sleb_enc_length[of i k] k by simp_all
  have "take_bit (7 * ?L) (of_int i :: u64) OR (if i < 0 then push_bit (7 * ?L) (- 1) else 0) = of_int i"
  proof (rule bit_word_eqI)
    fix n assume "n < LENGTH(64)"
    then show "bit (take_bit (7 * ?L) (of_int i :: u64) OR (if i < 0 then push_bit (7 * ?L) (- 1) else 0)) n
        = bit (of_int i :: u64) n"
      using bit_int_high[OF r, of n] k by (cases "7 * k + 6 \<le> n") (auto simp: bit_simps)
  qed
  then show ?thesis
    using sleb_loop_enc[OF assms(1,2), of 0 0 0] sleb_enc_sign[of i] L neg
    by (auto simp: ReadSleb128_def shl64_def split: if_splits)
qed

lemma ReadSleb128_ub:
  assumes "bytes_at byte a (length (sleb_enc i)) = sleb_enc i" "readable m a (length (sleb_enc i))"
    and i: "- (2 ^ 63) \<le> i" "i < - (2 ^ 62)"
  shows "ReadSleb128 m a = None"
proof -
  have "length (sleb_enc i) \<le> 10" "\<not> length (sleb_enc i) \<le> 9"
    using i sleb_enc_length[of i 9] sleb_enc_length[of i 8] by simp_all
  then show ?thesis
    using sleb_loop_enc[OF assms(1,2), of 0 0 0] sleb_enc_sign[of i] i
    by (simp add: ReadSleb128_def shl64_def)
qed

lemma read_byte:
  "code_at m byte a (b # r) \<Longrightarrow> ReadT m a (Suc 0) True = Some (True, ucast b, a + 1)"
  using ReadT_byte[of a 0] by (metis code_at_Cons(1,2))

lemma read_fixed:
  "code_at m byte a (bs @ r) \<Longrightarrow>
    ReadT m a (length bs) True = Some (True, bytes_word bs, a + of_nat (length bs))"
  using Read_ok[of a "length bs" True] code_at_append(1)[of m byte a bs r]
  by (simp add: ReadT_def code_at_def)

lemma read_uleb:
  "code_at m byte a (uleb_enc n @ r) \<Longrightarrow> n < 2 ^ 64 \<Longrightarrow>
    ReadUleb128 m a = Some (of_nat n, a + of_nat (length (uleb_enc n)))"
  using ReadUleb128_enc[of a n] code_at_append(1)[of m byte a "uleb_enc n" r] by (simp add: code_at_def)

lemma read_sleb:
  "code_at m byte a (sleb_enc i @ r) \<Longrightarrow> - (2 ^ 62) \<le> i \<Longrightarrow> i < 2 ^ 63 \<Longrightarrow>
    ReadSleb128 m a = Some (of_int i, a + of_nat (length (sleb_enc i)))"
  using ReadSleb128_enc[of a i] code_at_append(1)[of m byte a "sleb_enc i" r] by (simp add: code_at_def)

end

lemma ReadMem_byte_memory [simp]:
  "ReadMem (byte_memory mem) a = Some (bytes_word (bytes_at mem a 8))"
  by (simp add: ReadMem_def byte_memory_def DfxMemory_init_def)

lemma readable_byte_memory: "readable (byte_memory mem) a n \<longleftrightarrow> unat a + n < 2 ^ 64"
  by (simp add: readable_def) (simp add: byte_memory_def DfxMemory_init_def)

lemma bytes_at_rom: "unat base + length bs < 2 ^ 64 \<Longrightarrow> bytes_at (rom base bs) base (length bs) = bs"
  by (rule nth_equalityI) (auto simp: bytes_at_nth rom_def unat_of_nat)

lemma code_at_rom:
  "unat base + length bs < 2 ^ 64 \<Longrightarrow> code_at (byte_memory (rom base bs)) (rom base bs) base bs"
  by (simp add: code_at_def readable_byte_memory bytes_at_rom)

interpretation bm: mem_view "byte_memory mem" mem for mem
  by unfold_locales (auto simp: word_bytes_bytes_word)

section \<open>Properties\<close>

text \<open>
  C9. A block read is faithful to the target's memory for every alignment setting: the bytes it
  stores are the target's bytes from \<open>a\<close> on, never more than asked for, and the address is
  advanced exactly when the whole block was read and the caller asked for it.
\<close>

theorem Read_sound:
  assumes "mem_view m byte" "Read m a n incre = Some (bs, a')"
  shows "bs = bytes_at byte a (length bs) \<and> length bs \<le> n
    \<and> a' = (if incre \<and> length bs = n then a + of_nat n else a)"
  using mem_view.Read_view[OF assms] .

theorem Read_sound_witness:
  "Read (SetAlign (byte_memory (rom 0x1000 [1, 2, 3, 4, 5, 6, 7, 8, 9, 10])) True 8) 0x1003 6 True
     = Some ([4, 5, 6, 7, 8, 9], 0x1009)
   \<and> [4, 5, 6, 7, 8, 9] = bytes_at (rom 0x1000 [1, 2, 3, 4, 5, 6, 7, 8, 9, 10]) 0x1003 (length [4, 5, 6, 7, 8, 9 :: u8])"
proof -
  let ?r = "rom 0x1000 [1, 2, 3, 4, 5, 6, 7, 8, 9, 10]"
  let ?m = "SetAlign (byte_memory ?r) True 8"
  have v: "mem_view ?m ?r"
    by unfold_locales (auto simp: word_bytes_bytes_word SetAlign_def ReadMem_def byte_memory_def DfxMemory_init_def)
  have r: "Read ?m 0x1003 6 True = Some ([4, 5, 6, 7, 8, 9], 0x1009)"
    by (simp add: Read_def read_head_def Let_def SetAlign_def ReadMem_def byte_memory_def DfxMemory_init_def
        word_bytes_bytes_word) (simp add: bytes_at_def rom_def upt_conv_Cons)
  from Read_sound[OF v r] r show ?thesis by blast
qed

text \<open>
  C15. \<^verbatim>\<open>ReadUleb128\<close> inverts the unsigned LEB128 encoding of every 64-bit number and leaves the
  address behind it.
\<close>

theorem ReadUleb128_roundtrip:
  assumes "mem_view m byte" "code_at m byte a (uleb_enc n)" "n < 2 ^ 64"
  shows "ReadUleb128 m a = Some (of_nat n, a + of_nat (length (uleb_enc n)))"
  using mem_view.read_uleb[OF assms(1), of a n "[]"] assms(2,3) by simp

theorem ReadUleb128_roundtrip_witness:
  "ReadUleb128 (byte_memory (rom 0x1000 [0xe5, 0x8e, 0x26])) 0x1000 = Some (624485, 0x1003)"
proof -
  have e: "uleb_enc 624485 = [0xe5, 0x8e, 0x26]" by (simp add: uleb_enc.simps)
  show ?thesis
    using ReadUleb128_roundtrip[OF bm.mem_view_axioms code_at_rom, of "0x1000" 624485] by (simp add: e)
qed

text \<open>
  C16. \<^verbatim>\<open>ReadSleb128\<close> inverts the signed LEB128 encoding for every number from \<open>- 2 ^ 62\<close> up to the
  largest 64-bit integer.
\<close>

theorem ReadSleb128_roundtrip:
  assumes "mem_view m byte" "code_at m byte a (sleb_enc i)" "- (2 ^ 62) \<le> i" "i < 2 ^ 63"
  shows "ReadSleb128 m a = Some (of_int i, a + of_nat (length (sleb_enc i)))"
  using mem_view.read_sleb[OF assms(1), of a i "[]"] assms(2-4) by simp

theorem ReadSleb128_roundtrip_witness:
  "ReadSleb128 (byte_memory (rom 0x1000 [0xc0, 0xbb, 0x78])) 0x1000 = Some (- 123456, 0x1003)"
proof -
  have e: "sleb_enc (- 123456) = [0xc0, 0xbb, 0x78]" by (simp add: sleb_enc.simps)
  show ?thesis
    using ReadSleb128_roundtrip[OF bm.mem_view_axioms code_at_rom, of "0x1000" "- 123456"] by (simp add: e)
qed

text \<open>
  The numbers below \<open>- 2 ^ 62\<close>, whose encoding takes ten bytes, make \<^verbatim>\<open>ReadSleb128\<close> shift
  \<^verbatim>\<open>-1ULL\<close> by 70 bits: the result is undefined for each of them.
\<close>

theorem ReadSleb128_undefined:
  assumes "mem_view m byte" "code_at m byte a (sleb_enc i)" "- (2 ^ 63) \<le> i" "i < - (2 ^ 62)"
  shows "ReadSleb128 m a = None"
  using mem_view.ReadSleb128_ub[OF assms(1), of a i] assms(2-4) by (simp add: code_at_def)

theorem ReadSleb128_undefined_witness:
  "ReadSleb128 (byte_memory (rom 0x1000 (sleb_enc (- (2 ^ 63))))) 0x1000 = None"
proof -
  have "length (sleb_enc (- (2 ^ 63))) \<le> 10" using sleb_enc_length[of "- (2 ^ 63)" 9] by simp
  then show ?thesis
    using ReadSleb128_undefined[OF bm.mem_view_axioms code_at_rom, of "0x1000" "- (2 ^ 63)"] by simp
qed

end
