(* ===== verification/Regs.thy ===== *)
theory Regs
  imports Memory
begin

text \<open>
  The register file \<^verbatim>\<open>DfxRegs\<close>/\<^verbatim>\<open>DfxRegsArm64\<close>
  (\<^verbatim>\<open>src/interfaces/innerkits/unwinder/src/registers\<close>) and the set of quick-unwind registers
  \<^verbatim>\<open>DfxRegsQut\<close>.  A register file is the vector \<^verbatim>\<open>regsData_\<close>; an access outside of it is
  undefined.  The process-wide \<^verbatim>\<open>qutRegs_\<close> is a parameter of the operations that consult it.
\<close>

section \<open>Register numbers of aarch64\<close>

definition REG_FP :: nat where "REG_FP = 29"
definition REG_LR :: nat where "REG_LR = 30"
definition REG_SP :: nat where "REG_SP = 31"
definition REG_PC :: nat where "REG_PC = 32"
definition REG_EH :: nat where "REG_EH = 0"
definition REG_LAST :: nat where "REG_LAST = 35"
definition REG_AARCH64_X20 :: nat where "REG_AARCH64_X20 = 20"
definition REG_AARCH64_X28 :: nat where "REG_AARCH64_X28 = 28"

lemmas REG_defs = REG_FP_def REG_LR_def REG_SP_def REG_PC_def REG_EH_def REG_LAST_def
  REG_AARCH64_X20_def REG_AARCH64_X28_def

definition QUT_REGS :: "u16 list" where "QUT_REGS = [0, 29, 31, 32, 30]"

definition FP_MINI_REGS_SIZE :: nat where "FP_MINI_REGS_SIZE = 4"
definition QUT_MINI_REGS_SIZE :: nat where "QUT_MINI_REGS_SIZE = 7"

section \<open>Register file\<close>

type_synonym DfxRegs = "u64 list"

definition Create :: DfxRegs where
  "Create = replicate REG_LAST 0"

text \<open>\<^verbatim>\<open>regs[idx]\<close>, the unchecked vector access.\<close>

definition reg_at :: "DfxRegs \<Rightarrow> nat \<Rightarrow> u64 option" where
  "reg_at regs idx = (if idx < length regs then Some (regs ! idx) else None)"

definition GetReg :: "DfxRegs \<Rightarrow> nat \<Rightarrow> (u64 option) option" where
  "GetReg regs idx = (if REG_LAST \<le> idx then Some None else map_option Some (reg_at regs idx))"

definition SetReg :: "DfxRegs \<Rightarrow> int \<Rightarrow> u64 \<Rightarrow> DfxRegs option" where
  "SetReg regs idx val =
    (if int REG_LAST \<le> idx then Some regs
     else if 0 \<le> idx \<and> nat idx < length regs then Some (regs[nat idx := val])
     else None)"

definition GetSp :: "DfxRegs \<Rightarrow> u64" where "GetSp regs = regs ! REG_SP"
definition GetPc :: "DfxRegs \<Rightarrow> u64" where "GetPc regs = regs ! REG_PC"
definition GetFp :: "DfxRegs \<Rightarrow> u64" where "GetFp regs = regs ! REG_FP"
definition SetSp :: "DfxRegs \<Rightarrow> u64 \<Rightarrow> DfxRegs" where "SetSp regs sp = regs[REG_SP := sp]"
definition SetPc :: "DfxRegs \<Rightarrow> u64 \<Rightarrow> DfxRegs" where "SetPc regs pc = regs[REG_PC := pc]"
definition SetFp :: "DfxRegs \<Rightarrow> u64 \<Rightarrow> DfxRegs" where "SetFp regs fp = regs[REG_FP := fp]"

definition GetSpecialRegs :: "DfxRegs \<Rightarrow> u64 \<times> u64 \<times> u64 \<times> u64" where
  "GetSpecialRegs regs = (regs ! REG_FP, regs ! REG_LR, regs ! REG_SP, regs ! REG_PC)"

definition SetSpecialRegs :: "DfxRegs \<Rightarrow> u64 \<Rightarrow> u64 \<Rightarrow> u64 \<Rightarrow> u64 \<Rightarrow> DfxRegs" where
  "SetSpecialRegs regs fp lr sp pc = regs[REG_FP := fp, REG_LR := lr, REG_SP := sp, REG_PC := pc]"

text \<open>\<^verbatim>\<open>SetRegsData(regs, size)\<close> copies the common prefix over the old contents.\<close>

definition SetRegsData :: "DfxRegs \<Rightarrow> u64 list \<Rightarrow> DfxRegs" where
  "SetRegsData regs src = take (length regs) src @ drop (min (length src) (length regs)) regs"

definition SetFromFpMiniRegs :: "DfxRegs \<Rightarrow> u64 list \<Rightarrow> DfxRegs" where
  "SetFromFpMiniRegs regs src =
    (if length src < FP_MINI_REGS_SIZE then regs
     else regs[REG_FP := src ! 0, REG_LR := src ! 1, REG_SP := src ! 2, REG_PC := src ! 3])"

definition SetFromQutMiniRegs :: "DfxRegs \<Rightarrow> u64 list \<Rightarrow> DfxRegs" where
  "SetFromQutMiniRegs regs src =
    (if length src < QUT_MINI_REGS_SIZE then regs
     else regs[REG_AARCH64_X20 := src ! 1, REG_AARCH64_X28 := src ! 2, REG_FP := src ! 3,
               REG_SP := src ! 4, REG_PC := src ! 5, REG_LR := src ! 6])"

datatype UnwindMode = DWARF_UNWIND | FRAMEPOINTER_UNWIND | MINIMAL_UNWIND | MIX_UNWIND

definition CreateFromRegs :: "UnwindMode \<Rightarrow> u64 list \<Rightarrow> DfxRegs" where
  "CreateFromRegs mode src =
    (if (mode = FRAMEPOINTER_UNWIND \<and> length src < FP_MINI_REGS_SIZE) \<or>
        (mode = MINIMAL_UNWIND \<and> length src < QUT_MINI_REGS_SIZE) then Create
     else (case mode of
             DWARF_UNWIND \<Rightarrow> SetRegsData Create src
           | FRAMEPOINTER_UNWIND \<Rightarrow> SetFromFpMiniRegs Create (take FP_MINI_REGS_SIZE src)
           | MINIMAL_UNWIND \<Rightarrow> SetFromQutMiniRegs Create (take QUT_MINI_REGS_SIZE src)
           | MIX_UNWIND \<Rightarrow> Create))"

definition SetPcFromReturnAddress :: "DfxRegs \<Rightarrow> bool \<times> DfxRegs" where
  "SetPcFromReturnAddress regs =
    (if regs ! REG_PC = regs ! REG_LR then (False, regs)
     else (True, regs[REG_PC := regs ! REG_LR]))"

text \<open>
  \<^verbatim>\<open>StepIfSignalFrame\<close>: the two instructions of \<^verbatim>\<open>__kernel_rt_sigreturn\<close> at \<open>pc\<close> make the saved
  registers of the signal frame the current ones.  The block read may stop early; the registers
  behind it keep their values.  \<^verbatim>\<open>sizeof(siginfo_t)\<close> is 128.
\<close>

fun chunk_words :: "u8 list \<Rightarrow> DfxRegs \<Rightarrow> DfxRegs" where
  "chunk_words bs [] = []"
| "chunk_words bs (r # rs) = overlay (take 8 bs) r # chunk_words (drop 8 bs) rs"

definition StepIfSignalFrame :: "DfxRegs \<Rightarrow> u64 \<Rightarrow> DfxMemory \<Rightarrow> (bool \<times> DfxRegs) option" where
  "StepIfSignalFrame regs pc m = do {
     (ok, dat, _) \<leftarrow> ReadT m pc 8 False;
     if \<not> ok then Some (False, regs)
     else if dat \<noteq> 0xd4000001d2801168 then Some (False, regs)
     else do {
       (bs, _) \<leftarrow> Read m (regs ! REG_SP + 128 + 0xb0 + 0x08) (8 * REG_LAST) False;
       Some (True, chunk_words bs regs)
     }
   }"

section \<open>Quick-unwind registers\<close>

definition GetQutRegs :: "u16 list \<Rightarrow> u16 list" where
  "GetQutRegs qutRegs = (if qutRegs \<noteq> [] then qutRegs else QUT_REGS)"

fun find_qut :: "u16 list \<Rightarrow> nat \<Rightarrow> u16 \<Rightarrow> nat option" where
  "find_qut [] i reg = None"
| "find_qut (q # qs) i reg = (if q = reg then Some i else find_qut qs (i + 1) reg)"

definition IsQutReg :: "u16 list \<Rightarrow> u16 \<Rightarrow> nat option" where
  "IsQutReg qutRegs reg = find_qut (GetQutRegs qutRegs) 0 reg"

section \<open>Lemmas\<close>

lemma find_qut_Some:
  "find_qut qs i reg = Some k \<Longrightarrow> i \<le> k \<and> k < i + length qs \<and> qs ! (k - i) = reg"
proof (induction qs arbitrary: i)
  case (Cons q qs)
  show ?case
  proof (cases "q = reg")
    case True
    then show ?thesis using Cons.prems by simp
  next
    case False
    then have "Suc i \<le> k \<and> k < Suc i + length qs \<and> qs ! (k - Suc i) = reg"
      using Cons.IH[of "Suc i"] Cons.prems by simp
    then show ?thesis by (auto simp: nth_Cons' Suc_le_eq)
  qed
qed simp

lemma find_qut_None: "find_qut qs i reg = None \<longleftrightarrow> reg \<notin> set qs"
  by (induction qs arbitrary: i) auto

lemma IsQutReg_Some:
  assumes "IsQutReg q reg = Some k"
  shows "k < length (GetQutRegs q)" "GetQutRegs q ! k = reg"
  using find_qut_Some[OF assms[unfolded IsQutReg_def]] by auto

lemma IsQutReg_None: "IsQutReg q reg = None \<longleftrightarrow> reg \<notin> set (GetQutRegs q)"
  by (simp add: IsQutReg_def find_qut_None)

lemma length_chunk_words [simp]: "length (chunk_words bs regs) = length regs"
  by (induction bs regs rule: chunk_words.induct) auto

lemma length_reg_ops [simp]:
  "length (SetSp regs v) = length regs" "length (SetPc regs v) = length regs"
  "length (SetFp regs v) = length regs" "length (SetSpecialRegs regs fp lr sp pc) = length regs"
  "length Create = REG_LAST"
  by (simp_all add: SetSp_def SetPc_def SetFp_def SetSpecialRegs_def Create_def)

lemma length_SetFrom [simp]:
  "length (SetFromFpMiniRegs regs src) = length regs"
  "length (SetFromQutMiniRegs regs src) = length regs"
  "length (SetRegsData regs src) = length regs"
  by (auto simp: SetFromFpMiniRegs_def SetFromQutMiniRegs_def SetRegsData_def)

lemma length_CreateFromRegs [simp]: "length (CreateFromRegs mode src) = REG_LAST"
  by (auto simp: CreateFromRegs_def split: UnwindMode.split)

end
