(* ===== verification/Dwarf_Op.thy ===== *)
theory Dwarf_Op
  imports Regs
begin

text \<open>
  The DWARF expression machine \<^verbatim>\<open>DwarfOp<uintptr_t>\<close>
  (\<^verbatim>\<open>src/interfaces/innerkits/unwinder/include/dwarf_op.h\<close>,
  \<^verbatim>\<open>src/interfaces/innerkits/unwinder/src/unwind_entry_parser/dwarf_op.cpp\<close>).  The stack is the deque \<^verbatim>\<open>stack_\<close>, its front first.  An operand that
  could not be read leaves an uninitialised local, so using it is undefined; so are oversized
  shifts and overflowing signed arithmetic.  The evaluation loop is a partial function: it has no
  value where it runs into undefined behaviour or does not end.

  The last section compiles arithmetic expressions to DWARF bytes and shows that \<^verbatim>\<open>Eval\<close> computes
  their values.
\<close>

section \<open>Opcodes\<close>

abbreviation DW_OP_addr :: u8 where "DW_OP_addr \<equiv> 0x03"
abbreviation DW_OP_deref :: u8 where "DW_OP_deref \<equiv> 0x06"
abbreviation DW_OP_const1u :: u8 where "DW_OP_const1u \<equiv> 0x08"
abbreviation DW_OP_const1s :: u8 where "DW_OP_const1s \<equiv> 0x09"
abbreviation DW_OP_const2u :: u8 where "DW_OP_const2u \<equiv> 0x0a"
abbreviation DW_OP_const2s :: u8 where "DW_OP_const2s \<equiv> 0x0b"
abbreviation DW_OP_const4u :: u8 where "DW_OP_const4u \<equiv> 0x0c"
abbreviation DW_OP_const4s :: u8 where "DW_OP_const4s \<equiv> 0x0d"
abbreviation DW_OP_const8u :: u8 where "DW_OP_const8u \<equiv> 0x0e"
abbreviation DW_OP_const8s :: u8 where "DW_OP_const8s \<equiv> 0x0f"
abbreviation DW_OP_constu :: u8 where "DW_OP_constu \<equiv> 0x10"
abbreviation DW_OP_consts :: u8 where "DW_OP_consts \<equiv> 0x11"
abbreviation DW_OP_dup :: u8 where "DW_OP_dup \<equiv> 0x12"
abbreviation DW_OP_drop :: u8 where "DW_OP_drop \<equiv> 0x13"
abbreviation DW_OP_over :: u8 where "DW_OP_over \<equiv> 0x14"
abbreviation DW_OP_pick :: u8 where "DW_OP_pick \<equiv> 0x15"
abbreviation DW_OP_swap :: u8 where "DW_OP_swap \<equiv> 0x16"
abbreviation DW_OP_rot :: u8 where "DW_OP_rot \<equiv> 0x17"
abbreviation DW_OP_xderef :: u8 where "DW_OP_xderef \<equiv> 0x18"
abbreviation DW_OP_abs :: u8 where "DW_OP_abs \<equiv> 0x19"
abbreviation DW_OP_and :: u8 where "DW_OP_and \<equiv> 0x1a"
abbreviation DW_OP_div :: u8 where "DW_OP_div \<equiv> 0x1b"
abbreviation DW_OP_minus :: u8 where "DW_OP_minus \<equiv> 0x1c"
abbreviation DW_OP_mod :: u8 where "DW_OP_mod \<equiv> 0x1d"
abbreviation DW_OP_mul :: u8 where "DW_OP_mul \<equiv> 0x1e"
abbreviation DW_OP_neg :: u8 where "DW_OP_neg \<equiv> 0x1f"
abbreviation DW_OP_not :: u8 where "DW_OP_not \<equiv> 0x20"
abbreviation DW_OP_or :: u8 where "DW_OP_or \<equiv> 0x21"
abbreviation DW_OP_plus :: u8 where "DW_OP_plus \<equiv> 0x22"
abbreviation DW_OP_plus_uconst :: u8 where "DW_OP_plus_uconst \<equiv> 0x23"
abbreviation DW_OP_shl :: u8 where "DW_OP_shl \<equiv> 0x24"
abbreviation DW_OP_shr :: u8 where "DW_OP_shr \<equiv> 0x25"
abbreviation DW_OP_shra :: u8 where "DW_OP_shra \<equiv> 0x26"
abbreviation DW_OP_xor :: u8 where "DW_OP_xor \<equiv> 0x27"
abbreviation DW_OP_bra :: u8 where "DW_OP_bra \<equiv> 0x28"
abbreviation DW_OP_eq :: u8 where "DW_OP_eq \<equiv> 0x29"
abbreviation DW_OP_ge :: u8 where "DW_OP_ge \<equiv> 0x2a"
abbreviation DW_OP_gt :: u8 where "DW_OP_gt \<equiv> 0x2b"
abbreviation DW_OP_le :: u8 where "DW_OP_le \<equiv> 0x2c"
abbreviation DW_OP_lt :: u8 where "DW_OP_lt \<equiv> 0x2d"
abbreviation DW_OP_ne :: u8 where "DW_OP_ne \<equiv> 0x2e"
abbreviation DW_OP_skip :: u8 where "DW_OP_skip \<equiv> 0x2f"
abbreviation DW_OP_lit0 :: u8 where "DW_OP_lit0 \<equiv> 0x30"
abbreviation DW_OP_reg0 :: u8 where "DW_OP_reg0 \<equiv> 0x50"
abbreviation DW_OP_breg0 :: u8 where "DW_OP_breg0 \<equiv> 0x70"
abbreviation DW_OP_regx :: u8 where "DW_OP_regx \<equiv> 0x90"
abbreviation DW_OP_fbreg :: u8 where "DW_OP_fbreg \<equiv> 0x91"
abbreviation DW_OP_bregx :: u8 where "DW_OP_bregx \<equiv> 0x92"
abbreviation DW_OP_piece :: u8 where "DW_OP_piece \<equiv> 0x93"
abbreviation DW_OP_deref_size :: u8 where "DW_OP_deref_size \<equiv> 0x94"
abbreviation DW_OP_xderef_size :: u8 where "DW_OP_xderef_size \<equiv> 0x95"
abbreviation DW_OP_nop :: u8 where "DW_OP_nop \<equiv> 0x96"
abbreviation DW_OP_push_object_address :: u8 where "DW_OP_push_object_address \<equiv> 0x97"
abbreviation DW_OP_call2 :: u8 where "DW_OP_call2 \<equiv> 0x98"
abbreviation DW_OP_call4 :: u8 where "DW_OP_call4 \<equiv> 0x99"
abbreviation DW_OP_call_ref :: u8 where "DW_OP_call_ref \<equiv> 0x9a"

section \<open>Stack operations\<close>

type_synonym dstack = "u64 list"

text \<open>Operations on the top entry, and on the two top entries, which are no-ops on a smaller stack.\<close>

fun un_op :: "(u64 \<Rightarrow> u64 option) \<Rightarrow> dstack \<Rightarrow> dstack option" where
  "un_op f [] = Some []"
| "un_op f (x # st) = map_option (\<lambda>v. v # st) (f x)"

fun bin_op :: "(u64 \<Rightarrow> u64 \<Rightarrow> u64 option) \<Rightarrow> dstack \<Rightarrow> dstack option" where
  "bin_op f (t # x # st) = map_option (\<lambda>v. v # st) (f t x)"
| "bin_op f st = Some st"

definition OpDeref :: "DfxMemory \<Rightarrow> dstack \<Rightarrow> dstack option" where
  "OpDeref m st =
    (case st of [] \<Rightarrow> Some []
     | addr # st' \<Rightarrow> do {
         (ok, v, _) \<leftarrow> ReadT m addr 8 False;
         if ok then Some (v # st') else None
       })"

definition OpDerefSize :: "DfxMemory \<Rightarrow> u64 \<Rightarrow> dstack \<Rightarrow> (u64 \<times> dstack) option" where
  "OpDerefSize m exprPtr st =
    (case st of [] \<Rightarrow> Some (exprPtr, [])
     | addr # st' \<Rightarrow> do {
         (ok, operand, exprPtr') \<leftarrow> ReadT m exprPtr 1 True;
         if \<not> ok then None
         else
           (let n = (if operand = 1 then 1 else if operand = 2 then 2
                     else if operand = 3 \<or> operand = 4 then 4
                     else if 5 \<le> operand \<and> operand \<le> 8 then 8 else (0 :: nat))
            in if n = 0 then Some (exprPtr', 0 # st')
               else do {
                 (ok', v, _) \<leftarrow> ReadT m addr n True;
                 if ok' then Some (exprPtr', v # st') else None
               })
       })"

fun OpDup :: "dstack \<Rightarrow> dstack" where
  "OpDup [] = []"
| "OpDup (x # st) = x # x # st"

fun OpDrop :: "dstack \<Rightarrow> dstack" where
  "OpDrop [] = []"
| "OpDrop (x # st) = st"

fun OpOver :: "dstack \<Rightarrow> dstack" where
  "OpOver (x # y # st) = y # x # y # st"
| "OpOver st = st"

definition OpPick :: "DfxMemory \<Rightarrow> u64 \<Rightarrow> dstack \<Rightarrow> (u64 \<times> dstack) option" where
  "OpPick m exprPtr st = do {
     (ok, reg, exprPtr') \<leftarrow> ReadT m exprPtr 1 True;
     if \<not> ok then None
     else if length st \<le> unat reg then Some (exprPtr', st)
     else Some (exprPtr', st ! unat reg # st)
   }"

fun OpSwap :: "dstack \<Rightarrow> dstack" where
  "OpSwap (x # y # st) = y # x # st"
| "OpSwap st = st"

fun OpRot :: "dstack \<Rightarrow> dstack" where
  "OpRot (x # y # z # st) = y # z # x # st"
| "OpRot st = st"

definition OpAbs :: "dstack \<Rightarrow> dstack option" where
  "OpAbs = un_op (\<lambda>x. if x <s 0 then sneg64 x else Some x)"

definition OpAnd :: "dstack \<Rightarrow> dstack option" where
  "OpAnd = bin_op (\<lambda>top x. Some (x AND top))"

definition OpDiv :: "dstack \<Rightarrow> dstack option" where
  "OpDiv = bin_op (\<lambda>top x. if top = 0 then Some x else sdiv64 x top)"

definition OpMinus :: "dstack \<Rightarrow> dstack option" where
  "OpMinus = bin_op (\<lambda>top x. Some (x - top))"

definition OpMod :: "dstack \<Rightarrow> dstack option" where
  "OpMod = bin_op (\<lambda>top x. if top = 0 then Some x else Some (x mod top))"

definition OpMul :: "dstack \<Rightarrow> dstack option" where
  "OpMul = bin_op (\<lambda>top x. Some (x * top))"

definition OpNeg :: "dstack \<Rightarrow> dstack option" where
  "OpNeg = un_op sneg64"

definition OpNot :: "dstack \<Rightarrow> dstack option" where
  "OpNot = un_op (\<lambda>x. Some (NOT x))"

definition OpOr :: "dstack \<Rightarrow> dstack option" where
  "OpOr = bin_op (\<lambda>top x. Some (x OR top))"

definition OpPlus :: "dstack \<Rightarrow> dstack option" where
  "OpPlus = bin_op (\<lambda>top x. Some (x + top))"

definition OpPlusULEBConst :: "DfxMemory \<Rightarrow> u64 \<Rightarrow> dstack \<Rightarrow> (u64 \<times> dstack) option" where
  "OpPlusULEBConst m exprPtr st =
    (case st of [] \<Rightarrow> Some (exprPtr, [])
     | x # st' \<Rightarrow> do {
         (v, exprPtr') \<leftarrow> ReadUleb128 m exprPtr;
         Some (exprPtr', (x + v) # st')
       })"

definition OpShl :: "dstack \<Rightarrow> dstack option" where
  "OpShl = bin_op (\<lambda>top x. shl64 x (unat top))"

definition OpShr :: "dstack \<Rightarrow> dstack option" where
  "OpShr = bin_op (\<lambda>top x. shr64 x (unat top))"

definition OpShra :: "dstack \<Rightarrow> dstack option" where
  "OpShra = bin_op (\<lambda>top x. sar64 x (unat top))"

definition OpXor :: "dstack \<Rightarrow> dstack option" where
  "OpXor = bin_op (\<lambda>top x. Some (x XOR top))"

definition OpSkip :: "DfxMemory \<Rightarrow> u64 \<Rightarrow> dstack \<Rightarrow> (u64 \<times> dstack) option" where
  "OpSkip m exprPtr st = do {
     (ok, offset, exprPtr') \<leftarrow> ReadT m exprPtr 2 True;
     if ok then Some (exprPtr' + sext16 offset, st) else None
   }"

text \<open>A taken branch adds the operand; an untaken one never looks at it.\<close>

definition OpBra :: "DfxMemory \<Rightarrow> u64 \<Rightarrow> dstack \<Rightarrow> (u64 \<times> dstack) option" where
  "OpBra m exprPtr st =
    (case st of [] \<Rightarrow> Some (exprPtr, [])
     | t # st' \<Rightarrow> do {
         (ok, offset, exprPtr') \<leftarrow> ReadT m exprPtr 2 True;
         if t = 0 then Some (exprPtr', st')
         else if ok then Some (exprPtr' + sext16 offset, st') else None
       })"

definition bool_word :: "bool \<Rightarrow> u64" where
  "bool_word b = (if b then 1 else 0)"

definition OpEQ :: "dstack \<Rightarrow> dstack option" where
  "OpEQ = bin_op (\<lambda>top x. Some (bool_word (x = top)))"

definition OpGE :: "dstack \<Rightarrow> dstack option" where
  "OpGE = bin_op (\<lambda>top x. Some (bool_word (top \<le> x)))"

definition OpGT :: "dstack \<Rightarrow> dstack option" where
  "OpGT = bin_op (\<lambda>top x. Some (bool_word (top < x)))"

definition OpLE :: "dstack \<Rightarrow> dstack option" where
  "OpLE = bin_op (\<lambda>top x. Some (bool_word (x \<le> top)))"

definition OpLT :: "dstack \<Rightarrow> dstack option" where
  "OpLT = bin_op (\<lambda>top x. Some (bool_word (x < top)))"

definition OpNE :: "dstack \<Rightarrow> dstack option" where
  "OpNE = bin_op (\<lambda>top x. Some (bool_word (x \<noteq> top)))"

definition OpLit :: "u8 \<Rightarrow> dstack \<Rightarrow> dstack" where
  "OpLit opcode st = ucast (opcode - DW_OP_lit0) # st"

section \<open>Register operations\<close>

text \<open>
  A register outside of the quick-unwind set pushes nothing, and the signed operand of a based
  register is then not consumed.
\<close>

definition OpReg :: "u16 list \<Rightarrow> u8 \<Rightarrow> DfxRegs \<Rightarrow> dstack \<Rightarrow> dstack option" where
  "OpReg q opcode regs st =
    (let reg = unat (opcode - DW_OP_reg0)
     in case IsQutReg q (of_nat reg) of
          None \<Rightarrow> Some st
        | Some _ \<Rightarrow> map_option (\<lambda>v. v # st) (reg_at regs reg))"

definition OpRegx :: "u16 list \<Rightarrow> DfxMemory \<Rightarrow> u64 \<Rightarrow> DfxRegs \<Rightarrow> dstack \<Rightarrow> (u64 \<times> dstack) option" where
  "OpRegx q m exprPtr regs st = do {
     (v, exprPtr') \<leftarrow> ReadUleb128 m exprPtr;
     let reg = (ucast v :: u32);
     (case IsQutReg q (ucast reg) of
        None \<Rightarrow> Some (exprPtr', st)
      | Some _ \<Rightarrow> map_option (\<lambda>x. (exprPtr', x # st)) (reg_at regs (unat reg)))
   }"

definition push_based :: "DfxMemory \<Rightarrow> u64 \<Rightarrow> DfxRegs \<Rightarrow> nat \<Rightarrow> dstack \<Rightarrow> (u64 \<times> dstack) option" where
  "push_based m exprPtr regs reg st = do {
     (off, exprPtr') \<leftarrow> ReadSleb128 m exprPtr;
     x \<leftarrow> reg_at regs reg;
     v \<leftarrow> sadd64 off x;
     Some (exprPtr', v # st)
   }"

definition OpBReg :: "u16 list \<Rightarrow> u8 \<Rightarrow> DfxMemory \<Rightarrow> u64 \<Rightarrow> DfxRegs \<Rightarrow> dstack \<Rightarrow> (u64 \<times> dstack) option" where
  "OpBReg q opcode m exprPtr regs st =
    (let reg = unat (opcode - DW_OP_breg0)
     in case IsQutReg q (of_nat reg) of
          None \<Rightarrow> Some (exprPtr, st)
        | Some _ \<Rightarrow> push_based m exprPtr regs reg st)"

definition OpBRegx :: "u16 list \<Rightarrow> DfxMemory \<Rightarrow> u64 \<Rightarrow> DfxRegs \<Rightarrow> dstack \<Rightarrow> (u64 \<times> dstack) option" where
  "OpBRegx q m exprPtr regs st = do {
     (v, exprPtr') \<leftarrow> ReadUleb128 m exprPtr;
     let reg = (ucast v :: u32);
     (case IsQutReg q (ucast reg) of
        None \<Rightarrow> Some (exprPtr', st)
      | Some _ \<Rightarrow> push_based m exprPtr' regs (unat reg) st)
   }"

section \<open>Decoding one operation\<close>

definition push_read :: "DfxMemory \<Rightarrow> u64 \<Rightarrow> nat \<Rightarrow> (u64 \<Rightarrow> u64) \<Rightarrow> dstack \<Rightarrow> (u64 \<times> dstack) option" where
  "push_read m addr n f st = do {
     (ok, v, addr') \<leftarrow> ReadT m addr n True;
     if ok then Some (addr', f v # st) else None
   }"

text \<open>The constants: \<^verbatim>\<open>DW_OP_addr\<close> and \<^verbatim>\<open>DW_OP_const1u\<close> to \<^verbatim>\<open>DW_OP_consts\<close>.\<close>

definition is_const_op :: "u8 \<Rightarrow> bool" where
  "is_const_op opcode \<longleftrightarrow> opcode = DW_OP_addr \<or> (DW_OP_const1u \<le> opcode \<and> opcode \<le> DW_OP_consts)"

definition decode_const :: "DfxMemory \<Rightarrow> u8 \<Rightarrow> u64 \<Rightarrow> dstack \<Rightarrow> (u64 \<times> dstack) option" where
  "decode_const m opcode addr st =
    (if opcode = DW_OP_addr then push_read m addr 8 id st
     else if opcode = DW_OP_const1u then push_read m addr 1 id st
     else if opcode = DW_OP_const1s then push_read m addr 1 sext8 st
     else if opcode = DW_OP_const2u then push_read m addr 2 id st
     else if opcode = DW_OP_const2s then push_read m addr 2 sext16 st
     else if opcode = DW_OP_const4u then push_read m addr 4 id st
     else if opcode = DW_OP_const4s then push_read m addr 4 sext32 st
     else if opcode = DW_OP_const8u then push_read m addr 8 id st
     else if opcode = DW_OP_const8s then push_read m addr 8 id st
     else if opcode = DW_OP_constu then map_option (\<lambda>(v, a). (a, v # st)) (ReadUleb128 m addr)
     else map_option (\<lambda>(v, a). (a, v # st)) (ReadSleb128 m addr))"

text \<open>The stack, arithmetic, branch and comparison operations.\<close>

definition is_stack_op :: "u8 \<Rightarrow> bool" where
  "is_stack_op opcode \<longleftrightarrow>
    opcode = DW_OP_deref \<or> (DW_OP_dup \<le> opcode \<and> opcode \<le> DW_OP_skip \<and> opcode \<noteq> DW_OP_xderef)"

definition decode_stack :: "DfxMemory \<Rightarrow> u8 \<Rightarrow> u64 \<Rightarrow> dstack \<Rightarrow> (u64 \<times> dstack) option" where
  "decode_stack m opcode addr st =
    (let keep = map_option (Pair addr)
     in if opcode = DW_OP_deref then keep (OpDeref m st)
        else if opcode = DW_OP_dup then Some (addr, OpDup st)
        else if opcode = DW_OP_drop then Some (addr, OpDrop st)
        else if opcode = DW_OP_over then Some (addr, OpOver st)
        else if opcode = DW_OP_pick then OpPick m addr st
        else if opcode = DW_OP_swap then Some (addr, OpSwap st)
        else if opcode = DW_OP_rot then Some (addr, OpRot st)
        else if opcode = DW_OP_abs then keep (OpAbs st)
        else if opcode = DW_OP_and then keep (OpAnd st)
        else if opcode = DW_OP_div then keep (OpDiv st)
        else if opcode = DW_OP_minus then keep (OpMinus st)
        else if opcode = DW_OP_mod then keep (OpMod st)
        else if opcode = DW_OP_mul then keep (OpMul st)
        else if opcode = DW_OP_neg then keep (OpNeg st)
        else if opcode = DW_OP_not then keep (OpNot st)
        else if opcode = DW_OP_or then keep (OpOr st)
        else if opcode = DW_OP_plus then keep (OpPlus st)
        else if opcode = DW_OP_plus_uconst then OpPlusULEBConst m addr st
        else if opcode = DW_OP_shl then keep (OpShl st)
        else if opcode = DW_OP_shr then keep (OpShr st)
        else if opcode = DW_OP_shra then keep (OpShra st)
        else if opcode = DW_OP_xor then keep (OpXor st)
        else if opcode = DW_OP_skip then OpSkip m addr st
        else if opcode = DW_OP_bra then OpBra m addr st
        else if opcode = DW_OP_eq then keep (OpEQ st)
        else if opcode = DW_OP_ge then keep (OpGE st)
        else if opcode = DW_OP_gt then keep (OpGT st)
        else if opcode = DW_OP_le then keep (OpLE st)
        else if opcode = DW_OP_lt then keep (OpLT st)
        else keep (OpNE st))"

text \<open>Literals, registers and the operations the code only logs; False for an unknown opcode.\<close>

definition is_nop_op :: "u8 \<Rightarrow> bool" where
  "is_nop_op opcode \<longleftrightarrow>
    opcode \<in> {DW_OP_fbreg, DW_OP_piece, DW_OP_xderef, DW_OP_xderef_size, DW_OP_nop,
              DW_OP_push_object_address, DW_OP_call2, DW_OP_call4, DW_OP_call_ref}"

definition decode_reg :: "u16 list \<Rightarrow> DfxMemory \<Rightarrow> DfxRegs \<Rightarrow> u8 \<Rightarrow> u64 \<Rightarrow> dstack \<Rightarrow> (bool \<times> u64 \<times> dstack) option" where
  "decode_reg q m regs opcode addr st =
    (if DW_OP_lit0 \<le> opcode \<and> opcode \<le> DW_OP_lit0 + 31 then Some (True, addr, OpLit opcode st)
     else if DW_OP_reg0 \<le> opcode \<and> opcode \<le> DW_OP_reg0 + 31 then
       map_option (\<lambda>st'. (True, addr, st')) (OpReg q opcode regs st)
     else if opcode = DW_OP_regx then map_option (Pair True) (OpRegx q m addr regs st)
     else if DW_OP_breg0 \<le> opcode \<and> opcode \<le> DW_OP_breg0 + 31 then
       map_option (Pair True) (OpBReg q opcode m addr regs st)
     else if opcode = DW_OP_bregx then map_option (Pair True) (OpBRegx q m addr regs st)
     else if opcode = DW_OP_deref_size then map_option (Pair True) (OpDerefSize m addr st)
     else if is_nop_op opcode then Some (True, addr, st)
     else Some (False, addr, st))"

definition Decode :: "u16 list \<Rightarrow> DfxMemory \<Rightarrow> DfxRegs \<Rightarrow> u64 \<Rightarrow> dstack \<Rightarrow> (bool \<times> u64 \<times> dstack) option" where
  "Decode q m regs addr st = do {
     (ok, v, addr') \<leftarrow> ReadT m addr 1 True;
     if \<not> ok then None
     else
       (let opcode = ucast v :: u8
        in if is_const_op opcode then map_option (Pair True) (decode_const m opcode addr' st)
           else if is_stack_op opcode then map_option (Pair True) (decode_stack m opcode addr' st)
           else decode_reg q m regs opcode addr' st)
   }"

section \<open>Evaluation\<close>

partial_function (option) eval_loop ::
    "u16 list \<Rightarrow> DfxMemory \<Rightarrow> DfxRegs \<Rightarrow> u64 \<Rightarrow> u64 \<Rightarrow> dstack \<Rightarrow> dstack option" where
  "eval_loop q m regs addr e st =
    (if addr < e then
       Option.bind (Decode q m regs addr st) (\<lambda>(cont, addr', st').
         if cont then eval_loop q m regs addr' e st' else Some st')
     else Some st)"

definition Eval :: "u16 list \<Rightarrow> DfxMemory \<Rightarrow> DfxRegs \<Rightarrow> u64 \<Rightarrow> u64 \<Rightarrow> u64 option" where
  "Eval q m regs initStackValue startPtr = do {
     (len, addr) \<leftarrow> ReadUleb128 m startPtr;
     st \<leftarrow> eval_loop q m regs addr (addr + len) [initStackValue];
     Some (case st of [] \<Rightarrow> 0 | v # _ \<Rightarrow> v)
   }"

section \<open>Compiled expressions\<close>

text \<open>
  A source language for the machine: literals, constants, based registers, memory dereference and
  the arithmetic and comparison operators, with its translation to DWARF bytes (operands first)
  and its value over the bytes of a memory.
\<close>

datatype dbin = BAnd | BDiv | BMinus | BMod | BMul | BOr | BPlus | BShl | BShr | BShra | BXor
  | BEQ | BGE | BGT | BLE | BLT | BNE

datatype dun = UAbs | UNeg | UNot

datatype dexpr =
    ELit nat | EConstu nat | EConsts int | EBreg nat int
  | EDeref dexpr | EPlusU dexpr nat | EUn dun dexpr | EBin dbin dexpr dexpr

fun bin_code :: "dbin \<Rightarrow> u8" where
  "bin_code BAnd = DW_OP_and" | "bin_code BDiv = DW_OP_div" | "bin_code BMinus = DW_OP_minus"
| "bin_code BMod = DW_OP_mod" | "bin_code BMul = DW_OP_mul" | "bin_code BOr = DW_OP_or"
| "bin_code BPlus = DW_OP_plus" | "bin_code BShl = DW_OP_shl" | "bin_code BShr = DW_OP_shr"
| "bin_code BShra = DW_OP_shra" | "bin_code BXor = DW_OP_xor" | "bin_code BEQ = DW_OP_eq"
| "bin_code BGE = DW_OP_ge" | "bin_code BGT = DW_OP_gt" | "bin_code BLE = DW_OP_le"
| "bin_code BLT = DW_OP_lt" | "bin_code BNE = DW_OP_ne"

fun bin_value :: "dbin \<Rightarrow> u64 \<Rightarrow> u64 \<Rightarrow> u64 option" where
  "bin_value BAnd x y = Some (x AND y)"
| "bin_value BDiv x y = (if y = 0 then Some x else sdiv64 x y)"
| "bin_value BMinus x y = Some (x - y)"
| "bin_value BMod x y = Some (if y = 0 then x else x mod y)"
| "bin_value BMul x y = Some (x * y)"
| "bin_value BOr x y = Some (x OR y)"
| "bin_value BPlus x y = Some (x + y)"
| "bin_value BShl x y = shl64 x (unat y)"
| "bin_value BShr x y = shr64 x (unat y)"
| "bin_value BShra x y = sar64 x (unat y)"
| "bin_value BXor x y = Some (x XOR y)"
| "bin_value BEQ x y = Some (bool_word (x = y))"
| "bin_value BGE x y = Some (bool_word (y \<le> x))"
| "bin_value BGT x y = Some (bool_word (y < x))"
| "bin_value BLE x y = Some (bool_word (x \<le> y))"
| "bin_value BLT x y = Some (bool_word (x < y))"
| "bin_value BNE x y = Some (bool_word (x \<noteq> y))"

fun un_code :: "dun \<Rightarrow> u8" where
  "un_code UAbs = DW_OP_abs" | "un_code UNeg = DW_OP_neg" | "un_code UNot = DW_OP_not"

fun un_value :: "dun \<Rightarrow> u64 \<Rightarrow> u64 option" where
  "un_value UAbs x = (if x <s 0 then sneg64 x else Some x)"
| "un_value UNeg x = sneg64 x"
| "un_value UNot x = Some (NOT x)"

fun compile :: "dexpr \<Rightarrow> u8 list" where
  "compile (ELit n) = [DW_OP_lit0 + of_nat n]"
| "compile (EConstu n) = DW_OP_constu # uleb_enc n"
| "compile (EConsts i) = DW_OP_consts # sleb_enc i"
| "compile (EBreg r i) = (DW_OP_breg0 + of_nat r) # sleb_enc i"
| "compile (EDeref e) = compile e @ [DW_OP_deref]"
| "compile (EPlusU e n) = compile e @ DW_OP_plus_uconst # uleb_enc n"
| "compile (EUn u e) = compile e @ [un_code u]"
| "compile (EBin b e1 e2) = compile e1 @ compile e2 @ [bin_code b]"

fun wf_dexpr :: "u16 list \<Rightarrow> dexpr \<Rightarrow> bool" where
  "wf_dexpr q (ELit n) \<longleftrightarrow> n < 32"
| "wf_dexpr q (EConstu n) \<longleftrightarrow> n < 2 ^ 64"
| "wf_dexpr q (EConsts i) \<longleftrightarrow> - (2 ^ 62) \<le> i \<and> i < 2 ^ 63"
| "wf_dexpr q (EBreg r i) \<longleftrightarrow> r < 32 \<and> of_nat r \<in> set (GetQutRegs q) \<and> - (2 ^ 62) \<le> i \<and> i < 2 ^ 63"
| "wf_dexpr q (EDeref e) \<longleftrightarrow> wf_dexpr q e"
| "wf_dexpr q (EPlusU e n) \<longleftrightarrow> wf_dexpr q e \<and> n < 2 ^ 64"
| "wf_dexpr q (EUn u e) \<longleftrightarrow> wf_dexpr q e"
| "wf_dexpr q (EBin b e1 e2) \<longleftrightarrow> wf_dexpr q e1 \<and> wf_dexpr q e2"

fun dvalue :: "DfxMemory \<Rightarrow> (u64 \<Rightarrow> u8) \<Rightarrow> DfxRegs \<Rightarrow> dexpr \<Rightarrow> u64 option" where
  "dvalue m byte regs (ELit n) = Some (of_nat n)"
| "dvalue m byte regs (EConstu n) = Some (of_nat n)"
| "dvalue m byte regs (EConsts i) = Some (of_int i)"
| "dvalue m byte regs (EBreg r i) = do { x \<leftarrow> reg_at regs r; sadd64 (of_int i) x }"
| "dvalue m byte regs (EDeref e) = do {
     a \<leftarrow> dvalue m byte regs e;
     if readable m a 8 then Some (bytes_word (bytes_at byte a 8)) else None }"
| "dvalue m byte regs (EPlusU e n) = do { x \<leftarrow> dvalue m byte regs e; Some (x + of_nat n) }"
| "dvalue m byte regs (EUn u e) = do { x \<leftarrow> dvalue m byte regs e; un_value u x }"
| "dvalue m byte regs (EBin b e1 e2) = do {
     x \<leftarrow> dvalue m byte regs e1; y \<leftarrow> dvalue m byte regs e2; bin_value b x y }"

section \<open>Lemmas\<close>

context mem_view
begin

lemma Decode_code:
  assumes "code_at m byte a (b # r)"
  shows "Decode q m regs a st =
    (if is_const_op b then map_option (Pair True) (decode_const m b (a + 1) st)
     else if is_stack_op b then map_option (Pair True) (decode_stack m b (a + 1) st)
     else decode_reg q m regs b (a + 1) st)"
  using read_byte[OF assms] by (simp add: Decode_def)

lemma Decode_lit:
  assumes "code_at m byte a ((DW_OP_lit0 + of_nat n) # r)" "n < 32"
  shows "Decode q m regs a st = Some (True, a + 1, of_nat n # st)"
proof -
  have "unat (DW_OP_lit0 + of_nat n) = 48 + n" using assms(2) by (simp add: unat_word_ariths unat_of_nat)
  then have "DW_OP_lit0 + of_nat n \<le> DW_OP_lit0 + 31" "DW_OP_lit0 \<le> DW_OP_lit0 + of_nat n"
    "\<not> is_const_op (DW_OP_lit0 + of_nat n)" "\<not> is_stack_op (DW_OP_lit0 + of_nat n)"
    using assms(2) by (auto simp: is_const_op_def is_stack_op_def word_le_nat_alt word_unat_eq_iff)
  moreover have "ucast (of_nat n :: u8) = (of_nat n :: u64)"
    using assms(2) by (simp add: word_unat_eq_iff unsigned_ucast_eq unat_of_nat take_bit_nat_eq_self)
  ultimately show ?thesis using Decode_code[OF assms(1)] by (simp add: decode_reg_def OpLit_def)
qed

lemma Decode_bin:
  assumes "code_at m byte a (bin_code b # r)"
  shows "Decode q m regs a (y # x # st) = map_option (\<lambda>v. (True, a + 1, v # st)) (bin_value b x y)"
  using Decode_code[OF assms]
  by (cases b) (auto simp: is_const_op_def is_stack_op_def decode_stack_def OpAnd_def OpDiv_def
    OpMinus_def OpMod_def OpMul_def OpOr_def OpPlus_def OpShl_def OpShr_def OpShra_def OpXor_def
    OpEQ_def OpGE_def OpGT_def OpLE_def OpLT_def OpNE_def option.map_comp comp_def)

lemma Decode_un:
  assumes "code_at m byte a (un_code u # r)"
  shows "Decode q m regs a (x # st) = map_option (\<lambda>v. (True, a + 1, v # st)) (un_value u x)"
  using Decode_code[OF assms]
  by (cases u) (auto simp: is_const_op_def is_stack_op_def decode_stack_def OpAbs_def OpNeg_def
    OpNot_def option.map_comp comp_def)

lemma Decode_uleb:
  assumes "code_at m byte a (DW_OP_constu # uleb_enc n @ r)" "n < 2 ^ 64"
  shows "Decode q m regs a st = Some (True, a + 1 + of_nat (length (uleb_enc n)), of_nat n # st)"
  using Decode_code[OF assms(1)] read_uleb[OF code_at_Cons(3)[OF assms(1)] assms(2)]
  by (simp add: is_const_op_def decode_const_def)

lemma Decode_sleb:
  assumes "code_at m byte a (DW_OP_consts # sleb_enc i @ r)" "- (2 ^ 62) \<le> i" "i < 2 ^ 63"
  shows "Decode q m regs a st = Some (True, a + 1 + of_nat (length (sleb_enc i)), of_int i # st)"
  using Decode_code[OF assms(1)] read_sleb[OF code_at_Cons(3)[OF assms(1)] assms(2,3)]
  by (simp add: is_const_op_def decode_const_def)

lemma Decode_plus_uconst:
  assumes "code_at m byte a (DW_OP_plus_uconst # uleb_enc n @ r)" "n < 2 ^ 64"
  shows "Decode q m regs a (x # st) = Some (True, a + 1 + of_nat (length (uleb_enc n)), (x + of_nat n) # st)"
  using Decode_code[OF assms(1)] read_uleb[OF code_at_Cons(3)[OF assms(1)] assms(2)]
  by (simp add: is_const_op_def is_stack_op_def decode_stack_def OpPlusULEBConst_def)

lemma Decode_deref:
  assumes "code_at m byte a (DW_OP_deref # r)" "readable m x 8"
  shows "Decode q m regs a (x # st) = Some (True, a + 1, bytes_word (bytes_at byte x 8) # st)"
  using Decode_code[OF assms(1)] Read_ok[OF assms(2), of False]
  by (simp add: is_const_op_def is_stack_op_def decode_stack_def OpDeref_def ReadT_def)

lemma Decode_breg:
  assumes "code_at m byte a ((DW_OP_breg0 + of_nat k) # sleb_enc i @ r)" "k < 32"
    and "of_nat k \<in> set (GetQutRegs q)" "- (2 ^ 62) \<le> i" "i < 2 ^ 63"
  shows "Decode q m regs a st =
    do { x \<leftarrow> reg_at regs k; v \<leftarrow> sadd64 (of_int i) x; Some (True, a + 1 + of_nat (length (sleb_enc i)), v # st) }"
proof -
  let ?b = "DW_OP_breg0 + of_nat k :: u8"
  have u: "unat ?b = 112 + k" using assms(2) by (simp add: unat_word_ariths unat_of_nat)
  then have b: "?b \<le> DW_OP_breg0 + 31" "DW_OP_breg0 \<le> ?b" "\<not> is_const_op ?b" "\<not> is_stack_op ?b"
    "\<not> ?b \<le> DW_OP_lit0 + 31" "\<not> ?b \<le> DW_OP_reg0 + 31" "?b \<noteq> DW_OP_regx"
    using assms(2) by (auto simp: is_const_op_def is_stack_op_def word_le_nat_alt word_unat_eq_iff)
  have r: "unat (?b - DW_OP_breg0) = k" using assms(2) by (simp add: unat_of_nat)
  obtain l where l: "IsQutReg q (of_nat k) = Some l" using assms(3) IsQutReg_None by fastforce
  show ?thesis
    using Decode_code[OF assms(1)] b read_sleb[OF code_at_Cons(3)[OF assms(1)] assms(4,5)] r l
    by (simp add: decode_reg_def OpBReg_def push_based_def Let_def map_option_bind comp_def)
qed

lemma eval_loop_step:
  assumes "Decode q m regs a st = Some (True, a', st')" "a < e"
  shows "eval_loop q m regs a e st = eval_loop q m regs a' e st'"
  using assms by (simp add: eval_loop.simps[of q m regs a])

lemma eval_loop_compile:
  assumes "wf_dexpr q x" "dvalue m byte regs x = Some v" "code_at m byte a (compile x @ r)"
    and "unat a + length (compile x) \<le> unat e"
  shows "eval_loop q m regs a e st = eval_loop q m regs (a + of_nat (length (compile x))) e (v # st)"
  using assms
proof (induction x arbitrary: v a r st)
  case (ELit n)
  then show ?case
    using eval_loop_step[OF Decode_lit[of a n r q regs st]] by (simp add: word_less_nat_alt)
next
  case (EConstu n)
  then show ?case
    using eval_loop_step[OF Decode_uleb[of a n r q regs st]] by (simp add: word_less_nat_alt add.assoc)
next
  case (EConsts i)
  then show ?case
    using eval_loop_step[OF Decode_sleb[of a i r q regs st]] by (simp add: word_less_nat_alt add.assoc)
next
  case (EBreg k i)
  then obtain x where "reg_at regs k = Some x" "sadd64 (of_int i) x = Some v"
    by (auto simp: bind_eq_Some_conv)
  then show ?case
    using EBreg eval_loop_step[of q regs a st "a + 1 + of_nat (length (sleb_enc i))" "v # st" e] Decode_breg[of a k i r q regs st]
    by (simp add: word_less_nat_alt add.assoc)
next
  case (EDeref x)
  let ?n = "length (compile x)"
  obtain p where p: "dvalue m byte regs x = Some p" "readable m p 8" "v = bytes_word (bytes_at byte p 8)"
    using EDeref.prems(2) by (auto simp: bind_eq_Some_conv split: if_splits)
  have c: "code_at m byte a (compile x @ DW_OP_deref # r)" using EDeref.prems(3) by simp
  note c' = code_at_append(2)[OF c]
  have "a + of_nat ?n < e" using code_at_end[OF c] EDeref.prems(4) by (simp add: word_less_nat_alt)
  with EDeref.IH[OF _ p(1) c, of st] EDeref.prems(1,4)
    eval_loop_step[OF Decode_deref[OF c' p(2), of q regs st]] p(3)
  show ?case by (simp add: algebra_simps)
next
  case (EPlusU x n)
  let ?n = "length (compile x)"
  obtain p where p: "dvalue m byte regs x = Some p" "v = p + of_nat n"
    using EPlusU.prems(2) by (auto simp: bind_eq_Some_conv)
  have c: "code_at m byte a (compile x @ DW_OP_plus_uconst # uleb_enc n @ r)" using EPlusU.prems(3) by simp
  note c' = code_at_append(2)[OF c]
  have "a + of_nat ?n < e" using code_at_end[OF c] EPlusU.prems(4) by (simp add: word_less_nat_alt)
  with EPlusU.IH[OF _ p(1) c, of st] EPlusU.prems(1,4)
    eval_loop_step[OF Decode_plus_uconst[OF c', of q regs p st]] p(2)
  show ?case by (simp add: algebra_simps)
next
  case (EUn u x)
  let ?n = "length (compile x)"
  obtain p where p: "dvalue m byte regs x = Some p" "un_value u p = Some v"
    using EUn.prems(2) by (auto simp: bind_eq_Some_conv)
  have c: "code_at m byte a (compile x @ un_code u # r)" using EUn.prems(3) by simp
  note c' = code_at_append(2)[OF c]
  have "a + of_nat ?n < e" using code_at_end[OF c] EUn.prems(4) by (simp add: word_less_nat_alt)
  with EUn.IH[OF _ p(1) c, of st] EUn.prems(1,4) p(2)
    eval_loop_step[of q regs "a + of_nat ?n" "p # st" "a + of_nat ?n + 1" "v # st" e] Decode_un[OF c', of q regs p st]
  show ?case by (simp add: algebra_simps)
next
  case (EBin b x y)
  let ?n = "length (compile x)" and ?k = "length (compile y)"
  obtain p p' where p: "dvalue m byte regs x = Some p" "dvalue m byte regs y = Some p'" "bin_value b p p' = Some v"
    using EBin.prems(2) by (auto simp: bind_eq_Some_conv)
  have c: "code_at m byte a (compile x @ compile y @ bin_code b # r)" using EBin.prems(3) by simp
  note c' = code_at_append(2)[OF c] and e1 = code_at_end[OF c]
  note c'' = code_at_append(2)[OF c'] and e2 = code_at_end[OF c']
  have lt: "a + of_nat ?n + of_nat ?k < e"
    using e1 e2 EBin.prems(4) by (simp add: word_less_nat_alt)
  have s1: "eval_loop q m regs a e st = eval_loop q m regs (a + of_nat ?n) e (p # st)"
    using EBin.IH(1)[OF _ p(1) c] EBin.prems(1,4) by simp
  have s2: "eval_loop q m regs (a + of_nat ?n) e (p # st) = eval_loop q m regs (a + of_nat ?n + of_nat ?k) e (p' # p # st)"
    using EBin.IH(2)[OF _ p(2) c'] EBin.prems(1,4) e1 by simp
  have "Decode q m regs (a + of_nat ?n + of_nat ?k) (p' # p # st) = Some (True, a + of_nat ?n + of_nat ?k + 1, v # st)"
    using Decode_bin[OF c''] p(3) by simp
  from s1 s2 eval_loop_step[OF this lt] show ?case by (simp add: algebra_simps)
qed

lemma Eval_compile:
  assumes "wf_dexpr q x" "dvalue m byte regs x = Some v" "length (compile x) < 2 ^ 64"
    and "code_at m byte a (uleb_enc (length (compile x)) @ compile x)"
  shows "Eval q m regs init a = Some v"
proof -
  let ?n = "length (compile x)" and ?a = "a + of_nat (length (uleb_enc (length (compile x))))"
  have c: "code_at m byte ?a (compile x @ [])" using code_at_append(2)[OF assms(4)] by simp
  have e: "unat (?a + of_nat ?n) = unat ?a + ?n" using code_at_end[OF c] .
  show ?thesis
    using eval_loop_compile[OF assms(1,2) c, of "?a + of_nat ?n" "[init]"] read_uleb[OF assms(4,3)] e
    by (simp add: Eval_def eval_loop.simps[of q m regs "?a + of_nat ?n"])
qed

end

section \<open>Properties\<close>

text \<open>
  C7. Evaluating the DWARF bytes of an arithmetic expression (its length first, as in an
  expression rule) returns the value of the expression over the target's memory and registers,
  whatever the initial stack value.
\<close>

theorem Eval_compiled:
  assumes "mem_view m byte" "wf_dexpr q x" "dvalue m byte regs x = Some v"
    and "length (compile x) < 2 ^ 64" "code_at m byte a (uleb_enc (length (compile x)) @ compile x)"
  shows "Eval q m regs init a = Some v"
  using mem_view.Eval_compile[OF assms] .

theorem Eval_compiled_witness:
  "Eval [] (byte_memory (rom 0x1000 [4, 0x8f, 0x10, 0x23, 8])) (Create[31 := 0x7000]) 0 0x1000 = Some 0x7018"
proof -
  let ?x = "EPlusU (EBreg 31 16) 8" and ?m = "rom 0x1000 [4, 0x8f, 0x10, 0x23, 8]"
  have c: "compile ?x = [0x8f, 0x10, 0x23, 8]" by (simp add: sleb_enc.simps[of 16] uleb_enc.simps[of 8])
  have "wf_dexpr [] ?x" by (simp add: GetQutRegs_def QUT_REGS_def)
  moreover have "dvalue (byte_memory ?m) ?m (Create[31 := 0x7000]) ?x = Some 0x7018"
    by (simp add: reg_at_def Create_def REG_LAST_def sadd64_def s64_def)
  moreover have "code_at (byte_memory ?m) ?m 0x1000 (uleb_enc (length (compile ?x)) @ compile ?x)"
    unfolding c using code_at_rom[of "0x1000" "[4, 0x8f, 0x10, 0x23, 8]"] by (simp add: uleb_enc.simps[of "Suc (Suc (Suc (Suc 0)))"])
  ultimately show ?thesis
    using Eval_compiled[OF bm.mem_view_axioms, of "[]" ?x ?m] unfolding c by simp
qed

end
