(* ===== verification/Cfa_Instr.thy ===== *)
theory Cfa_Instr
  imports Dwarf_Op
begin

text \<open>
  The call frame instruction interpreter \<^verbatim>\<open>DwarfCfaInstructions\<close>
  (\<^verbatim>\<open>src/interfaces/innerkits/unwinder/src/unwind_entry_parser/dwarf_cfa_instructions.cpp\<close>) and the
  register rules \<^verbatim>\<open>RegLocState\<close> it fills (\<^verbatim>\<open>src/interfaces/innerkits/unwinder/include/unwind_context.h\<close>).

  \<^verbatim>\<open>cfaRegOffset\<close> and \<^verbatim>\<open>cfaExprPtr\<close> share the storage of a union: the 64-bit cell \<open>rs_cfaCell\<close>, of
  which a store to \<^verbatim>\<open>cfaRegOffset\<close> replaces the low half.  The loop \<^verbatim>\<open>Iterate\<close> is a partial
  function; its result is \<^term>\<open>None\<close> for undefined behaviour and for a run that does not end.
\<close>

section \<open>Opcodes\<close>

abbreviation DW_CFA_nop :: u8 where "DW_CFA_nop \<equiv> 0x00"
abbreviation DW_CFA_set_loc :: u8 where "DW_CFA_set_loc \<equiv> 0x01"
abbreviation DW_CFA_advance_loc1 :: u8 where "DW_CFA_advance_loc1 \<equiv> 0x02"
abbreviation DW_CFA_advance_loc2 :: u8 where "DW_CFA_advance_loc2 \<equiv> 0x03"
abbreviation DW_CFA_advance_loc4 :: u8 where "DW_CFA_advance_loc4 \<equiv> 0x04"
abbreviation DW_CFA_offset_extended :: u8 where "DW_CFA_offset_extended \<equiv> 0x05"
abbreviation DW_CFA_restore_extended :: u8 where "DW_CFA_restore_extended \<equiv> 0x06"
abbreviation DW_CFA_undefined :: u8 where "DW_CFA_undefined \<equiv> 0x07"
abbreviation DW_CFA_same_value :: u8 where "DW_CFA_same_value \<equiv> 0x08"
abbreviation DW_CFA_register :: u8 where "DW_CFA_register \<equiv> 0x09"
abbreviation DW_CFA_remember_state :: u8 where "DW_CFA_remember_state \<equiv> 0x0a"
abbreviation DW_CFA_restore_state :: u8 where "DW_CFA_restore_state \<equiv> 0x0b"
abbreviation DW_CFA_def_cfa :: u8 where "DW_CFA_def_cfa \<equiv> 0x0c"
abbreviation DW_CFA_def_cfa_register :: u8 where "DW_CFA_def_cfa_register \<equiv> 0x0d"
abbreviation DW_CFA_def_cfa_offset :: u8 where "DW_CFA_def_cfa_offset \<equiv> 0x0e"
abbreviation DW_CFA_def_cfa_expression :: u8 where "DW_CFA_def_cfa_expression \<equiv> 0x0f"
abbreviation DW_CFA_expression :: u8 where "DW_CFA_expression \<equiv> 0x10"
abbreviation DW_CFA_offset_extended_sf :: u8 where "DW_CFA_offset_extended_sf \<equiv> 0x11"
abbreviation DW_CFA_def_cfa_sf :: u8 where "DW_CFA_def_cfa_sf \<equiv> 0x12"
abbreviation DW_CFA_def_cfa_offset_sf :: u8 where "DW_CFA_def_cfa_offset_sf \<equiv> 0x13"
abbreviation DW_CFA_val_offset :: u8 where "DW_CFA_val_offset \<equiv> 0x14"
abbreviation DW_CFA_val_offset_sf :: u8 where "DW_CFA_val_offset_sf \<equiv> 0x15"
abbreviation DW_CFA_val_expression :: u8 where "DW_CFA_val_expression \<equiv> 0x16"
abbreviation DW_CFA_AARCH64_negate_ra_state :: u8 where "DW_CFA_AARCH64_negate_ra_state \<equiv> 0x2d"
abbreviation DW_CFA_GNU_negative_offset_extended :: u8 where "DW_CFA_GNU_negative_offset_extended \<equiv> 0x2f"
abbreviation DW_CFA_advance_loc :: u8 where "DW_CFA_advance_loc \<equiv> 0x40"
abbreviation DW_CFA_offset :: u8 where "DW_CFA_offset \<equiv> 0x80"
abbreviation DW_CFA_restore :: u8 where "DW_CFA_restore \<equiv> 0xc0"

section \<open>Data\<close>

record CommonInfoEntry =
  cie_codeAlignFactor :: u32
  cie_dataAlignFactor :: u32
  cie_returnAddressRegister :: u64
  cie_hasAugmentationData :: bool
  cie_isSignalFrame :: bool
  cie_segmentSize :: u8
  cie_instructionsOff :: u64
  cie_instructionsEnd :: u64
  cie_personality :: u8
  cie_lsdaEncoding :: u8
  cie_pointerEncoding :: u8

record FrameDescEntry =
  fde_pcStart :: u64
  fde_pcEnd :: u64
  fde_lsda :: u64
  fde_instructionsOff :: u64
  fde_instructionsEnd :: u64
  fde_cieAddr :: u64
  fde_cie :: CommonInfoEntry

datatype RegLocEnum =
    REG_LOC_UNUSED | REG_LOC_UNDEFINED | REG_LOC_VAL_OFFSET | REG_LOC_MEM_OFFSET
  | REG_LOC_REGISTER | REG_LOC_VAL_EXPRESSION | REG_LOC_MEM_EXPRESSION

record RegLoc =
  loc_type :: RegLocEnum
  loc_val :: u64

record RegLocState =
  rs_pcStart :: u64
  rs_pcEnd :: u64
  rs_cfaReg :: u32
  rs_cfaCell :: u64
  rs_returnAddressUndefined :: bool
  rs_returnAddressSame :: bool
  rs_returnAddressRegister :: u16
  rs_locs :: "RegLoc list"

text \<open>
  A fresh state.  Only the low half of the union is initialised; \<open>junk\<close> is what the storage held.
\<close>

definition RegLocState_init :: "u32 \<Rightarrow> nat \<Rightarrow> RegLocState" where
  "RegLocState_init junk n =
    \<lparr>rs_pcStart = 0, rs_pcEnd = 0, rs_cfaReg = 0, rs_cfaCell = push_bit 32 (ucast junk),
     rs_returnAddressUndefined = False, rs_returnAddressSame = False, rs_returnAddressRegister = 0,
     rs_locs = replicate n \<lparr>loc_type = REG_LOC_UNUSED, loc_val = 0\<rparr>\<rparr>"

definition set_cfaRegOffset :: "u64 \<Rightarrow> RegLocState \<Rightarrow> RegLocState" where
  "set_cfaRegOffset v rs =
    rs\<lparr>rs_cfaCell := (rs_cfaCell rs AND 0xffffffff00000000) OR ucast (ucast v :: u32)\<rparr>"

definition get_cfaRegOffset :: "RegLocState \<Rightarrow> u32" where
  "get_cfaRegOffset rs = ucast (rs_cfaCell rs)"

text \<open>
  The state the handlers work on: \<^verbatim>\<open>pcOffset\<close>, \<^verbatim>\<open>instPtr\<close>, \<^verbatim>\<open>rsState\<close> and the stack
  \<^verbatim>\<open>saveRsStates_\<close>; \<^verbatim>\<open>backupRsState_\<close> does not change while instructions run.
\<close>

record CfaState =
  cs_pc :: u64
  cs_ptr :: u64
  cs_rs :: RegLocState
  cs_saved :: "RegLocState list"

definition upd_loc :: "u16 list \<Rightarrow> u64 \<Rightarrow> (RegLoc \<Rightarrow> RegLoc) \<Rightarrow> RegLocState \<Rightarrow> RegLocState" where
  "upd_loc q reg f rs =
    (case IsQutReg q (ucast reg) of
       None \<Rightarrow> rs
     | Some i \<Rightarrow> rs\<lparr>rs_locs := (rs_locs rs)[i := f (rs_locs rs ! i)]\<rparr>)"

definition set_loc :: "u16 list \<Rightarrow> u64 \<Rightarrow> RegLocEnum \<Rightarrow> u64 \<Rightarrow> RegLocState \<Rightarrow> RegLocState" where
  "set_loc q reg t v rs = upd_loc q reg (\<lambda>_. \<lparr>loc_type = t, loc_val = v\<rparr>) rs"

section \<open>Handlers\<close>

text \<open>Location advances; the encoded deltas are scaled by \<^verbatim>\<open>codeAlignFactor\<close>.\<close>

definition cfa_loc_op :: "DfxMemory \<Rightarrow> CommonInfoEntry \<Rightarrow> u8 \<Rightarrow> CfaState \<Rightarrow> CfaState option" where
  "cfa_loc_op m cie op s =
    (let enc = (if op = DW_CFA_set_loc then cie_pointerEncoding cie
                else if op = DW_CFA_advance_loc1 then DW_EH_PE_udata1
                else if op = DW_CFA_advance_loc2 then DW_EH_PE_udata2
                else DW_EH_PE_udata4)
     in do {
       (v, p) \<leftarrow> ReadEncodedValue m (cs_ptr s) enc;
       Some (s\<lparr>cs_pc := (if op = DW_CFA_set_loc then v
                        else cs_pc s + v * ucast (cie_codeAlignFactor cie)), cs_ptr := p\<rparr>)
     })"

text \<open>\<^verbatim>\<open>DW_CFA_offset_extended\<close> up to \<^verbatim>\<open>DW_CFA_register\<close>.\<close>

definition cfa_reg_op ::
    "u16 list \<Rightarrow> DfxMemory \<Rightarrow> CommonInfoEntry \<Rightarrow> RegLocState \<Rightarrow> u8 \<Rightarrow> CfaState \<Rightarrow> CfaState option" where
  "cfa_reg_op q m cie backup op s = do {
     (reg, p) \<leftarrow> ReadUleb128 m (cs_ptr s);
     let rs = cs_rs s;
     if op = DW_CFA_offset_extended then do {
       (v, p') \<leftarrow> ReadUleb128 m p;
       Some (s\<lparr>cs_ptr := p',
               cs_rs := set_loc q reg REG_LOC_MEM_OFFSET (v * ucast (cie_codeAlignFactor cie)) rs\<rparr>)
     }
     else if op = DW_CFA_restore_extended then
       Some (s\<lparr>cs_ptr := p, cs_rs :=
         (case IsQutReg q (ucast reg) of None \<Rightarrow> rs
          | Some i \<Rightarrow> rs\<lparr>rs_locs := (rs_locs rs)[i := rs_locs backup ! i]\<rparr>)\<rparr>)
     else if op = DW_CFA_undefined then
       Some (s\<lparr>cs_ptr := p, cs_rs := upd_loc q reg (\<lambda>l. l\<lparr>loc_type := REG_LOC_UNDEFINED\<rparr>)
         (if reg = ucast (rs_returnAddressRegister rs) then rs\<lparr>rs_returnAddressUndefined := True\<rparr> else rs)\<rparr>)
     else if op = DW_CFA_same_value then
       Some (s\<lparr>cs_ptr := p, cs_rs := upd_loc q reg (\<lambda>l. l\<lparr>loc_type := REG_LOC_UNUSED\<rparr>)
         (if reg = ucast (rs_returnAddressRegister rs) then rs\<lparr>rs_returnAddressSame := True\<rparr> else rs)\<rparr>)
     else do {
       (reg2, p') \<leftarrow> ReadUleb128 m p;
       Some (s\<lparr>cs_ptr := p', cs_rs :=
         (if IsQutReg q (ucast reg2) = None then rs else set_loc q reg REG_LOC_REGISTER reg2 rs)\<rparr>)
     }
   }"

definition cfa_state_op :: "u8 \<Rightarrow> CfaState \<Rightarrow> CfaState" where
  "cfa_state_op op s =
    (if op = DW_CFA_remember_state then s\<lparr>cs_saved := cs_rs s # cs_saved s\<rparr>
     else (case cs_saved s of [] \<Rightarrow> s | rs # saved \<Rightarrow> s\<lparr>cs_rs := rs, cs_saved := saved\<rparr>))"

text \<open>
  The definitions of the CFA by register and offset.  A factored offset is scaled by
  \<^verbatim>\<open>dataAlignFactor\<close> in signed arithmetic.
\<close>

definition read_factored :: "DfxMemory \<Rightarrow> CommonInfoEntry \<Rightarrow> u64 \<Rightarrow> (u64 \<times> u64) option" where
  "read_factored m cie p = do {
     (v, p') \<leftarrow> ReadSleb128 m p;
     off \<leftarrow> smul64 v (scast (cie_dataAlignFactor cie));
     Some (off, p')
   }"

definition cfa_def_op :: "DfxMemory \<Rightarrow> CommonInfoEntry \<Rightarrow> u8 \<Rightarrow> CfaState \<Rightarrow> CfaState option" where
  "cfa_def_op m cie op s =
    (let rs = cs_rs s
     in if op = DW_CFA_def_cfa_offset then do {
          (off, p) \<leftarrow> ReadUleb128 m (cs_ptr s);
          Some (s\<lparr>cs_ptr := p, cs_rs := set_cfaRegOffset off rs\<rparr>)
        }
        else if op = DW_CFA_def_cfa_offset_sf then do {
          (off, p) \<leftarrow> read_factored m cie (cs_ptr s);
          Some (s\<lparr>cs_ptr := p, cs_rs := set_cfaRegOffset off rs\<rparr>)
        }
        else do {
          (reg, p) \<leftarrow> ReadUleb128 m (cs_ptr s);
          let rs' = (if of_nat REG_LAST \<le> reg then rs else rs\<lparr>rs_cfaReg := ucast reg\<rparr>);
          if op = DW_CFA_def_cfa_register then Some (s\<lparr>cs_ptr := p, cs_rs := rs'\<rparr>)
          else do {
            (off, p') \<leftarrow> (if op = DW_CFA_def_cfa then ReadUleb128 m p else read_factored m cie p);
            Some (s\<lparr>cs_ptr := p',
                    cs_rs := (if of_nat REG_LAST \<le> reg then rs else set_cfaRegOffset off rs')\<rparr>)
          }
        })"

text \<open>
  The remaining register rules with an offset.  The sign of \<^verbatim>\<open>DW_CFA_GNU_negative_offset_extended\<close>
  is applied to the operand as it is.
\<close>

definition cfa_offset_op ::
    "u16 list \<Rightarrow> DfxMemory \<Rightarrow> CommonInfoEntry \<Rightarrow> u8 \<Rightarrow> CfaState \<Rightarrow> CfaState option" where
  "cfa_offset_op q m cie op s = do {
     (reg, p) \<leftarrow> ReadUleb128 m (cs_ptr s);
     (off, p') \<leftarrow>
       (if op = DW_CFA_offset_extended_sf then read_factored m cie p
        else if op = DW_CFA_val_offset then
          map_val (\<lambda>v. v * ucast (cie_codeAlignFactor cie)) (ReadUleb128 m p)
        else if op = DW_CFA_val_offset_sf then do {
          (v, p2) \<leftarrow> ReadSleb128 m p;
          off \<leftarrow> smul64 v (ucast (cie_codeAlignFactor cie));
          Some (off, p2)
        }
        else do {
          (v, p2) \<leftarrow> ReadUleb128 m p;
          off \<leftarrow> sneg64 v;
          Some (off, p2)
        });
     let t = (if op = DW_CFA_val_offset \<or> op = DW_CFA_val_offset_sf then REG_LOC_VAL_OFFSET
              else REG_LOC_MEM_OFFSET);
     Some (s\<lparr>cs_ptr := p', cs_rs := set_loc q reg t off (cs_rs s)\<rparr>)
   }"

text \<open>
  The rules given by an expression: the rule points to the length of the block, and the block is
  skipped.  False when the end of the block is not an address.
\<close>

definition skip_block :: "DfxMemory \<Rightarrow> CfaState \<Rightarrow> (bool \<times> CfaState) option" where
  "skip_block m s = do {
     (exprLen, p) \<leftarrow> ReadUleb128 m (cs_ptr s);
     (case add_overflow p exprLen of (ovf, p') \<Rightarrow> Some (\<not> ovf, s\<lparr>cs_ptr := p'\<rparr>))
   }"

definition cfa_expr_op :: "u16 list \<Rightarrow> DfxMemory \<Rightarrow> u8 \<Rightarrow> CfaState \<Rightarrow> (bool \<times> CfaState) option" where
  "cfa_expr_op q m op s =
    (if op = DW_CFA_def_cfa_expression then
       skip_block m (s\<lparr>cs_rs := (cs_rs s)\<lparr>rs_cfaReg := 0, rs_cfaCell := cs_ptr s\<rparr>\<rparr>)
     else do {
       (reg, p) \<leftarrow> ReadUleb128 m (cs_ptr s);
       let t = (if op = DW_CFA_expression then REG_LOC_MEM_EXPRESSION else REG_LOC_VAL_EXPRESSION);
       skip_block m (s\<lparr>cs_ptr := p, cs_rs := set_loc q reg t p (cs_rs s)\<rparr>)
     })"

text \<open>
  The instructions with their operand in the low six bits; \<^verbatim>\<open>operand * codeAlignFactor\<close> is 32-bit
  arithmetic.
\<close>

definition cfa_primary_op ::
    "u16 list \<Rightarrow> DfxMemory \<Rightarrow> CommonInfoEntry \<Rightarrow> RegLocState \<Rightarrow> u8 \<Rightarrow> CfaState \<Rightarrow> CfaState option" where
  "cfa_primary_op q m cie backup op s =
    (let operand = op AND 0x3f; rs = cs_rs s
     in if op AND 0xc0 = DW_CFA_advance_loc then
          Some (s\<lparr>cs_pc := cs_pc s + ucast (ucast operand * cie_codeAlignFactor cie)\<rparr>)
        else if op AND 0xc0 = DW_CFA_offset then do {
          (v, p) \<leftarrow> ReadUleb128 m (cs_ptr s);
          off \<leftarrow> smul64 v (scast (cie_dataAlignFactor cie));
          Some (s\<lparr>cs_ptr := p, cs_rs := set_loc q (ucast operand) REG_LOC_MEM_OFFSET off rs\<rparr>)
        }
        else if op AND 0xc0 = DW_CFA_restore then
          Some (s\<lparr>cs_rs := (case IsQutReg q (ucast operand) of None \<Rightarrow> rs
                  | Some i \<Rightarrow> rs\<lparr>rs_locs := (rs_locs rs)[i := rs_locs backup ! i]\<rparr>)\<rparr>)
        else Some s)"

definition DecodeDwCfa ::
    "u16 list \<Rightarrow> DfxMemory \<Rightarrow> CommonInfoEntry \<Rightarrow> RegLocState \<Rightarrow> u8 \<Rightarrow> CfaState \<Rightarrow> (bool \<times> CfaState) option" where
  "DecodeDwCfa q m cie backup op s =
    (let cont = map_option (Pair True)
     in if op = DW_CFA_nop then Some (True, s)
        else if DW_CFA_set_loc \<le> op \<and> op \<le> DW_CFA_advance_loc4 then cont (cfa_loc_op m cie op s)
        else if DW_CFA_offset_extended \<le> op \<and> op \<le> DW_CFA_register then cont (cfa_reg_op q m cie backup op s)
        else if op = DW_CFA_remember_state \<or> op = DW_CFA_restore_state then Some (True, cfa_state_op op s)
        else if op = DW_CFA_def_cfa \<or> op = DW_CFA_def_cfa_register \<or> op = DW_CFA_def_cfa_offset \<or>
                op = DW_CFA_def_cfa_sf \<or> op = DW_CFA_def_cfa_offset_sf then cont (cfa_def_op m cie op s)
        else if op = DW_CFA_offset_extended_sf \<or> op = DW_CFA_val_offset \<or> op = DW_CFA_val_offset_sf \<or>
                op = DW_CFA_GNU_negative_offset_extended then cont (cfa_offset_op q m cie op s)
        else if op = DW_CFA_def_cfa_expression \<or> op = DW_CFA_expression \<or> op = DW_CFA_val_expression then
          cfa_expr_op q m op s
        else if op = DW_CFA_AARCH64_negate_ra_state then Some (True, s)
        else cont (cfa_primary_op q m cie backup op s))"

section \<open>The loop\<close>

partial_function (option) iterate_loop ::
    "u16 list \<Rightarrow> DfxMemory \<Rightarrow> u64 \<Rightarrow> FrameDescEntry \<Rightarrow> u64 \<Rightarrow> RegLocState \<Rightarrow> CfaState \<Rightarrow> CfaState option" where
  "iterate_loop q m pc fde instEnd backup s =
    (if pc < cs_pc s then Some (s\<lparr>cs_rs := (cs_rs s)\<lparr>rs_pcEnd := cs_pc s\<rparr>\<rparr>)
     else if instEnd \<le> cs_ptr s then Some (s\<lparr>cs_rs := (cs_rs s)\<lparr>rs_pcEnd := fde_pcEnd fde\<rparr>\<rparr>)
     else Option.bind (ReadT m (cs_ptr s) 1 True) (\<lambda>(ok, v, p).
       let s1 = s\<lparr>cs_rs := (cs_rs s)\<lparr>rs_pcStart := cs_pc s\<rparr>\<rparr>
       in if \<not> ok then Some s1
          else Option.bind (DecodeDwCfa q m (fde_cie fde) backup (ucast v) (s1\<lparr>cs_ptr := p\<rparr>))
            (\<lambda>(cont, s2). if cont then iterate_loop q m pc fde instEnd backup s2 else Some s2)))"

definition Iterate ::
    "u16 list \<Rightarrow> DfxMemory \<Rightarrow> u64 \<Rightarrow> FrameDescEntry \<Rightarrow> u64 \<Rightarrow> u64 \<Rightarrow> RegLocState \<Rightarrow> RegLocState list
      \<Rightarrow> (RegLocState \<times> RegLocState list) option" where
  "Iterate q m pc fde instStart instEnd rs saved = do {
     let rs0 = rs\<lparr>rs_pcStart := fde_pcStart fde\<rparr>;
     s \<leftarrow> iterate_loop q m pc fde instEnd rs0
       \<lparr>cs_pc = fde_pcStart fde, cs_ptr = instStart, cs_rs = rs0, cs_saved = saved\<rparr>;
     Some (cs_rs s, cs_saved s)
   }"

text \<open>\<^verbatim>\<open>Parse\<close> on a fresh interpreter: the instructions of the CIE, then those of the FDE.\<close>

definition Parse :: "u16 list \<Rightarrow> DfxMemory \<Rightarrow> u64 \<Rightarrow> FrameDescEntry \<Rightarrow> RegLocState \<Rightarrow> RegLocState option" where
  "Parse q m pc fde rs = do {
     let cie = fde_cie fde;
     (rs1, saved) \<leftarrow> Iterate q m pc fde (cie_instructionsOff cie) (cie_instructionsEnd cie)
       (rs\<lparr>rs_returnAddressRegister := ucast (cie_returnAddressRegister cie)\<rparr>) [];
     (rs2, _) \<leftarrow> Iterate q m pc fde (fde_instructionsOff fde) (fde_instructionsEnd fde) rs1 saved;
     Some rs2
   }"

section \<open>Reference semantics\<close>

text \<open>
  Call frame programs as data: their byte encoding, the operands that stay inside the machine
  integers, and their effect on the register rules in unbounded arithmetic.
\<close>

datatype cfa_instr =
    I_nop | I_advance_loc nat | I_advance_loc1 u8 | I_advance_loc2 u16 | I_advance_loc4 u32
  | I_offset nat nat | I_offset_extended nat nat | I_offset_extended_sf nat int
  | I_restore nat | I_restore_extended nat | I_undefined nat | I_same_value nat
  | I_register nat nat | I_remember_state | I_restore_state
  | I_def_cfa nat nat | I_def_cfa_register nat | I_def_cfa_offset nat
  | I_def_cfa_sf nat int | I_def_cfa_offset_sf int
  | I_val_offset nat nat | I_val_offset_sf nat int | I_negative_offset nat nat
  | I_def_cfa_expression "u8 list" | I_expression nat "u8 list" | I_val_expression nat "u8 list"
  | I_negate_ra_state

fun cfa_opcode :: "cfa_instr \<Rightarrow> u8" where
  "cfa_opcode I_nop = DW_CFA_nop"
| "cfa_opcode (I_advance_loc d) = DW_CFA_advance_loc + of_nat d"
| "cfa_opcode (I_advance_loc1 d) = DW_CFA_advance_loc1"
| "cfa_opcode (I_advance_loc2 d) = DW_CFA_advance_loc2"
| "cfa_opcode (I_advance_loc4 d) = DW_CFA_advance_loc4"
| "cfa_opcode (I_offset r n) = DW_CFA_offset + of_nat r"
| "cfa_opcode (I_offset_extended r n) = DW_CFA_offset_extended"
| "cfa_opcode (I_offset_extended_sf r i) = DW_CFA_offset_extended_sf"
| "cfa_opcode (I_restore r) = DW_CFA_restore + of_nat r"
| "cfa_opcode (I_restore_extended r) = DW_CFA_restore_extended"
| "cfa_opcode (I_undefined r) = DW_CFA_undefined"
| "cfa_opcode (I_same_value r) = DW_CFA_same_value"
| "cfa_opcode (I_register r r2) = DW_CFA_register"
| "cfa_opcode I_remember_state = DW_CFA_remember_state"
| "cfa_opcode I_restore_state = DW_CFA_restore_state"
| "cfa_opcode (I_def_cfa r n) = DW_CFA_def_cfa"
| "cfa_opcode (I_def_cfa_register r) = DW_CFA_def_cfa_register"
| "cfa_opcode (I_def_cfa_offset n) = DW_CFA_def_cfa_offset"
| "cfa_opcode (I_def_cfa_sf r i) = DW_CFA_def_cfa_sf"
| "cfa_opcode (I_def_cfa_offset_sf i) = DW_CFA_def_cfa_offset_sf"
| "cfa_opcode (I_val_offset r n) = DW_CFA_val_offset"
| "cfa_opcode (I_val_offset_sf r i) = DW_CFA_val_offset_sf"
| "cfa_opcode (I_negative_offset r n) = DW_CFA_GNU_negative_offset_extended"
| "cfa_opcode (I_def_cfa_expression b) = DW_CFA_def_cfa_expression"
| "cfa_opcode (I_expression r b) = DW_CFA_expression"
| "cfa_opcode (I_val_expression r b) = DW_CFA_val_expression"
| "cfa_opcode I_negate_ra_state = DW_CFA_AARCH64_negate_ra_state"

definition block_enc :: "u8 list \<Rightarrow> u8 list" where
  "block_enc b = uleb_enc (length b) @ b"

fun cfa_operands :: "cfa_instr \<Rightarrow> u8 list" where
  "cfa_operands (I_advance_loc1 d) = [d]"
| "cfa_operands (I_advance_loc2 d) = take 2 (word_bytes (ucast d))"
| "cfa_operands (I_advance_loc4 d) = take 4 (word_bytes (ucast d))"
| "cfa_operands (I_offset r n) = uleb_enc n"
| "cfa_operands (I_offset_extended r n) = uleb_enc r @ uleb_enc n"
| "cfa_operands (I_offset_extended_sf r i) = uleb_enc r @ sleb_enc i"
| "cfa_operands (I_restore_extended r) = uleb_enc r"
| "cfa_operands (I_undefined r) = uleb_enc r"
| "cfa_operands (I_same_value r) = uleb_enc r"
| "cfa_operands (I_register r r2) = uleb_enc r @ uleb_enc r2"
| "cfa_operands (I_def_cfa r n) = uleb_enc r @ uleb_enc n"
| "cfa_operands (I_def_cfa_register r) = uleb_enc r"
| "cfa_operands (I_def_cfa_offset n) = uleb_enc n"
| "cfa_operands (I_def_cfa_sf r i) = uleb_enc r @ sleb_enc i"
| "cfa_operands (I_def_cfa_offset_sf i) = sleb_enc i"
| "cfa_operands (I_val_offset r n) = uleb_enc r @ uleb_enc n"
| "cfa_operands (I_val_offset_sf r i) = uleb_enc r @ sleb_enc i"
| "cfa_operands (I_negative_offset r n) = uleb_enc r @ uleb_enc n"
| "cfa_operands (I_def_cfa_expression b) = block_enc b"
| "cfa_operands (I_expression r b) = uleb_enc r @ block_enc b"
| "cfa_operands (I_val_expression r b) = uleb_enc r @ block_enc b"
| "cfa_operands _ = []"

definition cfa_bytes :: "cfa_instr \<Rightarrow> u8 list" where
  "cfa_bytes i = cfa_opcode i # cfa_operands i"

definition is_s64 :: "int \<Rightarrow> bool" where
  "is_s64 i \<longleftrightarrow> - (2 ^ 63) \<le> i \<and> i < 2 ^ 63"

definition sleb_ok :: "int \<Rightarrow> bool" where
  "sleb_ok i \<longleftrightarrow> - (2 ^ 62) \<le> i \<and> i < 2 ^ 63"

fun wf_cfa :: "CommonInfoEntry \<Rightarrow> cfa_instr \<Rightarrow> bool" where
  "wf_cfa cie (I_advance_loc d) \<longleftrightarrow> d < 64"
| "wf_cfa cie (I_offset r n) \<longleftrightarrow> r < 64 \<and> n < 2 ^ 63 \<and> is_s64 (int n * sint (cie_dataAlignFactor cie))"
| "wf_cfa cie (I_offset_extended r n) \<longleftrightarrow> r < 2 ^ 16 \<and> n < 2 ^ 64"
| "wf_cfa cie (I_offset_extended_sf r i) \<longleftrightarrow> r < 2 ^ 16 \<and> sleb_ok i \<and> is_s64 (i * sint (cie_dataAlignFactor cie))"
| "wf_cfa cie (I_restore r) \<longleftrightarrow> r < 64"
| "wf_cfa cie (I_restore_extended r) \<longleftrightarrow> r < 2 ^ 16"
| "wf_cfa cie (I_undefined r) \<longleftrightarrow> r < 2 ^ 16"
| "wf_cfa cie (I_same_value r) \<longleftrightarrow> r < 2 ^ 16"
| "wf_cfa cie (I_register r r2) \<longleftrightarrow> r < 2 ^ 16 \<and> r2 < 2 ^ 16"
| "wf_cfa cie (I_def_cfa r n) \<longleftrightarrow> r < REG_LAST \<and> n < 2 ^ 64"
| "wf_cfa cie (I_def_cfa_register r) \<longleftrightarrow> r < REG_LAST"
| "wf_cfa cie (I_def_cfa_offset n) \<longleftrightarrow> n < 2 ^ 64"
| "wf_cfa cie (I_def_cfa_sf r i) \<longleftrightarrow> r < REG_LAST \<and> sleb_ok i \<and> is_s64 (i * sint (cie_dataAlignFactor cie))"
| "wf_cfa cie (I_def_cfa_offset_sf i) \<longleftrightarrow> sleb_ok i \<and> is_s64 (i * sint (cie_dataAlignFactor cie))"
| "wf_cfa cie (I_val_offset r n) \<longleftrightarrow> r < 2 ^ 16 \<and> n < 2 ^ 64"
| "wf_cfa cie (I_val_offset_sf r i) \<longleftrightarrow> r < 2 ^ 16 \<and> sleb_ok i \<and> is_s64 (i * int (unat (cie_codeAlignFactor cie)))"
| "wf_cfa cie (I_negative_offset r n) \<longleftrightarrow> r < 2 ^ 16 \<and> n < 2 ^ 63"
| "wf_cfa cie (I_def_cfa_expression b) \<longleftrightarrow> length b < 2 ^ 64"
| "wf_cfa cie (I_expression r b) \<longleftrightarrow> r < 2 ^ 16 \<and> length b < 2 ^ 64"
| "wf_cfa cie (I_val_expression r b) \<longleftrightarrow> r < 2 ^ 16 \<and> length b < 2 ^ 64"
| "wf_cfa cie _ \<longleftrightarrow> True"

definition restore_loc :: "u16 list \<Rightarrow> RegLocState \<Rightarrow> nat \<Rightarrow> RegLocState \<Rightarrow> RegLocState" where
  "restore_loc q backup r rs =
    (case IsQutReg q (of_nat r) of None \<Rightarrow> rs
     | Some i \<Rightarrow> rs\<lparr>rs_locs := (rs_locs rs)[i := rs_locs backup ! i]\<rparr>)"

fun exec_rs :: "u16 list \<Rightarrow> CommonInfoEntry \<Rightarrow> RegLocState \<Rightarrow> u64 \<Rightarrow> cfa_instr \<Rightarrow> RegLocState \<Rightarrow> RegLocState" where
  "exec_rs q cie bk a (I_offset r n) rs =
     set_loc q (of_nat r) REG_LOC_MEM_OFFSET (of_int (int n * sint (cie_dataAlignFactor cie))) rs"
| "exec_rs q cie bk a (I_offset_extended r n) rs =
     set_loc q (of_nat r) REG_LOC_MEM_OFFSET (of_nat (n * unat (cie_codeAlignFactor cie))) rs"
| "exec_rs q cie bk a (I_offset_extended_sf r i) rs =
     set_loc q (of_nat r) REG_LOC_MEM_OFFSET (of_int (i * sint (cie_dataAlignFactor cie))) rs"
| "exec_rs q cie bk a (I_restore r) rs = restore_loc q bk r rs"
| "exec_rs q cie bk a (I_restore_extended r) rs = restore_loc q bk r rs"
| "exec_rs q cie bk a (I_undefined r) rs = upd_loc q (of_nat r) (\<lambda>l. l\<lparr>loc_type := REG_LOC_UNDEFINED\<rparr>)
     (if r = unat (rs_returnAddressRegister rs) then rs\<lparr>rs_returnAddressUndefined := True\<rparr> else rs)"
| "exec_rs q cie bk a (I_same_value r) rs = upd_loc q (of_nat r) (\<lambda>l. l\<lparr>loc_type := REG_LOC_UNUSED\<rparr>)
     (if r = unat (rs_returnAddressRegister rs) then rs\<lparr>rs_returnAddressSame := True\<rparr> else rs)"
| "exec_rs q cie bk a (I_register r r2) rs =
     (if IsQutReg q (of_nat r2) = None then rs else set_loc q (of_nat r) REG_LOC_REGISTER (of_nat r2) rs)"
| "exec_rs q cie bk a (I_def_cfa r n) rs = set_cfaRegOffset (of_nat n) (rs\<lparr>rs_cfaReg := of_nat r\<rparr>)"
| "exec_rs q cie bk a (I_def_cfa_register r) rs = rs\<lparr>rs_cfaReg := of_nat r\<rparr>"
| "exec_rs q cie bk a (I_def_cfa_offset n) rs = set_cfaRegOffset (of_nat n) rs"
| "exec_rs q cie bk a (I_def_cfa_sf r i) rs =
     set_cfaRegOffset (of_int (i * sint (cie_dataAlignFactor cie))) (rs\<lparr>rs_cfaReg := of_nat r\<rparr>)"
| "exec_rs q cie bk a (I_def_cfa_offset_sf i) rs =
     set_cfaRegOffset (of_int (i * sint (cie_dataAlignFactor cie))) rs"
| "exec_rs q cie bk a (I_val_offset r n) rs =
     set_loc q (of_nat r) REG_LOC_VAL_OFFSET (of_nat (n * unat (cie_codeAlignFactor cie))) rs"
| "exec_rs q cie bk a (I_val_offset_sf r i) rs =
     set_loc q (of_nat r) REG_LOC_VAL_OFFSET (of_int (i * int (unat (cie_codeAlignFactor cie)))) rs"
| "exec_rs q cie bk a (I_negative_offset r n) rs =
     set_loc q (of_nat r) REG_LOC_MEM_OFFSET (of_int (- int n)) rs"
| "exec_rs q cie bk a (I_def_cfa_expression b) rs = rs\<lparr>rs_cfaReg := 0, rs_cfaCell := a + 1\<rparr>"
| "exec_rs q cie bk a (I_expression r b) rs =
     set_loc q (of_nat r) REG_LOC_MEM_EXPRESSION (a + 1 + of_nat (length (uleb_enc r))) rs"
| "exec_rs q cie bk a (I_val_expression r b) rs =
     set_loc q (of_nat r) REG_LOC_VAL_EXPRESSION (a + 1 + of_nat (length (uleb_enc r))) rs"
| "exec_rs q cie bk a _ rs = rs"

fun exec_pc :: "CommonInfoEntry \<Rightarrow> cfa_instr \<Rightarrow> u64 \<Rightarrow> u64" where
  "exec_pc cie (I_advance_loc d) pc = pc + ucast (of_nat d * cie_codeAlignFactor cie)"
| "exec_pc cie (I_advance_loc1 d) pc = pc + of_nat (unat d * unat (cie_codeAlignFactor cie))"
| "exec_pc cie (I_advance_loc2 d) pc = pc + of_nat (unat d * unat (cie_codeAlignFactor cie))"
| "exec_pc cie (I_advance_loc4 d) pc = pc + of_nat (unat d * unat (cie_codeAlignFactor cie))"
| "exec_pc cie _ pc = pc"

definition exec_cfa :: "u16 list \<Rightarrow> CommonInfoEntry \<Rightarrow> RegLocState \<Rightarrow> cfa_instr \<Rightarrow> CfaState \<Rightarrow> CfaState" where
  "exec_cfa q cie bk i s =
    (let a = cs_ptr s; s' = s\<lparr>cs_ptr := a + of_nat (length (cfa_bytes i))\<rparr>
     in if i = I_remember_state then s'\<lparr>cs_saved := cs_rs s # cs_saved s\<rparr>
        else if i = I_restore_state then
          (case cs_saved s of [] \<Rightarrow> s' | rs # saved \<Rightarrow> s'\<lparr>cs_rs := rs, cs_saved := saved\<rparr>)
        else s'\<lparr>cs_pc := exec_pc cie i (cs_pc s), cs_rs := exec_rs q cie bk a i (cs_rs s)\<rparr>)"

fun cfa_run :: "u16 list \<Rightarrow> u64 \<Rightarrow> FrameDescEntry \<Rightarrow> RegLocState \<Rightarrow> cfa_instr list \<Rightarrow> CfaState \<Rightarrow> CfaState" where
  "cfa_run q pc fde bk [] s =
    s\<lparr>cs_rs := (cs_rs s)\<lparr>rs_pcEnd := (if pc < cs_pc s then cs_pc s else fde_pcEnd fde)\<rparr>\<rparr>"
| "cfa_run q pc fde bk (i # prog) s =
    (if pc < cs_pc s then s\<lparr>cs_rs := (cs_rs s)\<lparr>rs_pcEnd := cs_pc s\<rparr>\<rparr>
     else cfa_run q pc fde bk prog
       (exec_cfa q (fde_cie fde) bk i (s\<lparr>cs_rs := (cs_rs s)\<lparr>rs_pcStart := cs_pc s\<rparr>\<rparr>)))"

definition cfa_program :: "cfa_instr list \<Rightarrow> u8 list" where
  "cfa_program prog = concat (map cfa_bytes prog)"

definition cfa_table ::
    "u16 list \<Rightarrow> u64 \<Rightarrow> FrameDescEntry \<Rightarrow> cfa_instr list \<Rightarrow> cfa_instr list \<Rightarrow> RegLocState \<Rightarrow> RegLocState" where
  "cfa_table q pc fde cieProg fdeProg rs =
    (let start = fde_pcStart fde;
         rs0 = rs\<lparr>rs_returnAddressRegister := ucast (cie_returnAddressRegister (fde_cie fde)), rs_pcStart := start\<rparr>;
         s1 = cfa_run q pc fde rs0 cieProg
           \<lparr>cs_pc = start, cs_ptr = cie_instructionsOff (fde_cie fde), cs_rs = rs0, cs_saved = []\<rparr>;
         rs1 = (cs_rs s1)\<lparr>rs_pcStart := start\<rparr>;
         s2 = cfa_run q pc fde rs1 fdeProg
           \<lparr>cs_pc = start, cs_ptr = fde_instructionsOff fde, cs_rs = rs1, cs_saved = cs_saved s1\<rparr>
     in cs_rs s2)"

text \<open>
  The loop with a bound on the number of instructions; the outer option is None when the bound is
  used up.
\<close>

fun iterate_fuel ::
    "nat \<Rightarrow> u16 list \<Rightarrow> DfxMemory \<Rightarrow> u64 \<Rightarrow> FrameDescEntry \<Rightarrow> u64 \<Rightarrow> RegLocState \<Rightarrow> CfaState
      \<Rightarrow> CfaState option option" where
  "iterate_fuel 0 q m pc fde instEnd backup s = None"
| "iterate_fuel (Suc n) q m pc fde instEnd backup s =
    (if pc < cs_pc s then Some (Some (s\<lparr>cs_rs := (cs_rs s)\<lparr>rs_pcEnd := cs_pc s\<rparr>\<rparr>))
     else if instEnd \<le> cs_ptr s then Some (Some (s\<lparr>cs_rs := (cs_rs s)\<lparr>rs_pcEnd := fde_pcEnd fde\<rparr>\<rparr>))
     else (case ReadT m (cs_ptr s) 1 True of
       None \<Rightarrow> Some None
     | Some (ok, v, p) \<Rightarrow>
         (let s1 = s\<lparr>cs_rs := (cs_rs s)\<lparr>rs_pcStart := cs_pc s\<rparr>\<rparr>
          in if \<not> ok then Some (Some s1)
             else (case DecodeDwCfa q m (fde_cie fde) backup (ucast v) (s1\<lparr>cs_ptr := p\<rparr>) of
               None \<Rightarrow> Some None
             | Some (cont, s2) \<Rightarrow>
                 if cont then iterate_fuel n q m pc fde instEnd backup s2 else Some (Some s2)))))"

text \<open>
  The invariant of the register rules: one rule per tracked register, also in the saved states, and
  a CFA register inside of the register file.
\<close>

definition rs_ok :: "nat \<Rightarrow> RegLocState \<Rightarrow> bool" where
  "rs_ok n rs = (length (rs_locs rs) = n \<and> unat (rs_cfaReg rs) < REG_LAST)"

definition cfa_inv :: "nat \<Rightarrow> CfaState \<Rightarrow> bool" where
  "cfa_inv n s = (rs_ok n (cs_rs s) \<and> list_all (rs_ok n) (cs_saved s))"

text \<open>A function that saves its frame pointer and link register, as a worked example.\<close>

definition sample_bytes :: "u8 list" where
  "sample_bytes = [0x0c, 31, 0, 0x41, 0x0e, 32, 0x9d, 4, 0x9e, 3]"

definition sample_cie_prog :: "cfa_instr list" where
  "sample_cie_prog = [I_def_cfa 31 0]"

definition sample_fde_prog :: "cfa_instr list" where
  "sample_fde_prog = [I_advance_loc 1, I_def_cfa_offset 32, I_offset 29 4, I_offset 30 3]"

definition sample_fde :: FrameDescEntry where
  "sample_fde =
    \<lparr>fde_pcStart = 0x4000, fde_pcEnd = 0x4100, fde_lsda = 0, fde_instructionsOff = 0x1003,
     fde_instructionsEnd = 0x100a, fde_cieAddr = 0, fde_cie =
       \<lparr>cie_codeAlignFactor = 4, cie_dataAlignFactor = - 8, cie_returnAddressRegister = 30,
        cie_hasAugmentationData = True, cie_isSignalFrame = False, cie_segmentSize = 0,
        cie_instructionsOff = 0x1000, cie_instructionsEnd = 0x1003, cie_personality = 0,
        cie_lsdaEncoding = 0xff, cie_pointerEncoding = 0x1b\<rparr>\<rparr>"

lemmas sample_defs = sample_bytes_def sample_cie_prog_def sample_fde_prog_def sample_fde_def

section \<open>Lemmas\<close>

lemma s64_mul:
  assumes "is_s64 x" "is_s64 y" "is_s64 (x * y)"
  shows "smul64 (of_int x) (of_int y) = Some (of_int (x * y))"
  using assms by (simp add: smul64_def s64_def is_s64_def sint_word_ariths signed_of_int signed_take_bit_int_eq_self)

lemma ucast_of_nat_reg: "r < 2 ^ 16 \<Longrightarrow> ucast (of_nat r :: u64) = (of_nat r :: u16)"
  by (simp add: word_unat_eq_iff unsigned_ucast_eq unat_of_nat take_bit_nat_eq_self)

lemma upd_loc_of_nat: "upd_loc q (of_nat r) = (\<lambda>f rs. case IsQutReg q (of_nat r) of
       None \<Rightarrow> rs
     | Some i \<Rightarrow> rs\<lparr>rs_locs := (rs_locs rs)[i := f (rs_locs rs ! i)]\<rparr>)" if "r < 2 ^ 16"
  using that by (auto simp: upd_loc_def ucast_of_nat_reg fun_eq_iff)

lemma bytes_word_take2: "bytes_word (take 2 (word_bytes (ucast (d :: u16)))) = ucast d"
proof (rule bit_word_eqI)
  fix n assume "n < LENGTH(64)"
  show "bit (bytes_word (take 2 (word_bytes (ucast d)))) n = bit (ucast d :: u64) n"
  proof (cases "n < 16")
    case True
    then have "n div 8 < 2" by simp
    then show ?thesis using True by (simp add: bit_bytes_word word_bytes_nth bit_simps)
  next
    case False
    then have "\<not> n div 8 < 2" by simp
    then show ?thesis using False bit_imp_le_length[of d n] by (auto simp: bit_bytes_word bit_simps)
  qed
qed

lemma bytes_word_take4: "bytes_word (take 4 (word_bytes (ucast (d :: u32)))) = ucast d"
proof (rule bit_word_eqI)
  fix n assume "n < LENGTH(64)"
  show "bit (bytes_word (take 4 (word_bytes (ucast d)))) n = bit (ucast d :: u64) n"
  proof (cases "n < 32")
    case True
    then have "n div 8 < 4" by simp
    then show ?thesis using True by (simp add: bit_bytes_word word_bytes_nth bit_simps)
  next
    case False
    then have "\<not> n div 8 < 4" by simp
    then show ?thesis using False bit_imp_le_length[of d n] by (auto simp: bit_bytes_word bit_simps)
  qed
qed

lemma is_s64_sint32: "is_s64 (sint (w :: u32))"
  using sint_greater_eq[of w] sint_less[of w] by (simp add: is_s64_def)

lemma is_s64_uint32: "is_s64 (uint (w :: u32))"
proof -
  have "0 \<le> uint w" "uint w < 2 ^ 32" using unsigned_less[of w, where 'a = int] by simp_all
  then show ?thesis
    unfolding is_s64_def by (intro conjI order_trans[OF _ \<open>0 \<le> uint w\<close>]) simp_all
qed

lemma mul_dataAlign:
  assumes "is_s64 i" "is_s64 (i * sint (w :: u32))"
  shows "smul64 (of_int i) (scast w) = Some (of_int (i * sint w))"
  using s64_mul[OF assms(1) is_s64_sint32[of w] assms(2)] by (simp only: scast_eq)

lemma mul_codeAlign:
  assumes "is_s64 i" "is_s64 (i * uint (w :: u32))"
  shows "smul64 (of_int i) (ucast w) = Some (of_int (i * uint w))"
  using s64_mul[OF assms(1) is_s64_uint32[of w] assms(2)] by (simp only: ucast_eq)

lemma of_nat_codeAlign: "(of_nat n :: u64) * ucast (w :: u32) = of_nat (n * unat w)"
proof -
  have "ucast w = (of_nat (unat w) :: u64)"
    using unsigned_less[of w, where 'a = nat]
    by (simp add: word_unat_eq_iff unsigned_ucast_eq unat_of_nat take_bit_nat_eq_self)
  then show ?thesis by simp
qed

lemma sleb_ok_s64: "sleb_ok i \<Longrightarrow> is_s64 i"
  by (simp add: sleb_ok_def is_s64_def)

lemma sneg64_of_nat: "n < 2 ^ 63 \<Longrightarrow> sneg64 (of_nat n) = Some (of_int (- int n))"
  by (simp add: sneg64_def s64_def signed_of_nat signed_take_bit_int_eq_self)

lemma reg_ge_last: "r < 2 ^ 16 \<Longrightarrow> (of_nat REG_LAST \<le> (of_nat r :: u64)) = (REG_LAST \<le> r)"
  by (simp add: word_le_nat_alt unat_of_nat REG_LAST_def)

lemma ucast_of_nat_u32: "r < 2 ^ 32 \<Longrightarrow> ucast (of_nat r :: u64) = (of_nat r :: u32)"
  by (simp add: word_unat_eq_iff unsigned_ucast_eq unat_of_nat take_bit_nat_eq_self)

lemma of_nat_eq_ra: "r < 2 ^ 16 \<Longrightarrow> ((of_nat r :: u64) = ucast (x :: u16)) = (r = unat x)"
  using unsigned_less[of x, where 'a = nat]
  by (auto simp: word_unat_eq_iff unsigned_ucast_eq unat_of_nat take_bit_nat_eq_self)

lemma cs_ptr_exec_cfa [simp]: "cs_ptr (exec_cfa q cie bk i s) = cs_ptr s + of_nat (length (cfa_bytes i))"
  by (simp add: exec_cfa_def Let_def split: list.split)

lemma u8_and_c0: "(x :: u8) AND 0xc0 = x - take_bit 6 x"
proof -
  have "x AND NOT (mask 6) = x - (x AND mask 6)"
  proof -
    have "(x AND NOT (mask 6)) + (x AND mask 6) = (x AND NOT (mask 6)) OR (x AND mask 6)"
      by (rule disjunctive_add) (auto simp: bit_simps)
    also have "\<dots> = x" by (rule bit_word_eqI) (auto simp: bit_simps)
    finally show ?thesis by (simp add: algebra_simps)
  qed
  moreover have "NOT (mask 6 :: u8) = 0xc0" by (simp add: mask_eq_exp_minus_1)
  ultimately show ?thesis by (simp add: take_bit_eq_mask)
qed

lemma u8_and_3f: "(x :: u8) AND 0x3f = take_bit 6 x"
  by (simp add: take_bit_eq_mask mask_eq_exp_minus_1)

lemma primary_opcode:
  assumes "d < 64" "b \<in> {0x40, 0x80, 0xc0 :: u8}"
  shows "unat (b + of_nat d) = unat b + d" "(b + of_nat d) AND 0x3f = of_nat d" "(b + of_nat d) AND 0xc0 = b"
proof -
  have u: "unat (b + of_nat d) = unat b + d"
    using assms by (auto simp: unat_word_ariths unat_of_nat)
  have "64 dvd unat b" using assms(2) by auto
  then have "(unat b + d) mod 64 = d" using assms(1) by auto
  moreover have "unat (take_bit 6 (b + of_nat d)) = take_bit 6 (unat b + d)"
    by (simp only: unsigned_take_bit_eq u)
  ultimately have t: "take_bit 6 (b + of_nat d) = of_nat d"
    using assms(1) by (simp add: word_unat_eq_iff unat_of_nat take_bit_eq_mod)
  show "unat (b + of_nat d) = unat b + d" by (rule u)
  show "(b + of_nat d) AND 0x3f = of_nat d" by (simp only: u8_and_3f t)
  show "(b + of_nat d) AND 0xc0 = b" by (simp only: u8_and_c0 t add_diff_cancel_right')
qed

lemma DecodeDwCfa_primary:
  assumes "d < 64" "b \<in> {0x40, 0x80, 0xc0 :: u8}"
  shows "DecodeDwCfa q m cie bk (b + of_nat d) s = map_option (Pair True) (cfa_primary_op q m cie bk (b + of_nat d) s)"
proof -
  have "64 \<le> unat (b + of_nat d)" using primary_opcode(1)[OF assms] assms(2) by auto
  note u = this
  have ne: "b + of_nat d \<notin> {0, 0xa, 0xb, 0xc, 0xd, 0xe, 0xf, 0x10, 0x11, 0x12, 0x13, 0x14, 0x15, 0x16, 0x2d, 0x2f}"
    using u by auto
  have le: "\<not> b + of_nat d \<le> 4" "\<not> b + of_nat d \<le> 9"
    using u by (auto simp: word_le_nat_alt)
  show ?thesis using ne le by (simp add: DecodeDwCfa_def Let_def)
qed

lemma ucast_u8_small: "d < 64 \<Longrightarrow> ucast (of_nat d :: u8) = (of_nat d :: u64)"
  "d < 64 \<Longrightarrow> ucast (of_nat d :: u8) = (of_nat d :: u32)"
  "d < 64 \<Longrightarrow> ucast (of_nat d :: u8) = (of_nat d :: u16)"
  by (simp_all add: word_unat_eq_iff unsigned_ucast_eq unat_of_nat take_bit_nat_eq_self)

context mem_view
begin

lemma ReadEncoded_udata1:
  "code_at m byte a (d # r) \<Longrightarrow> ReadEncodedValue m a DW_EH_PE_udata1 = Some (ucast d, a + 1)"
  using read_byte[of a d r]
  by (simp add: ReadEncodedValue_def ReadFormatEncodedValue_def ReadValue_def DW_EH_PE_defs apply_encoding_def)

lemma ReadEncoded_udata2:
  "code_at m byte a (take 2 (word_bytes (ucast (d :: u16))) @ r) \<Longrightarrow>
    ReadEncodedValue m a DW_EH_PE_udata2 = Some (ucast d, a + 2)"
  using read_fixed[of a "take 2 (word_bytes (ucast d))" r]
  by (simp add: ReadEncodedValue_def ReadFormatEncodedValue_def ReadValue_def DW_EH_PE_defs apply_encoding_def
      bytes_word_take2)

lemma ReadEncoded_udata4:
  "code_at m byte a (take 4 (word_bytes (ucast (d :: u32))) @ r) \<Longrightarrow>
    ReadEncodedValue m a DW_EH_PE_udata4 = Some (ucast d, a + 4)"
  using read_fixed[of a "take 4 (word_bytes (ucast d))" r]
  by (simp add: ReadEncodedValue_def ReadFormatEncodedValue_def ReadValue_def DW_EH_PE_defs apply_encoding_def
      bytes_word_take4)

lemma read_block:
  assumes "code_at m byte a (block_enc b @ r)" "length b < 2 ^ 64" "cs_ptr s = a"
  shows "skip_block m s = Some (True, s\<lparr>cs_ptr := a + of_nat (length (block_enc b))\<rparr>)"
proof -
  have c: "code_at m byte a (uleb_enc (length b) @ b @ r)" using assms(1) by (simp add: block_enc_def)
  note c' = code_at_append(2)[OF c]
  have "unat (a + of_nat (length (uleb_enc (length b)))) + length b < 2 ^ 64"
    using c' by (simp add: code_at_def readable_def)
  then show ?thesis
    using read_uleb[OF c assms(2)] assms(2,3)
    by (simp add: skip_block_def add_overflow_def block_enc_def unat_of_nat add.assoc)
qed

lemma read_uleb_uleb:
  assumes "code_at m byte a (uleb_enc x @ uleb_enc y @ r)" "x < 2 ^ 64" "y < 2 ^ 64"
  shows "ReadUleb128 m a = Some (of_nat x, a + of_nat (length (uleb_enc x)))"
    "ReadUleb128 m (a + of_nat (length (uleb_enc x))) =
      Some (of_nat y, a + of_nat (length (uleb_enc x)) + of_nat (length (uleb_enc y)))"
  using read_uleb[OF assms(1,2)] read_uleb[OF code_at_append(2)[OF assms(1)] assms(3)] by simp_all

lemma read_uleb_sleb:
  assumes "code_at m byte a (uleb_enc x @ sleb_enc i @ r)" "x < 2 ^ 64" "sleb_ok i"
  shows "ReadUleb128 m a = Some (of_nat x, a + of_nat (length (uleb_enc x)))"
    "ReadSleb128 m (a + of_nat (length (uleb_enc x))) =
      Some (of_int i, a + of_nat (length (uleb_enc x)) + of_nat (length (sleb_enc i)))"
  using read_uleb[OF assms(1,2)] read_sleb[OF code_at_append(2)[OF assms(1)]] assms(3)
  by (simp_all add: sleb_ok_def)

lemmas exec_simps = exec_cfa_def cfa_bytes_def DecodeDwCfa_def Let_def

lemma decode_advance:
  assumes "code_at m byte (a + 1) (cfa_operands i @ r)" "wf_cfa cie i" "cs_ptr s = a"
    and "i \<in> {I_nop, I_remember_state, I_restore_state, I_negate_ra_state} \<or>
         (\<exists>d. i = I_advance_loc1 d) \<or> (\<exists>d. i = I_advance_loc2 d) \<or> (\<exists>d. i = I_advance_loc4 d)"
  shows "DecodeDwCfa q m cie bk (cfa_opcode i) (s\<lparr>cs_ptr := a + 1\<rparr>) = Some (True, exec_cfa q cie bk i s)"
  using assms(4)
proof (elim disjE exE)
  assume "i \<in> {I_nop, I_remember_state, I_restore_state, I_negate_ra_state}"
  then show ?thesis
    using assms(3)
    by (elim insertE emptyE) (simp_all add: exec_simps cfa_state_op_def split: list.split)
next
  fix d assume "i = I_advance_loc1 d"
  then show ?thesis
    using assms(1,3) ReadEncoded_udata1[of "a + 1" d r]
    by (simp add: exec_simps cfa_loc_op_def add.assoc)
next
  fix d assume "i = I_advance_loc2 d"
  then show ?thesis
    using assms(1,3) ReadEncoded_udata2[of "a + 1" d r]
    by (simp add: exec_simps cfa_loc_op_def add.assoc)
next
  fix d assume "i = I_advance_loc4 d"
  then show ?thesis
    using assms(1,3) ReadEncoded_udata4[of "a + 1" d r]
    by (simp add: exec_simps cfa_loc_op_def add.assoc)
qed

lemma decode_uleb_uleb:
  assumes "code_at m byte (a + 1) (uleb_enc x @ uleb_enc y @ r)" "wf_cfa cie i" "cs_ptr s = a"
    and i: "i \<in> {I_offset_extended x y, I_register x y, I_def_cfa x y, I_val_offset x y, I_negative_offset x y}"
  shows "DecodeDwCfa q m cie bk (cfa_opcode i) (s\<lparr>cs_ptr := a + 1\<rparr>) = Some (True, exec_cfa q cie bk i s)"
proof -
  have x: "x < 2 ^ 16" and y: "y < 2 ^ 64" using i assms(2) by (auto simp: REG_LAST_def)
  have u: "ReadUleb128 m (a + 1) = Some (of_nat x, a + 1 + of_nat (length (uleb_enc x)))"
    "ReadUleb128 m (a + 1 + of_nat (length (uleb_enc x))) =
      Some (of_nat y, a + 1 + of_nat (length (uleb_enc x)) + of_nat (length (uleb_enc y)))"
    using read_uleb_uleb[OF assms(1)] x y by auto
  consider "i = I_offset_extended x y" | "i = I_register x y" | "i = I_def_cfa x y"
    | "i = I_val_offset x y" | "i = I_negative_offset x y" using i by auto
  then show ?thesis
  proof cases
    case 1
    then show ?thesis
      using u assms(3) by (simp add: exec_simps cfa_reg_op_def add.assoc)
  next
    case 2
    then show ?thesis
      using u assms(2,3) by (simp add: exec_simps cfa_reg_op_def ucast_of_nat_reg add.assoc)
  next
    case 3
    then show ?thesis
      using u assms(2,3) x by (simp add: exec_simps cfa_def_op_def reg_ge_last ucast_of_nat_u32 add.assoc)
  next
    case 4
    then show ?thesis
      using u assms(3) by (simp add: exec_simps cfa_offset_op_def map_val_def add.assoc)
  next
    case 5
    then show ?thesis
      using u assms(2,3) by (simp add: exec_simps cfa_offset_op_def sneg64_of_nat add.assoc)
  qed
qed

lemma decode_uleb_sleb:
  assumes "code_at m byte (a + 1) (uleb_enc x @ sleb_enc y @ r)" "wf_cfa cie i" "cs_ptr s = a"
    and i: "i \<in> {I_offset_extended_sf x y, I_def_cfa_sf x y, I_val_offset_sf x y}"
  shows "DecodeDwCfa q m cie bk (cfa_opcode i) (s\<lparr>cs_ptr := a + 1\<rparr>) = Some (True, exec_cfa q cie bk i s)"
proof -
  have x: "x < 2 ^ 16" and y: "sleb_ok y" using i assms(2) by (auto simp: REG_LAST_def)
  have u: "ReadUleb128 m (a + 1) = Some (of_nat x, a + 1 + of_nat (length (uleb_enc x)))"
    "ReadSleb128 m (a + 1 + of_nat (length (uleb_enc x))) =
      Some (of_int y, a + 1 + of_nat (length (uleb_enc x)) + of_nat (length (sleb_enc y)))"
    using read_uleb_sleb[OF assms(1)] x y by auto
  note y' = sleb_ok_s64[OF y]
  consider "i = I_offset_extended_sf x y" | "i = I_def_cfa_sf x y" | "i = I_val_offset_sf x y" using i by auto
  then show ?thesis
  proof cases
    case 1
    then show ?thesis
      using u assms(2,3) mul_dataAlign[OF y'] by (simp add: exec_simps cfa_offset_op_def read_factored_def add.assoc)
  next
    case 2
    then show ?thesis
      using u assms(2,3) x mul_dataAlign[OF y']
      by (simp add: exec_simps cfa_def_op_def read_factored_def reg_ge_last ucast_of_nat_u32 add.assoc)
  next
    case 3
    then show ?thesis
      using u assms(2,3) mul_codeAlign[OF y'] by (simp add: exec_simps cfa_offset_op_def add.assoc)
  qed
qed

lemma decode_uleb1:
  assumes "code_at m byte (a + 1) (uleb_enc x @ r)" "wf_cfa cie i" "cs_ptr s = a"
    and i: "i \<in> {I_restore_extended x, I_undefined x, I_same_value x, I_def_cfa_register x, I_def_cfa_offset x}"
  shows "DecodeDwCfa q m cie bk (cfa_opcode i) (s\<lparr>cs_ptr := a + 1\<rparr>) = Some (True, exec_cfa q cie bk i s)"
proof -
  have x: "x < 2 ^ 64" using i assms(2) by (auto simp: REG_LAST_def)
  note u = read_uleb[OF assms(1) x]
  consider "i = I_restore_extended x" | "i = I_undefined x" | "i = I_same_value x"
    | "i = I_def_cfa_register x" | "i = I_def_cfa_offset x" using i by auto
  then show ?thesis
  proof cases
    case 1
    then show ?thesis
      using u assms(2,3) by (simp add: exec_simps cfa_reg_op_def restore_loc_def ucast_of_nat_reg add.assoc)
  next
    case 2
    then show ?thesis
      using u assms(2,3) by (simp add: exec_simps cfa_reg_op_def of_nat_eq_ra add.assoc)
  next
    case 3
    then show ?thesis
      using u assms(2,3) by (simp add: exec_simps cfa_reg_op_def of_nat_eq_ra add.assoc)
  next
    case 4
    then have "x < 2 ^ 16" using assms(2) by (simp add: REG_LAST_def)
    with 4 show ?thesis
      using u assms(2,3) by (simp add: exec_simps cfa_def_op_def reg_ge_last ucast_of_nat_u32 add.assoc)
  next
    case 5
    then show ?thesis using u assms(3) by (simp add: exec_simps cfa_def_op_def add.assoc)
  qed
qed

lemma decode_sleb1:
  assumes "code_at m byte (a + 1) (sleb_enc x @ r)" "wf_cfa cie (I_def_cfa_offset_sf x)" "cs_ptr s = a"
  shows "DecodeDwCfa q m cie bk (cfa_opcode (I_def_cfa_offset_sf x)) (s\<lparr>cs_ptr := a + 1\<rparr>) =
    Some (True, exec_cfa q cie bk (I_def_cfa_offset_sf x) s)"
proof -
  have x: "sleb_ok x" using assms(2) by simp
  have u: "ReadSleb128 m (a + 1) = Some (of_int x, a + 1 + of_nat (length (sleb_enc x)))"
    using read_sleb[OF assms(1)] x by (simp add: sleb_ok_def)
  show ?thesis
    using u assms(2,3) mul_dataAlign[OF sleb_ok_s64[OF x]]
    by (simp add: exec_simps cfa_def_op_def read_factored_def add.assoc)
qed

lemma decode_def_expr:
  assumes "code_at m byte (a + 1) (block_enc b @ r)" "length b < 2 ^ 64" "cs_ptr s = a"
  shows "DecodeDwCfa q m cie bk (cfa_opcode (I_def_cfa_expression b)) (s\<lparr>cs_ptr := a + 1\<rparr>) =
    Some (True, exec_cfa q cie bk (I_def_cfa_expression b) s)"
  using read_block[OF assms(1,2), of "s\<lparr>cs_ptr := a + 1, cs_rs := (cs_rs s)\<lparr>rs_cfaReg := 0, rs_cfaCell := a + 1\<rparr>\<rparr>"] assms(3)
  by (simp add: exec_simps cfa_expr_op_def add.assoc)

lemma decode_expr:
  assumes c: "code_at m byte (a + 1) (uleb_enc x @ block_enc b @ r)" and "x < 2 ^ 16" "length b < 2 ^ 64" "cs_ptr s = a"
  shows "DecodeDwCfa q m cie bk (cfa_opcode (I_expression x b)) (s\<lparr>cs_ptr := a + 1\<rparr>) =
      Some (True, exec_cfa q cie bk (I_expression x b) s)"
    "DecodeDwCfa q m cie bk (cfa_opcode (I_val_expression x b)) (s\<lparr>cs_ptr := a + 1\<rparr>) =
      Some (True, exec_cfa q cie bk (I_val_expression x b) s)"
proof -
  let ?p = "a + 1 + of_nat (length (uleb_enc x))"
  have u: "ReadUleb128 m (a + 1) = Some (of_nat x, ?p)" using read_uleb[OF c] assms(2) by simp
  have "skip_block m (s\<lparr>cs_ptr := ?p, cs_rs := rs\<rparr>) = Some (True, s\<lparr>cs_ptr := ?p + of_nat (length (block_enc b)), cs_rs := rs\<rparr>)" for rs
    using read_block[OF code_at_append(2)[OF c] assms(3), of "s\<lparr>cs_ptr := ?p, cs_rs := rs\<rparr>"] by simp
  note k = this[simplified add.assoc]
  show "DecodeDwCfa q m cie bk (cfa_opcode (I_expression x b)) (s\<lparr>cs_ptr := a + 1\<rparr>) =
      Some (True, exec_cfa q cie bk (I_expression x b) s)"
    using u k assms(4) by (simp add: exec_simps cfa_expr_op_def add.assoc)
  show "DecodeDwCfa q m cie bk (cfa_opcode (I_val_expression x b)) (s\<lparr>cs_ptr := a + 1\<rparr>) =
      Some (True, exec_cfa q cie bk (I_val_expression x b) s)"
    using u k assms(4) by (simp add: exec_simps cfa_expr_op_def add.assoc)
qed

lemma decode_packed:
  assumes "d < 64" "cs_ptr s = a"
  shows "DecodeDwCfa q m cie bk (cfa_opcode (I_advance_loc d)) (s\<lparr>cs_ptr := a + 1\<rparr>) =
      Some (True, exec_cfa q cie bk (I_advance_loc d) s)"
    "DecodeDwCfa q m cie bk (cfa_opcode (I_restore d)) (s\<lparr>cs_ptr := a + 1\<rparr>) =
      Some (True, exec_cfa q cie bk (I_restore d) s)"
proof -
  note p = DecodeDwCfa_primary[OF assms(1)] and o = primary_opcode(2,3)[OF assms(1)]
  show "DecodeDwCfa q m cie bk (cfa_opcode (I_advance_loc d)) (s\<lparr>cs_ptr := a + 1\<rparr>) =
      Some (True, exec_cfa q cie bk (I_advance_loc d) s)"
    using assms p[of "0x40"] o[of "0x40"]
    by (simp add: cfa_primary_op_def exec_cfa_def cfa_bytes_def Let_def ucast_u8_small)
  show "DecodeDwCfa q m cie bk (cfa_opcode (I_restore d)) (s\<lparr>cs_ptr := a + 1\<rparr>) =
      Some (True, exec_cfa q cie bk (I_restore d) s)"
    using assms p[of "0xc0"] o[of "0xc0"]
    by (simp add: cfa_primary_op_def exec_cfa_def cfa_bytes_def Let_def ucast_u8_small restore_loc_def split: option.split)
qed

lemma decode_offset:
  assumes c: "code_at m byte (a + 1) (uleb_enc n @ r)" and w: "wf_cfa cie (I_offset d n)" and "cs_ptr s = a"
  shows "DecodeDwCfa q m cie bk (cfa_opcode (I_offset d n)) (s\<lparr>cs_ptr := a + 1\<rparr>) =
      Some (True, exec_cfa q cie bk (I_offset d n) s)"
proof -
  have d: "d < 64" and n: "n < 2 ^ 63" using w by auto
  have u: "ReadUleb128 m (a + 1) = Some (of_nat n, a + 1 + of_nat (length (uleb_enc n)))" using read_uleb[OF c] n by simp
  have mul: "smul64 (of_nat n) (scast (cie_dataAlignFactor cie)) = Some (of_int (int n * sint (cie_dataAlignFactor cie)))"
    using mul_dataAlign[of "int n" "cie_dataAlignFactor cie"] w n by (simp add: is_s64_def)
  show ?thesis
    using assms(3) d u mul DecodeDwCfa_primary[OF d, of "0x80"] primary_opcode(2,3)[OF d, of "0x80"]
    by (simp add: cfa_primary_op_def exec_cfa_def cfa_bytes_def Let_def ucast_u8_small add.assoc)
qed

lemma DecodeDwCfa_exec:
  assumes c: "code_at m byte a (cfa_bytes i @ r)" and w: "wf_cfa cie i" and p: "cs_ptr s = a"
  shows "DecodeDwCfa q m cie bk (cfa_opcode i) (s\<lparr>cs_ptr := a + 1\<rparr>) = Some (True, exec_cfa q cie bk i s)"
proof -
  have c': "code_at m byte (a + 1) (cfa_operands i @ r)" using c code_at_Cons(3) by (simp add: cfa_bytes_def)
  show ?thesis
  proof (cases i)
    case (I_offset x y)
    then show ?thesis using decode_offset[of a y r cie x s q bk] c' w p by simp
  next
    case (I_def_cfa_offset_sf x)
    then show ?thesis using decode_sleb1[of a x r cie s q bk] c' w p by simp
  next
    case (I_def_cfa_expression b)
    then show ?thesis using decode_def_expr[of a b r s q cie bk] c' w p by simp
  next
    case (I_expression x b)
    then show ?thesis using decode_expr(1)[of a x b r s q cie bk] c' w p by simp
  next
    case (I_val_expression x b)
    then show ?thesis using decode_expr(2)[of a x b r s q cie bk] c' w p by simp
  qed (use decode_advance[OF c' w p, of q bk] decode_packed[OF _ p] c' w p
      decode_uleb_uleb[of a _ _ r cie i s q bk] decode_uleb_sleb[of a _ _ r cie i s q bk]
      decode_uleb1[of a _ r cie i s q bk] in auto)
qed

lemma iterate_loop_run:
  assumes "code_at m byte (cs_ptr s) (cfa_program prog)" "\<forall>i\<in>set prog. wf_cfa (fde_cie fde) i"
    and "instEnd = cs_ptr s + of_nat (length (cfa_program prog))"
  shows "iterate_loop q m pc fde instEnd bk s = Some (cfa_run q pc fde bk prog s)"
  using assms
proof (induction prog arbitrary: s)
  case Nil
  then show ?case by (simp add: iterate_loop.simps cfa_program_def)
next
  case (Cons i prog)
  let ?a = "cs_ptr s" and ?s1 = "s\<lparr>cs_rs := (cs_rs s)\<lparr>rs_pcStart := cs_pc s\<rparr>\<rparr>"
  let ?s2 = "exec_cfa q (fde_cie fde) bk i ?s1"
  have c: "code_at m byte ?a (cfa_bytes i @ cfa_program prog)" using Cons.prems(1) by (simp add: cfa_program_def)
  have e: "instEnd = ?a + of_nat (length (cfa_bytes i)) + of_nat (length (cfa_program prog))"
    using Cons.prems(3) by (simp add: cfa_program_def add.assoc)
  have "unat instEnd = unat ?a + (length (cfa_bytes i) + length (cfa_program prog))"
    using code_at_end[of m byte ?a "cfa_bytes i @ cfa_program prog" "[]"] c e by (simp add: add.assoc)
  then have lt: "\<not> instEnd \<le> ?a" by (simp add: word_le_nat_alt cfa_bytes_def)
  have rd: "ReadT m ?a (Suc 0) True = Some (True, ucast (cfa_opcode i), ?a + 1)"
    using c by (simp add: cfa_bytes_def read_byte)
  have d: "DecodeDwCfa q m (fde_cie fde) bk (cfa_opcode i) (?s1\<lparr>cs_ptr := ?a + 1\<rparr>) = Some (True, ?s2)"
    using DecodeDwCfa_exec[OF c, of "fde_cie fde" ?s1 q bk] Cons.prems(2) by simp
  have IH: "iterate_loop q m pc fde instEnd bk ?s2 = Some (cfa_run q pc fde bk prog ?s2)"
    using code_at_append(2)[OF c] Cons.prems(2) e by (intro Cons.IH) simp_all
  show ?case
    using lt rd d IH by (simp add: iterate_loop.simps[of q m pc fde instEnd bk s] Let_def)
qed

end

section \<open>Progress of the loop\<close>

lemma iterate_fuel_loop:
  "iterate_fuel n q m pc fde instEnd backup s = Some r \<Longrightarrow> iterate_loop q m pc fde instEnd backup s = r"
proof (induction n arbitrary: s)
  case (Suc n)
  then show ?case
    by (subst iterate_loop.simps)
      (auto simp: Let_def split: if_splits option.splits prod.splits)
qed simp

lemma read_factored_mono: "read_factored m cie p = Some (v, p') \<Longrightarrow> unat p \<le> unat p'"
  using ReadSleb128_mono by (auto simp: read_factored_def bind_eq_Some_conv)

lemma skip_block_mono: "skip_block m s = Some (True, s') \<Longrightarrow> unat (cs_ptr s) \<le> unat (cs_ptr s')"
  using ReadUleb128_mono[of m "cs_ptr s"]
  by (auto simp: skip_block_def add_overflow_def unat_word_ariths bind_eq_Some_conv split: prod.splits)

lemma cfa_loc_op_mono:
  assumes "cfa_loc_op m cie op s = Some s'" "cie_pointerEncoding cie \<noteq> DW_EH_PE_aligned"
  shows "unat (cs_ptr s) \<le> unat (cs_ptr s')"
  using assms by (auto simp: cfa_loc_op_def Let_def bind_eq_Some_conv DW_EH_PE_defs dest!: ReadEncodedValue_mono split: if_splits)

lemma cfa_reg_op_mono: "cfa_reg_op q m cie backup op s = Some s' \<Longrightarrow> unat (cs_ptr s) \<le> unat (cs_ptr s')"
  by (auto simp: cfa_reg_op_def Let_def bind_eq_Some_conv dest!: ReadUleb128_mono split: if_splits)

lemma cfa_def_op_mono:
  assumes "cfa_def_op m cie op s = Some s'"
  shows "unat (cs_ptr s) \<le> unat (cs_ptr s')"
proof (cases "op = DW_CFA_def_cfa_offset \<or> op = DW_CFA_def_cfa_offset_sf")
  case True
  then show ?thesis using assms ReadUleb128_mono read_factored_mono
    by (auto simp: cfa_def_op_def bind_eq_Some_conv split: if_splits)
next
  case False
  then obtain reg p where r: "ReadUleb128 m (cs_ptr s) = Some (reg, p)"
    using assms by (auto simp: cfa_def_op_def Let_def bind_eq_Some_conv)
  have "unat p \<le> unat (cs_ptr s')"
    using assms False r ReadUleb128_mono[of m p] read_factored_mono[of m cie p]
    by (cases "op = DW_CFA_def_cfa_register"; cases "op = DW_CFA_def_cfa")
      (auto simp: cfa_def_op_def Let_def bind_eq_Some_conv)
  then show ?thesis using ReadUleb128_mono[OF r] by simp
qed

lemma cfa_offset_op_mono: "cfa_offset_op q m cie op s = Some s' \<Longrightarrow> unat (cs_ptr s) \<le> unat (cs_ptr s')"
  by (auto simp: cfa_offset_op_def map_val_def Let_def bind_eq_Some_conv
      dest!: ReadUleb128_mono ReadSleb128_mono read_factored_mono split: if_splits)

lemma cfa_expr_op_mono: "cfa_expr_op q m op s = Some (True, s') \<Longrightarrow> unat (cs_ptr s) \<le> unat (cs_ptr s')"
  by (auto simp: cfa_expr_op_def Let_def bind_eq_Some_conv dest!: ReadUleb128_mono skip_block_mono split: if_splits)

lemma cfa_primary_op_mono: "cfa_primary_op q m cie backup op s = Some s' \<Longrightarrow> unat (cs_ptr s) \<le> unat (cs_ptr s')"
  by (auto simp: cfa_primary_op_def Let_def bind_eq_Some_conv dest!: ReadUleb128_mono split: if_splits)

lemma DecodeDwCfa_mono:
  assumes "DecodeDwCfa q m cie backup op s = Some (True, s')" "cie_pointerEncoding cie \<noteq> DW_EH_PE_aligned"
  shows "unat (cs_ptr s) \<le> unat (cs_ptr s')"
  using assms
  by (auto simp: DecodeDwCfa_def Let_def cfa_state_op_def
      dest: cfa_loc_op_mono cfa_reg_op_mono cfa_def_op_mono cfa_offset_op_mono cfa_expr_op_mono cfa_primary_op_mono
      split: if_splits list.splits)

lemma iterate_fuel_enough:
  assumes "cie_pointerEncoding (fde_cie fde) \<noteq> DW_EH_PE_aligned" "unat instEnd - unat (cs_ptr s) < n"
  shows "\<exists>r. iterate_fuel n q m pc fde instEnd backup s = Some r"
  using assms(2)
proof (induction n arbitrary: s)
  case (Suc n)
  show ?case
  proof (cases "iterate_fuel (Suc n) q m pc fde instEnd backup s")
    case None
    then obtain v p s1 s2 where lt: "cs_ptr s < instEnd" and r: "ReadT m (cs_ptr s) 1 True = Some (True, v, p)"
      and d: "DecodeDwCfa q m (fde_cie fde) backup (ucast v) (s1\<lparr>cs_ptr := p\<rparr>) = Some (True, s2)"
      and f: "iterate_fuel n q m pc fde instEnd backup s2 = None"
      by (auto simp: Let_def not_le split: if_splits option.splits prod.splits)
    have "unat (cs_ptr s) < unat (cs_ptr s2)"
      using ReadT_step[OF r] DecodeDwCfa_mono[OF d assms(1)] by simp
    then have "unat instEnd - unat (cs_ptr s2) < n" using Suc.prems lt by (simp add: word_less_nat_alt)
    then show ?thesis using Suc.IH[of s2] f by simp
  qed simp
qed simp

section \<open>The invariant\<close>

lemma length_upd_loc [simp]: "length (rs_locs (upd_loc q reg f rs)) = length (rs_locs rs)"
  by (simp add: upd_loc_def split: option.splits)

lemma length_set_loc [simp]: "length (rs_locs (set_loc q reg t v rs)) = length (rs_locs rs)"
  by (simp add: set_loc_def)

lemma length_set_cfaRegOffset [simp]: "rs_locs (set_cfaRegOffset v rs) = rs_locs rs"
  by (simp add: set_cfaRegOffset_def)

lemma rs_ok_upd [simp]:
  "rs_ok n (upd_loc q reg f rs) = rs_ok n rs" "rs_ok n (set_loc q reg t v rs) = rs_ok n rs"
  "rs_ok n (set_cfaRegOffset v rs) = rs_ok n rs" "rs_ok n (rs\<lparr>rs_pcStart := a\<rparr>) = rs_ok n rs"
  "rs_ok n (rs\<lparr>rs_pcEnd := a\<rparr>) = rs_ok n rs" "rs_ok n (rs\<lparr>rs_returnAddressUndefined := b\<rparr>) = rs_ok n rs"
  "rs_ok n (rs\<lparr>rs_returnAddressSame := b\<rparr>) = rs_ok n rs"
  "rs_ok n (rs\<lparr>rs_returnAddressRegister := c\<rparr>) = rs_ok n rs" "rs_ok n (rs\<lparr>rs_cfaCell := v\<rparr>) = rs_ok n rs"
  by (simp_all add: rs_ok_def set_loc_def set_cfaRegOffset_def upd_loc_def split: option.splits)

lemma rs_ok_cfaReg [simp]:
  "rs_ok n (rs\<lparr>rs_cfaReg := c\<rparr>) = (length (rs_locs rs) = n \<and> unat c < REG_LAST)"
  "rs_ok n (rs\<lparr>rs_locs := ls\<rparr>) = (length ls = n \<and> unat (rs_cfaReg rs) < REG_LAST)"
  by (simp_all add: rs_ok_def)

lemma rs_okD: "rs_ok n rs \<Longrightarrow> length (rs_locs rs) = n" "rs_ok n rs \<Longrightarrow> unat (rs_cfaReg rs) < REG_LAST"
  by (simp_all add: rs_ok_def)

lemma cfa_inv_upd [simp]:
  "cfa_inv n (s\<lparr>cs_ptr := p\<rparr>) = cfa_inv n s" "cfa_inv n (s\<lparr>cs_pc := p\<rparr>) = cfa_inv n s"
  "cfa_inv n (s\<lparr>cs_rs := rs\<rparr>) = (rs_ok n rs \<and> list_all (rs_ok n) (cs_saved s))"
  by (simp_all add: cfa_inv_def)

lemma ucast_lt_REG_LAST: "\<not> of_nat REG_LAST \<le> (reg :: u64) \<Longrightarrow> unat (ucast reg :: u32) < REG_LAST"
  by (simp add: REG_LAST_def word_le_nat_alt unsigned_ucast_eq take_bit_nat_eq_self)

lemma cfa_def_op_inv:
  assumes "cfa_def_op m cie op s = Some s'" "cfa_inv n s"
  shows "cfa_inv n s'"
proof (cases "op = DW_CFA_def_cfa_offset \<or> op = DW_CFA_def_cfa_offset_sf")
  case True
  then show ?thesis using assms
    by (auto simp: cfa_def_op_def cfa_inv_def Let_def bind_eq_Some_conv split: if_splits)
next
  case False
  then obtain reg p where r: "ReadUleb128 m (cs_ptr s) = Some (reg, p)"
    using assms by (auto simp: cfa_def_op_def Let_def bind_eq_Some_conv)
  have "rs_ok n (if of_nat REG_LAST \<le> reg then cs_rs s else (cs_rs s)\<lparr>rs_cfaReg := ucast reg\<rparr>)"
    using assms(2) ucast_lt_REG_LAST[of reg] by (auto simp: cfa_inv_def dest: rs_okD)
  then show ?thesis
    using assms False r
    by (cases "op = DW_CFA_def_cfa_register"; cases "of_nat REG_LAST \<le> reg")
      (auto simp: cfa_def_op_def cfa_inv_def Let_def bind_eq_Some_conv)
qed

lemma cfa_loc_op_inv: "cfa_loc_op m cie op s = Some s' \<Longrightarrow> cfa_inv n s \<Longrightarrow> cfa_inv n s'"
  by (auto simp: cfa_loc_op_def Let_def bind_eq_Some_conv)

lemma cfa_reg_op_inv:
  "cfa_reg_op q m cie backup op s = Some s' \<Longrightarrow> cfa_inv n s \<Longrightarrow> cfa_inv n s'"
  by (auto simp: cfa_reg_op_def cfa_inv_def Let_def bind_eq_Some_conv dest: rs_okD
      split: if_splits option.splits)

lemma cfa_offset_op_inv: "cfa_offset_op q m cie op s = Some s' \<Longrightarrow> cfa_inv n s \<Longrightarrow> cfa_inv n s'"
  by (auto simp: cfa_offset_op_def cfa_inv_def Let_def bind_eq_Some_conv)

lemma cfa_expr_op_inv: "cfa_expr_op q m op s = Some (c, s') \<Longrightarrow> cfa_inv n s \<Longrightarrow> cfa_inv n s'"
  by (auto simp: cfa_expr_op_def skip_block_def add_overflow_def cfa_inv_def Let_def bind_eq_Some_conv
      REG_LAST_def dest: rs_okD split: if_splits)

lemma cfa_primary_op_inv:
  "cfa_primary_op q m cie backup op s = Some s' \<Longrightarrow> cfa_inv n s \<Longrightarrow> cfa_inv n s'"
  by (auto simp: cfa_primary_op_def cfa_inv_def Let_def bind_eq_Some_conv dest: rs_okD
      split: if_splits option.splits)

lemma cfa_state_op_inv: "cfa_inv n s \<Longrightarrow> cfa_inv n (cfa_state_op op s)"
  by (auto simp: cfa_state_op_def cfa_inv_def split: list.splits)

lemma DecodeDwCfa_inv:
  assumes "DecodeDwCfa q m cie backup op s = Some (c, s')" "cfa_inv n s"
  shows "cfa_inv n s'"
  using assms
  by (auto simp: DecodeDwCfa_def Let_def
      dest: cfa_loc_op_inv cfa_reg_op_inv cfa_def_op_inv cfa_offset_op_inv cfa_expr_op_inv cfa_primary_op_inv
      intro: cfa_state_op_inv split: if_splits)

lemma iterate_loop_inv:
  assumes "iterate_loop q m pc fde instEnd backup s = Some s'"
  shows "cfa_inv n s \<longrightarrow> cfa_inv n s'"
  using assms
proof (rule iterate_loop.raw_induct[rotated])
  fix loop q m pc fde instEnd backup s s'
  assume IH: "\<And>q m pc fde instEnd backup s s'. loop q m pc fde instEnd backup s = Some s' \<Longrightarrow> cfa_inv n s \<longrightarrow> cfa_inv n s'"
    and L: "(if pc < cs_pc s then Some (s\<lparr>cs_rs := (cs_rs s)\<lparr>rs_pcEnd := cs_pc s\<rparr>\<rparr>)
     else if instEnd \<le> cs_ptr s then Some (s\<lparr>cs_rs := (cs_rs s)\<lparr>rs_pcEnd := fde_pcEnd fde\<rparr>\<rparr>)
     else Option.bind (ReadT m (cs_ptr s) 1 True) (\<lambda>(ok, v, p).
       let s1 = s\<lparr>cs_rs := (cs_rs s)\<lparr>rs_pcStart := cs_pc s\<rparr>\<rparr>
       in if \<not> ok then Some s1
          else Option.bind (DecodeDwCfa q m (fde_cie fde) backup (ucast v) (s1\<lparr>cs_ptr := p\<rparr>))
            (\<lambda>(cont, s2). if cont then loop q m pc fde instEnd backup s2 else Some s2))) = Some s'"
  show "cfa_inv n s \<longrightarrow> cfa_inv n s'"
  proof
    assume i: "cfa_inv n s"
    then have d: "DecodeDwCfa q m (fde_cie fde) backup op (s\<lparr>cs_rs := (cs_rs s)\<lparr>rs_pcStart := cs_pc s\<rparr>, cs_ptr := p\<rparr>) = Some (c, s2)
      \<Longrightarrow> cfa_inv n s2" for op p c s2
      by (erule_tac DecodeDwCfa_inv) (simp add: cfa_inv_def)
    show "cfa_inv n s'"
    proof (cases "pc < cs_pc s \<or> instEnd \<le> cs_ptr s")
      case True
      then show ?thesis using L i by (auto simp: cfa_inv_def split: if_splits)
    next
      case False
      then obtain ok v p where r: "ReadT m (cs_ptr s) 1 True = Some (ok, v, p)"
        using L by (auto simp: bind_eq_Some_conv)
      show ?thesis
      proof (cases ok)
        case True
        then obtain c s2 where "DecodeDwCfa q m (fde_cie fde) backup (ucast v)
            (s\<lparr>cs_rs := (cs_rs s)\<lparr>rs_pcStart := cs_pc s\<rparr>, cs_ptr := p\<rparr>) = Some (c, s2)"
          and "(if c then loop q m pc fde instEnd backup s2 else Some s2) = Some s'"
          using L r False by (auto simp: bind_eq_Some_conv)
        then show ?thesis using d IH by (auto split: if_splits)
      next
        case ok: False
        then show ?thesis using L r False i by (auto simp: cfa_inv_def)
      qed
    qed
  qed
qed

lemma Iterate_inv:
  assumes "Iterate q m pc fde a e rs saved = Some (rs', saved')" "rs_ok n rs" "list_all (rs_ok n) saved"
  shows "rs_ok n rs' \<and> list_all (rs_ok n) saved'"
  using assms by (auto simp: Iterate_def Let_def bind_eq_Some_conv cfa_inv_def dest!: iterate_loop_inv[where n = n])

lemma Iterate_run:
  assumes "mem_view m byte" "code_at m byte a (cfa_program prog)" "\<forall>i\<in>set prog. wf_cfa (fde_cie fde) i"
    and "e = a + of_nat (length (cfa_program prog))"
  shows "Iterate q m pc fde a e rs saved =
    (let rs0 = rs\<lparr>rs_pcStart := fde_pcStart fde\<rparr>;
         s = cfa_run q pc fde rs0 prog \<lparr>cs_pc = fde_pcStart fde, cs_ptr = a, cs_rs = rs0, cs_saved = saved\<rparr>
     in Some (cs_rs s, cs_saved s))"
  using assms by (simp add: Iterate_def Let_def mem_view.iterate_loop_run)

lemma sample_programs:
  "cfa_program sample_cie_prog = [0x0c, 31, 0]"
  "cfa_program sample_fde_prog = [0x41, 0x0e, 32, 0x9d, 4, 0x9e, 3]"
  by (simp_all add: sample_defs cfa_program_def cfa_bytes_def uleb_enc.simps[of 31] uleb_enc.simps[of 0]
      uleb_enc.simps[of 32] uleb_enc.simps[of 4] uleb_enc.simps[of 3])

lemma sample_ends:
  "cie_instructionsEnd (fde_cie sample_fde) = cie_instructionsOff (fde_cie sample_fde) + of_nat (length (cfa_program sample_cie_prog))"
  "fde_instructionsEnd sample_fde = fde_instructionsOff sample_fde + of_nat (length (cfa_program sample_fde_prog))"
  unfolding sample_programs by (simp_all add: sample_fde_def)

lemma sample_wf:
  "\<forall>i\<in>set sample_cie_prog. wf_cfa (fde_cie sample_fde) i" "\<forall>i\<in>set sample_fde_prog. wf_cfa (fde_cie sample_fde) i"
  by (simp_all add: sample_defs REG_LAST_def is_s64_def)

lemma sample_code:
  assumes "code_at m byte 0x1000 (sample_bytes @ r)"
  shows "code_at m byte (cie_instructionsOff (fde_cie sample_fde)) (cfa_program sample_cie_prog)"
    "code_at m byte (fde_instructionsOff sample_fde) (cfa_program sample_fde_prog)"
proof -
  have "sample_bytes @ r = cfa_program sample_cie_prog @ cfa_program sample_fde_prog @ r"
    unfolding sample_programs by (simp add: sample_bytes_def)
  then have "code_at m byte 0x1000 (cfa_program sample_cie_prog @ cfa_program sample_fde_prog @ r)"
    using assms by (simp only:)
  note k = code_at_append[OF this]
  then show "code_at m byte (cie_instructionsOff (fde_cie sample_fde)) (cfa_program sample_cie_prog)"
    by (simp add: sample_fde_def)
  show "code_at m byte (fde_instructionsOff sample_fde) (cfa_program sample_fde_prog)"
    using code_at_append(1)[OF k(2)] unfolding sample_programs by (simp add: sample_fde_def)
qed

lemma sample_table:
  "cfa_table [] 0x4010 sample_fde sample_cie_prog sample_fde_prog (RegLocState_init 0 5) =
    \<lparr>rs_pcStart = 0x4004, rs_pcEnd = 0x4100, rs_cfaReg = 31, rs_cfaCell = 32,
     rs_returnAddressUndefined = False, rs_returnAddressSame = False, rs_returnAddressRegister = 30,
     rs_locs = [\<lparr>loc_type = REG_LOC_UNUSED, loc_val = 0\<rparr>, \<lparr>loc_type = REG_LOC_MEM_OFFSET, loc_val = - 32\<rparr>,
       \<lparr>loc_type = REG_LOC_UNUSED, loc_val = 0\<rparr>, \<lparr>loc_type = REG_LOC_UNUSED, loc_val = 0\<rparr>,
       \<lparr>loc_type = REG_LOC_MEM_OFFSET, loc_val = - 24\<rparr>]\<rparr>"
  by (simp add: sample_defs cfa_table_def Let_def exec_cfa_def RegLocState_init_def set_cfaRegOffset_def
      set_loc_def upd_loc_def IsQutReg_def GetQutRegs_def QUT_REGS_def)
    (simp add: eval_nat_numeral)

lemma Parse_rs_ok:
  assumes "rs_ok n rs" "Parse q m pc fde rs = Some rs'"
  shows "rs_ok n rs'"
  using assms by (auto simp: Parse_def Let_def bind_eq_Some_conv dest!: Iterate_inv[where n = n])

lemma Parse_programs:
  assumes "mem_view m byte" "cie = fde_cie fde"
    and "code_at m byte (cie_instructionsOff cie) (cfa_program cieProg)"
    and "code_at m byte (fde_instructionsOff fde) (cfa_program fdeProg)"
    and "cie_instructionsEnd cie = cie_instructionsOff cie + of_nat (length (cfa_program cieProg))"
    and "fde_instructionsEnd fde = fde_instructionsOff fde + of_nat (length (cfa_program fdeProg))"
    and "\<forall>i\<in>set cieProg. wf_cfa cie i" "\<forall>i\<in>set fdeProg. wf_cfa cie i"
  shows "Parse q m pc fde rs = Some (cfa_table q pc fde cieProg fdeProg rs)"
  using assms by (simp add: Parse_def cfa_table_def Let_def Iterate_run[of m byte])

lemma sample_rom:
  "code_at (byte_memory (rom 0x1000 sample_bytes)) (rom 0x1000 sample_bytes) 0x1000 (sample_bytes @ [])"
  using code_at_rom[of "0x1000" sample_bytes] by (simp add: sample_bytes_def)

lemmas sample_Parse = Parse_programs[OF bm.mem_view_axioms refl sample_code[OF sample_rom] sample_ends sample_wf,
  of "[]" "0x4010" "RegLocState_init 0 5"]

section \<open>Properties\<close>

text \<open>
  C3. Where the instruction bytes of the CIE and of the FDE encode two well-formed call frame
  programs, Parse returns the rules that the two programs give one after the other: the CIE
  program from the incoming rules, the FDE program from its result, with restore instructions
  returning to the rules at the start of the program, saved states shared between the two, and
  the rows up to the location pc executed.
\<close>

theorem Parse_refines:
  assumes "mem_view m byte" "cie = fde_cie fde"
    and "code_at m byte (cie_instructionsOff cie) (cfa_program cieProg)"
    and "code_at m byte (fde_instructionsOff fde) (cfa_program fdeProg)"
    and "cie_instructionsEnd cie = cie_instructionsOff cie + of_nat (length (cfa_program cieProg))"
    and "fde_instructionsEnd fde = fde_instructionsOff fde + of_nat (length (cfa_program fdeProg))"
    and "\<forall>i\<in>set cieProg. wf_cfa cie i" "\<forall>i\<in>set fdeProg. wf_cfa cie i"
  shows "Parse q m pc fde rs = Some (cfa_table q pc fde cieProg fdeProg rs)"
  using assms by (rule Parse_programs)

theorem Parse_refines_witness:
  "\<exists>rs. Parse [] (byte_memory (rom 0x1000 sample_bytes)) 0x4010 sample_fde (RegLocState_init 0 5) = Some rs
     \<and> rs_cfaReg rs = 31 \<and> get_cfaRegOffset rs = 32 \<and> rs_pcStart rs = 0x4004 \<and> rs_pcEnd rs = 0x4100
     \<and> rs_locs rs ! 1 = \<lparr>loc_type = REG_LOC_MEM_OFFSET, loc_val = - 32\<rparr>
     \<and> rs_locs rs ! 4 = \<lparr>loc_type = REG_LOC_MEM_OFFSET, loc_val = - 24\<rparr>"
  using Parse_refines[OF bm.mem_view_axioms refl sample_code[OF sample_rom] sample_ends sample_wf, of "[]" "0x4010" "RegLocState_init 0 5"]
  by (simp add: sample_table get_cfaRegOffset_def)

text \<open>
  C13. The instruction loop ends: every instruction advances the pointer, unless the CIE asks for
  aligned pointers, so one iteration per byte up to the end of the program, and one more, is
  enough.
\<close>

theorem iterate_loop_terminates:
  assumes "cie_pointerEncoding (fde_cie fde) \<noteq> DW_EH_PE_aligned"
  shows "\<exists>r. iterate_fuel (Suc (unat instEnd - unat (cs_ptr s))) q m pc fde instEnd backup s = Some r
    \<and> iterate_loop q m pc fde instEnd backup s = r"
  using iterate_fuel_enough[OF assms] iterate_fuel_loop by blast

theorem iterate_loop_terminates_witness:
  "\<exists>r. iterate_fuel (Suc 7) [] (byte_memory (\<lambda>_. 0)) 0x4010 sample_fde 0x100a (RegLocState_init 0 5)
      \<lparr>cs_pc = 0x4000, cs_ptr = 0x1003, cs_rs = RegLocState_init 0 5, cs_saved = []\<rparr> = Some r"
  using iterate_loop_terminates[of sample_fde "0x100a"
      "\<lparr>cs_pc = 0x4000, cs_ptr = 0x1003, cs_rs = RegLocState_init 0 5, cs_saved = []\<rparr>" "[]" "byte_memory (\<lambda>_. 0)"
      "0x4010" "RegLocState_init 0 5"]
  by (simp add: sample_fde_def DW_EH_PE_aligned_def del: iterate_fuel.simps)

text \<open>
  C14. Parse keeps one rule per tracked register and a CFA register inside of the register file,
  whatever bytes it reads.
\<close>

theorem Parse_invariant:
  assumes "rs_ok n rs" "Parse q m pc fde rs = Some rs'"
  shows "rs_ok n rs'"
  using assms by (rule Parse_rs_ok)

theorem Parse_invariant_witness:
  "\<exists>rs. Parse [] (byte_memory (rom 0x1000 sample_bytes)) 0x4010 sample_fde (RegLocState_init 0 5) = Some rs \<and> rs_ok 5 rs"
  using Parse_invariant[OF _ sample_Parse, of 5] sample_Parse by (simp add: rs_ok_def RegLocState_init_def REG_LAST_def)

end
