(* ===== verification/Reg_Apply.thy ===== *)
theory Reg_Apply
  imports Cfa_Instr
begin

text \<open>
  \<^verbatim>\<open>DfxInstructions\<close> (\<^verbatim>\<open>src/interfaces/innerkits/unwinder/src/utils/dfx_instructions.cpp\<close>):
  the register rules of a row applied to the register file.  The properties compose the
  interpreter of call frame instructions with the application of its result, up to one complete
  step out of a function that saves its frame pointer and link register.
\<close>

section \<open>One rule\<close>

text \<open>\<^verbatim>\<open>Read<uintptr_t>(location, &val)\<close> into a variable that holds \<open>val\<close>; a short read replaces a prefix.\<close>

definition read_reg :: "DfxMemory \<Rightarrow> u64 \<Rightarrow> u64 \<Rightarrow> u64 option" where
  "read_reg m location val = do {
     (bs, _) \<leftarrow> Read m location 8 False;
     Some (overlay bs val)
   }"

definition Flush ::
    "u16 list \<Rightarrow> DfxMemory option \<Rightarrow> DfxRegs \<Rightarrow> u64 \<Rightarrow> RegLoc \<Rightarrow> u64 \<Rightarrow> (bool \<times> u64) option" where
  "Flush q memory regs cfa loc val =
    (case memory of
       None \<Rightarrow> Some (False, val)
     | Some m \<Rightarrow>
         (case loc_type loc of
            REG_LOC_VAL_OFFSET \<Rightarrow> Some (True, cfa + loc_val loc)
          | REG_LOC_MEM_OFFSET \<Rightarrow> map_option (Pair True) (read_reg m (cfa + loc_val loc) val)
          | REG_LOC_REGISTER \<Rightarrow>
              if of_nat (length regs) \<le> loc_val loc then Some (False, val)
              else map_option (Pair True) (reg_at regs (unat (loc_val loc)))
          | REG_LOC_MEM_EXPRESSION \<Rightarrow> do {
              location \<leftarrow> Eval q m regs cfa (loc_val loc);
              map_option (Pair True) (read_reg m location val)
            }
          | REG_LOC_VAL_EXPRESSION \<Rightarrow> map_option (Pair True) (Eval q m regs cfa (loc_val loc))
          | _ \<Rightarrow> Some (False, val)))"

section \<open>The canonical frame address\<close>

text \<open>The result: success, \<^verbatim>\<open>cfa\<close> (0 before the call) and \<^verbatim>\<open>errCode\<close>.\<close>

definition GetCfa ::
    "u16 list \<Rightarrow> DfxMemory option \<Rightarrow> DfxRegs \<Rightarrow> RegLocState \<Rightarrow> unw_error \<Rightarrow> (bool \<times> u64 \<times> unw_error) option" where
  "GetCfa q memory regs rs errCode =
    (if rs_cfaReg rs \<noteq> 0 then
       (if length regs \<le> unat (rs_cfaReg rs) then Some (False, 0, UNW_ERROR_DWARF_INVALID_CFA)
        else do {
          v \<leftarrow> reg_at regs (unat (rs_cfaReg rs));
          Some (True, v + ucast (get_cfaRegOffset rs), errCode)
        })
     else if rs_cfaCell rs \<noteq> 0 then do {
       (ok, cfa) \<leftarrow> Flush q memory regs 0 \<lparr>loc_type = REG_LOC_VAL_EXPRESSION, loc_val = rs_cfaCell rs\<rparr> 0;
       Some (ok, cfa, errCode)
     }
     else Some (False, 0, errCode))"

section \<open>All rules\<close>

text \<open>
  The loop over \<^verbatim>\<open>rsState.locs\<close> from index \<open>i\<close> on; each rule works on the registers that the
  earlier rules left.
\<close>

fun apply_locs ::
    "u16 list \<Rightarrow> DfxMemory option \<Rightarrow> u64 \<Rightarrow> nat \<Rightarrow> RegLoc list \<Rightarrow> DfxRegs \<Rightarrow> DfxRegs option" where
  "apply_locs q memory cfa i [] regs = Some regs"
| "apply_locs q memory cfa i (loc # locs) regs =
    (if loc_type loc = REG_LOC_UNUSED then apply_locs q memory cfa (Suc i) locs regs
     else do {
       reg \<leftarrow> (if i < length (GetQutRegs q) then Some (unat (GetQutRegs q ! i)) else None);
       val \<leftarrow> reg_at regs reg;
       (_, val') \<leftarrow> Flush q memory regs cfa loc val;
       apply_locs q memory cfa (Suc i) locs (regs[reg := val'])
     })"

definition Apply ::
    "u16 list \<Rightarrow> DfxMemory option \<Rightarrow> DfxRegs \<Rightarrow> RegLocState \<Rightarrow> unw_error
      \<Rightarrow> (bool \<times> DfxRegs \<times> unw_error) option" where
  "Apply q memory regs rs errCode = do {
     (ok, cfa, err) \<leftarrow> GetCfa q memory regs rs errCode;
     if \<not> ok then Some (False, regs, err)
     else do {
       regs1 \<leftarrow> apply_locs q memory cfa 0 (rs_locs rs) regs;
       let regs2 = SetSp regs1 cfa;
       if rs_returnAddressUndefined rs then
         Some (False, SetPc regs2 0, UNW_ERROR_RETURN_ADDRESS_UNDEFINED)
       else if REG_EH \<le> unat (rs_returnAddressRegister rs) \<and> unat (rs_returnAddressRegister rs) < REG_LAST then do {
         pc \<leftarrow> reg_at regs2 (unat (rs_returnAddressRegister rs));
         let regs3 = SetPc regs2 pc;
         if rs_returnAddressSame rs then Some (False, regs3, UNW_ERROR_RETURN_ADDRESS_SAME)
         else Some (True, regs3, err)
       }
       else Some (False, regs2, UNW_ERROR_ILLEGAL_VALUE)
     }
   }"

section \<open>Reference semantics of offset rules\<close>

text \<open>The value a rule gives to a register, and when it can be computed without an expression.\<close>

definition rule_value :: "(u64 \<Rightarrow> u8) \<Rightarrow> u64 \<Rightarrow> RegLoc \<Rightarrow> u64 \<Rightarrow> u64" where
  "rule_value byte cfa loc old =
    (if loc_type loc = REG_LOC_MEM_OFFSET then bytes_word (bytes_at byte (cfa + loc_val loc) 8)
     else if loc_type loc = REG_LOC_VAL_OFFSET then cfa + loc_val loc
     else old)"

definition offset_rule :: "DfxMemory \<Rightarrow> u64 \<Rightarrow> RegLoc \<Rightarrow> bool" where
  "offset_rule m cfa loc =
    (loc_type loc = REG_LOC_UNUSED \<or> loc_type loc = REG_LOC_UNDEFINED \<or> loc_type loc = REG_LOC_VAL_OFFSET \<or>
     loc_type loc = REG_LOC_MEM_OFFSET \<and> readable m (cfa + loc_val loc) 8)"

definition restored :: "u16 list \<Rightarrow> (u64 \<Rightarrow> u8) \<Rightarrow> u64 \<Rightarrow> RegLoc list \<Rightarrow> DfxRegs \<Rightarrow> DfxRegs" where
  "restored q byte cfa locs regs =
    map (\<lambda>r. case IsQutReg q (of_nat r) of
           Some i \<Rightarrow> if i < length locs then rule_value byte cfa (locs ! i) (regs ! r) else regs ! r
         | None \<Rightarrow> regs ! r) [0..<length regs]"

text \<open>
  The call frame program of a function that allocates \<open>n\<close> bytes, with the caller's frame pointer and
  link register at the bottom, and a stack for the worked example.
\<close>

definition prologue :: "nat \<Rightarrow> nat \<Rightarrow> cfa_instr list" where
  "prologue d n = [I_advance_loc d, I_def_cfa_offset n, I_offset 29 (n div 8), I_offset 30 (n div 8 - 1)]"

definition prologue_locs :: "nat \<Rightarrow> RegLoc list" where
  "prologue_locs n =
    [\<lparr>loc_type = REG_LOC_UNUSED, loc_val = 0\<rparr>, \<lparr>loc_type = REG_LOC_MEM_OFFSET, loc_val = - of_nat n\<rparr>,
     \<lparr>loc_type = REG_LOC_UNUSED, loc_val = 0\<rparr>, \<lparr>loc_type = REG_LOC_UNUSED, loc_val = 0\<rparr>,
     \<lparr>loc_type = REG_LOC_MEM_OFFSET, loc_val = 8 - of_nat n\<rparr>]"

definition word_at_addr :: "(u64 \<Rightarrow> u8) \<Rightarrow> u64 \<Rightarrow> u64" where
  "word_at_addr byte a = bytes_word (bytes_at byte a 8)"

definition sample_stack_bytes :: "u8 list" where
  "sample_stack_bytes = [0, 0, 0, 0, 0, 0] @ [0, 0x70, 0, 0, 0, 0, 0, 0] @ [8, 0x50, 0, 0, 0, 0, 0, 0]"

definition sample_stack :: "u64 \<Rightarrow> u8" where
  "sample_stack = rom 0x1000 (sample_bytes @ sample_stack_bytes)"

definition sample_row :: RegLocState where
  "sample_row =
    \<lparr>rs_pcStart = 0, rs_pcEnd = 0, rs_cfaReg = 31, rs_cfaCell = 16,
     rs_returnAddressUndefined = False, rs_returnAddressSame = False, rs_returnAddressRegister = 30,
     rs_locs = [\<lparr>loc_type = REG_LOC_VAL_OFFSET, loc_val = - 8\<rparr>, \<lparr>loc_type = REG_LOC_UNUSED, loc_val = 0\<rparr>,
       \<lparr>loc_type = REG_LOC_UNUSED, loc_val = 0\<rparr>, \<lparr>loc_type = REG_LOC_UNDEFINED, loc_val = 0\<rparr>,
       \<lparr>loc_type = REG_LOC_MEM_OFFSET, loc_val = - 8\<rparr>]\<rparr>"

section \<open>Lemmas\<close>

lemma overlay_full: "length bs = 8 \<Longrightarrow> overlay bs v = bytes_word bs"
  by (simp add: overlay_def)

lemma length_apply_locs: "apply_locs q memory cfa i locs regs = Some regs' \<Longrightarrow> length regs' = length regs"
  by (induction q memory cfa i locs regs rule: apply_locs.induct)
    (auto simp: bind_eq_Some_conv split: if_splits)

context mem_view
begin

lemma read_reg_view:
  "readable m a 8 \<Longrightarrow> read_reg m a v = Some (bytes_word (bytes_at byte a 8))"
  using Read_ok[of a 8 False] by (simp add: read_reg_def overlay_full)

lemma Flush_offset:
  assumes "offset_rule m cfa loc" "loc_type loc \<noteq> REG_LOC_UNUSED"
  shows "\<exists>ok. Flush q (Some m) regs cfa loc val = Some (ok, rule_value byte cfa loc val)"
  using assms read_reg_view by (auto simp: Flush_def offset_rule_def rule_value_def)

lemma apply_locs_offset:
  assumes "\<forall>loc \<in> set locs. offset_rule m cfa loc" "i + length locs \<le> length (GetQutRegs q)"
    and "\<forall>r \<in> set (GetQutRegs q). unat r < length regs" "distinct (GetQutRegs q)"
  shows "\<exists>regs'. apply_locs q (Some m) cfa i locs regs = Some regs' \<and> length regs' = length regs \<and>
    (\<forall>r. r \<notin> unat ` set (GetQutRegs q) \<longrightarrow> regs' ! r = regs ! r) \<and>
    (\<forall>k < length (GetQutRegs q). regs' ! unat (GetQutRegs q ! k) =
      (if i \<le> k \<and> k < i + length locs then rule_value byte cfa (locs ! (k - i)) (regs ! unat (GetQutRegs q ! k))
       else regs ! unat (GetQutRegs q ! k)))"
  using assms
proof (induction locs arbitrary: i regs)
  case (Cons loc locs)
  let ?Q = "GetQutRegs q"
  let ?r = "unat (?Q ! i)"
  let ?v = "rule_value byte cfa loc (regs ! ?r)"
  have i: "i < length ?Q" "?r < length regs" using Cons.prems by (auto simp: Ball_def)
  have step: "apply_locs q (Some m) cfa i (loc # locs) regs = apply_locs q (Some m) cfa (Suc i) locs (regs[?r := ?v])"
  proof (cases "loc_type loc = REG_LOC_UNUSED")
    case True
    then show ?thesis by (simp add: rule_value_def)
  next
    case False
    then show ?thesis
      using Flush_offset[of cfa loc q regs "regs ! ?r"] Cons.prems(1) i by (auto simp: reg_at_def)
  qed
  obtain regs' where r: "apply_locs q (Some m) cfa (Suc i) locs (regs[?r := ?v]) = Some regs'" "length regs' = length regs"
    "\<And>r. r \<notin> unat ` set ?Q \<Longrightarrow> regs' ! r = regs[?r := ?v] ! r"
    "\<And>k. k < length ?Q \<Longrightarrow> regs' ! unat (?Q ! k) =
      (if Suc i \<le> k \<and> k < Suc i + length locs then rule_value byte cfa (locs ! (k - Suc i)) (regs[?r := ?v] ! unat (?Q ! k))
       else regs[?r := ?v] ! unat (?Q ! k))"
    using Cons.IH[of "Suc i" "regs[?r := ?v]"] Cons.prems by auto
  have ne: "k < length ?Q \<Longrightarrow> k \<noteq> i \<Longrightarrow> unat (?Q ! k) \<noteq> ?r" for k
    using Cons.prems(4) i by (simp add: nth_eq_iff_index_eq word_eq_iff_unsigned[symmetric])
  have "regs' ! unat (?Q ! k) =
      (if i \<le> k \<and> k < i + length (loc # locs) then rule_value byte cfa ((loc # locs) ! (k - i)) (regs ! unat (?Q ! k))
       else regs ! unat (?Q ! k))" if k: "k < length ?Q" for k
    using r(4)[OF k] ne[OF k] i by (cases "k = i") (auto simp: nth_Cons' Suc_le_eq)
  moreover have "regs' ! r = regs ! r" if "r \<notin> unat ` set ?Q" for r
    using r(3)[OF that] that i by (metis image_eqI nth_list_update_neq nth_mem)
  ultimately show ?case unfolding step using r(1,2) by blast
qed auto

lemma apply_locs_restored:
  assumes "\<forall>loc \<in> set locs. offset_rule m cfa loc" "length locs = length (GetQutRegs q)"
    and "\<forall>r \<in> set (GetQutRegs q). unat r < length regs" "distinct (GetQutRegs q)" "length regs \<le> 2 ^ 16"
  shows "apply_locs q (Some m) cfa 0 locs regs = Some (restored q byte cfa locs regs)"
proof -
  let ?Q = "GetQutRegs q"
  obtain regs' where r: "apply_locs q (Some m) cfa 0 locs regs = Some regs'" "length regs' = length regs"
    "\<And>r. r \<notin> unat ` set ?Q \<Longrightarrow> regs' ! r = regs ! r"
    "\<And>k. k < length ?Q \<Longrightarrow> regs' ! unat (?Q ! k) = rule_value byte cfa (locs ! k) (regs ! unat (?Q ! k))"
    using apply_locs_offset[of locs cfa 0 q regs] assms by auto
  have "regs' = restored q byte cfa locs regs"
  proof (rule nth_equalityI)
    fix k assume "k < length regs'"
    then have k: "k < length regs" "unat (of_nat k :: u16) = k" using r(2) assms(5) by (auto simp: unat_of_nat)
    show "regs' ! k = restored q byte cfa locs regs ! k"
    proof (cases "IsQutReg q (of_nat k)")
      case None
      then have "k \<notin> unat ` set ?Q" by (auto simp: IsQutReg_None)
      then show ?thesis using r(3) k None by (simp add: restored_def)
    next
      case (Some i)
      note IsQutReg_Some[OF Some]
      then show ?thesis using r(4)[of i] k Some assms(2) by (simp add: restored_def)
    qed
  qed (simp add: r(2) restored_def)
  then show ?thesis using r(1) by simp
qed

end

lemma length_restored [simp]: "length (restored q byte cfa locs regs) = length regs"
  by (simp add: restored_def)

lemma GetCfa_register:
  assumes "rs_cfaReg rs \<noteq> 0" "unat (rs_cfaReg rs) < length regs"
  shows "GetCfa q memory regs rs err = Some (True, regs ! unat (rs_cfaReg rs) + ucast (get_cfaRegOffset rs), err)"
  using assms by (simp add: GetCfa_def reg_at_def)

lemma get_set_cfaRegOffset [simp]: "get_cfaRegOffset (set_cfaRegOffset v rs) = ucast v"
proof -
  have "\<not> bit (push_bit 32 (0xffffffff :: u64)) n" if "n < 32" for n
    using that by (simp only: bit_push_bit_iff) simp
  then have "\<not> bit (0xffffffff00000000 :: u64) n" if "n < 32" for n using that by simp
  then show ?thesis
    unfolding get_cfaRegOffset_def set_cfaRegOffset_def by (intro bit_eqI) (auto simp: bit_simps)
qed

lemma set_cfaRegOffset_cfaReg [simp]: "rs_cfaReg (set_cfaRegOffset v rs) = rs_cfaReg rs"
  by (simp add: set_cfaRegOffset_def)

lemma Apply_offset_rules:
  assumes "mem_view m byte" "length regs = REG_LAST" "rs_ok (length (GetQutRegs q)) rs"
    and "distinct (GetQutRegs q)" "\<forall>r \<in> set (GetQutRegs q). unat r < REG_LAST"
    and "rs_cfaReg rs \<noteq> 0" "cfa = regs ! unat (rs_cfaReg rs) + ucast (get_cfaRegOffset rs)"
    and "\<forall>loc \<in> set (rs_locs rs). offset_rule m cfa loc"
    and "\<not> rs_returnAddressUndefined rs" "\<not> rs_returnAddressSame rs"
    and "ra = unat (rs_returnAddressRegister rs)" "ra < REG_LAST"
    and "regs' = SetSp (restored q byte cfa (rs_locs rs) regs) cfa"
  shows "Apply q (Some m) regs rs err = Some (True, SetPc regs' (regs' ! ra), err)"
proof -
  have "GetCfa q (Some m) regs rs err = Some (True, cfa, err)"
    using assms by (simp add: GetCfa_register rs_ok_def)
  moreover have "apply_locs q (Some m) cfa 0 (rs_locs rs) regs = Some (restored q byte cfa (rs_locs rs) regs)"
    using assms by (intro mem_view.apply_locs_restored) (auto simp: rs_ok_def REG_LAST_def)
  ultimately show ?thesis
    using assms by (simp add: Apply_def Let_def reg_at_def REG_EH_def)
qed

lemma ucast_u32_of_nat: "n < 2 ^ 32 \<Longrightarrow> ucast (of_nat n :: u32) = (of_nat n :: u64)"
  by (simp add: word_unat_eq_iff unsigned_ucast_eq unat_of_nat take_bit_nat_eq_self)

lemma set_cfaRegOffset_fields [simp]:
  "rs_returnAddressUndefined (set_cfaRegOffset v rs) = rs_returnAddressUndefined rs"
  "rs_returnAddressSame (set_cfaRegOffset v rs) = rs_returnAddressSame rs"
  "rs_returnAddressRegister (set_cfaRegOffset v rs) = rs_returnAddressRegister rs"
  by (simp_all add: set_cfaRegOffset_def)

lemma get_cfaRegOffset_upd [simp]:
  "get_cfaRegOffset (rs\<lparr>rs_pcStart := a\<rparr>) = get_cfaRegOffset rs"
  "get_cfaRegOffset (rs\<lparr>rs_pcEnd := a\<rparr>) = get_cfaRegOffset rs"
  "get_cfaRegOffset (rs\<lparr>rs_locs := l\<rparr>) = get_cfaRegOffset rs"
  by (simp_all add: get_cfaRegOffset_def)

lemma prologue_table:
  assumes "cie_dataAlignFactor (fde_cie fde) = - 8" "cie_returnAddressRegister (fde_cie fde) = 30"
    and "8 dvd n" "16 \<le> n" "n < 2 ^ 31" "fde_pcStart fde \<le> pc"
    and "exec_pc (fde_cie fde) (I_advance_loc d) (fde_pcStart fde) \<le> pc"
    and "rs = cfa_table [] pc fde [I_def_cfa 31 0] (prologue d n) (RegLocState_init junk 5)"
  shows "rs_cfaReg rs = 31" "get_cfaRegOffset rs = of_nat n" "\<not> rs_returnAddressUndefined rs"
    "\<not> rs_returnAddressSame rs" "rs_returnAddressRegister rs = 30"
    "rs_locs rs = prologue_locs n"
proof -
  have n: "of_nat (n div 8) * 8 = (of_nat n :: u64)"
    using \<open>8 dvd n\<close> by (metis dvd_div_mult_self of_nat_mult of_nat_numeral)
  have r: "replicate 5 x = [x, x, x, x, x]" for x :: RegLoc by (simp add: eval_nat_numeral)
  show "rs_cfaReg rs = 31" "get_cfaRegOffset rs = of_nat n" "\<not> rs_returnAddressUndefined rs"
    "\<not> rs_returnAddressSame rs" "rs_returnAddressRegister rs = 30"
    "rs_locs rs = prologue_locs n"
    using assms
    by (simp_all add: prologue_def cfa_table_def Let_def exec_cfa_def RegLocState_init_def linorder_not_less[symmetric]
        set_loc_def upd_loc_def IsQutReg_def GetQutRegs_def QUT_REGS_def prologue_locs_def ucast_of_nat_u32 n r)
qed

lemma restored_prologue:
  assumes "length regs = REG_LAST" "r < REG_LAST"
  shows "restored [] byte (sp + of_nat n) (prologue_locs n) regs ! r =
    (if r = REG_FP then word_at_addr byte sp else if r = REG_LR then word_at_addr byte (sp + 8) else regs ! r)"
proof -
  have inj: "(of_nat r :: u16) = of_nat k \<longleftrightarrow> r = k" if "k < 35" for k
    using that assms(2) by (simp add: REG_LAST_def of_nat_eq_iff word_of_nat_eq_iff take_bit_nat_eq_self)
  show ?thesis
    using assms inj[of 0] inj[of 29] inj[of 30] inj[of 31] inj[of 32]
    by (auto simp: restored_def IsQutReg_def GetQutRegs_def QUT_REGS_def rule_value_def word_at_addr_def prologue_locs_def REG_defs)
qed

lemma length_prologue: "sz < 2 ^ 31 \<Longrightarrow> length (cfa_program (prologue d sz)) \<le> 20"
proof -
  assume "sz < 2 ^ 31"
  then have "length (uleb_enc sz) \<le> Suc 4" "length (uleb_enc (sz div 8)) \<le> Suc 4" "length (uleb_enc (sz div 8 - 1)) \<le> Suc 4"
    using div_le_dividend[of sz 8] by - (rule length_uleb_enc, simp)+
  then show ?thesis by (simp add: prologue_def cfa_program_def cfa_bytes_def)
qed

lemma prologue_apply:
  assumes "rs = cfa_table [] pc fde [I_def_cfa 31 0] (prologue d n) (RegLocState_init junk 5)"
    and "mem_view m byte" "length regs = REG_LAST" "cie_dataAlignFactor (fde_cie fde) = - 8"
    and "cie_returnAddressRegister (fde_cie fde) = 30" "8 dvd n" "16 \<le> n" "n < 2 ^ 31" "fde_pcStart fde \<le> pc"
    and "exec_pc (fde_cie fde) (I_advance_loc d) (fde_pcStart fde) \<le> pc"
    and "sp = regs ! REG_SP" "readable m sp 8" "readable m (sp + 8) 8"
  shows "\<exists>regs'. Apply [] (Some m) regs rs UNW_ERROR_NONE = Some (True, regs', UNW_ERROR_NONE)
    \<and> regs' ! REG_SP = sp + of_nat n \<and> regs' ! REG_FP = word_at_addr byte sp
    \<and> regs' ! REG_LR = word_at_addr byte (sp + 8) \<and> regs' ! REG_PC = word_at_addr byte (sp + 8)
    \<and> (\<forall>r < REG_LAST. r \<notin> {REG_SP, REG_FP, REG_LR, REG_PC} \<longrightarrow> regs' ! r = regs ! r)"
proof -
  have t: "rs_cfaReg rs = 31" "get_cfaRegOffset rs = of_nat n" "\<not> rs_returnAddressUndefined rs"
    "\<not> rs_returnAddressSame rs" "rs_returnAddressRegister rs = 30" "rs_locs rs = prologue_locs n"
    using prologue_table[of fde n pc d, OF _ _ _ _ _ _ _ assms(1)] assms(2-) by auto
  define regs2 where "regs2 = SetSp (restored [] byte (sp + of_nat n) (rs_locs rs) regs) (sp + of_nat n)"
  have "ucast (get_cfaRegOffset rs) = (of_nat n :: u64)" using assms(2-) by (simp add: t ucast_u32_of_nat)
  then have A: "Apply [] (Some m) regs rs UNW_ERROR_NONE = Some (True, SetPc regs2 (regs2 ! 30), UNW_ERROR_NONE)"
    unfolding regs2_def using assms(2-)
    by (intro Apply_offset_rules[of m byte])
      (auto simp: t prologue_locs_def rs_ok_def offset_rule_def GetQutRegs_def QUT_REGS_def REG_defs)
  have r: "regs2 ! r = (if r = REG_SP then sp + of_nat n else if r = REG_FP then word_at_addr byte sp
      else if r = REG_LR then word_at_addr byte (sp + 8) else regs ! r)" if "r < REG_LAST" for r
    using that assms(2-) restored_prologue[of regs r byte sp n]
    by (auto simp: regs2_def t SetSp_def nth_list_update REG_defs)
  have l: "length regs2 = REG_LAST" using assms(2-) by (simp add: regs2_def)
  show ?thesis
    by (intro exI conjI, rule A) (use l in \<open>auto simp: SetPc_def nth_list_update r REG_defs\<close>)
qed

section \<open>Properties\<close>

text \<open>
  C8. Applying a row whose CFA is a register plus an offset and whose rules are offset rules over
  readable slots succeeds: every tracked register gets the value of its own rule, the others keep
  theirs, the stack pointer is the CFA and the program counter is the restored return address
  register.
\<close>

theorem Apply_restores:
  assumes "mem_view m byte" "length regs = REG_LAST" "rs_ok (length (GetQutRegs q)) rs"
    and "distinct (GetQutRegs q)" "\<forall>r \<in> set (GetQutRegs q). unat r < REG_LAST"
    and "rs_cfaReg rs \<noteq> 0" "cfa = regs ! unat (rs_cfaReg rs) + ucast (get_cfaRegOffset rs)"
    and "\<forall>loc \<in> set (rs_locs rs). offset_rule m cfa loc"
    and "\<not> rs_returnAddressUndefined rs" "\<not> rs_returnAddressSame rs"
    and "ra = unat (rs_returnAddressRegister rs)" "ra < REG_LAST"
    and "regs' = SetSp (restored q byte cfa (rs_locs rs) regs) cfa"
  shows "Apply q (Some m) regs rs err = Some (True, SetPc regs' (regs' ! ra), err)"
  using assms by (rule Apply_offset_rules)

theorem Apply_restores_witness:
  "\<exists>regs'. Apply [] (Some (byte_memory sample_stack)) (Create[REG_SP := 0x1010]) sample_row UNW_ERROR_NONE =
      Some (True, regs', UNW_ERROR_NONE)
    \<and> regs' ! REG_SP = 0x1020 \<and> regs' ! REG_LR = 0x5008 \<and> regs' ! REG_PC = 0x5008 \<and> regs' ! 0 = 0x1018"
proof -
  have w: "bytes_word (bytes_at sample_stack 0x1018 8) = 0x5008"
    by (simp add: bytes_at_def upt_conv_Cons sample_stack_def rom_def sample_bytes_def sample_stack_bytes_def)
  let ?regs = "Create[REG_SP := 0x1010]"
  have l: "0 < REG_LAST" "30 < REG_LAST" "31 < REG_LAST" "32 < REG_LAST" by (simp_all add: REG_LAST_def)
  have "rs_ok (length (GetQutRegs [])) sample_row" "distinct (GetQutRegs [])" "\<forall>r \<in> set (GetQutRegs []). unat r < REG_LAST"
    "rs_cfaReg sample_row \<noteq> 0" "0x1020 = ?regs ! unat (rs_cfaReg sample_row) + ucast (get_cfaRegOffset sample_row)"
    "\<forall>loc \<in> set (rs_locs sample_row). offset_rule (byte_memory sample_stack) 0x1020 loc"
    "\<not> rs_returnAddressUndefined sample_row" "\<not> rs_returnAddressSame sample_row"
    "30 = unat (rs_returnAddressRegister sample_row)"
    by (simp_all add: sample_row_def rs_ok_def GetQutRegs_def QUT_REGS_def REG_defs Create_def get_cfaRegOffset_def
        offset_rule_def readable_byte_memory)
  note Apply_restores[OF bm.mem_view_axioms _ this l(2) refl, of UNW_ERROR_NONE]
  then show ?thesis
    using l by (simp add: w sample_row_def GetQutRegs_def QUT_REGS_def REG_FP_def REG_LR_def REG_SP_def REG_PC_def
        SetPc_def SetSp_def restored_def IsQutReg_def rule_value_def)
qed

text \<open>
  C17. A CFA offset that is negative, as \<open>DW_CFA_def_cfa_sf\<close> may give, is added as an unsigned
  32-bit number: the computed CFA lies 4 GiB above the one the instruction means.
\<close>

theorem GetCfa_negative_offset:
  assumes "rs_cfaReg rs \<noteq> 0" "unat (rs_cfaReg rs) < length regs" "- (2 ^ 31) \<le> off" "off < 0"
  shows "GetCfa q memory regs (set_cfaRegOffset (of_int off) rs) err =
    Some (True, regs ! unat (rs_cfaReg rs) + of_int off + 2 ^ 32, err)"
proof -
  have "take_bit 32 off = off + 2 ^ 32" using assms mod_add_self2[of off "2 ^ 32"] mod_pos_pos_trivial[of "off + 2 ^ 32" "2 ^ 32"]
    by (simp add: take_bit_eq_mod)
  then have "ucast (ucast (of_int off :: u64) :: u32) = (of_int off + 2 ^ 32 :: u64)"
    by (simp only: ucast_eq uint_word_of_int_eq) (simp add: take_bit_take_bit min_def)
  then show ?thesis
    using assms by (simp add: GetCfa_register add.assoc)
qed

theorem GetCfa_negative_offset_witness:
  "GetCfa [] None (Create[31 := 0x7000]) (set_cfaRegOffset (- 16) ((RegLocState_init 0 5)\<lparr>rs_cfaReg := 31\<rparr>)) UNW_ERROR_NONE =
    Some (True, 0x100006ff0, UNW_ERROR_NONE)"
  using GetCfa_negative_offset[of "(RegLocState_init 0 5)\<lparr>rs_cfaReg := 31\<rparr>" "Create[31 := 0x7000]" "- 16"]
  by (simp add: Create_def REG_LAST_def)

text \<open>
  C2. One complete step. In a function whose CIE defines the CFA as the stack pointer and whose FDE
  says that after the prologue the frame has \<open>n\<close> bytes with the caller's frame pointer and link
  register at its bottom, reading the rules at a pc behind the prologue and applying them gives the
  registers of the caller: the stack pointer above the frame, the two saved words in fp and lr, the
  return address in pc, and every other register as it was.
\<close>

theorem prologue_step:
  assumes "mem_view m byte" "length regs = REG_LAST" "cie = fde_cie fde"
    and "cie_dataAlignFactor cie = - 8" "cie_returnAddressRegister cie = 30"
    and "code_at m byte (cie_instructionsOff cie) (cfa_program [I_def_cfa 31 0])"
    and "code_at m byte (fde_instructionsOff fde) (cfa_program (prologue d n))"
    and "cie_instructionsEnd cie = cie_instructionsOff cie + of_nat (length (cfa_program [I_def_cfa 31 0]))"
    and "fde_instructionsEnd fde = fde_instructionsOff fde + of_nat (length (cfa_program (prologue d n)))"
    and "d < 64" "8 dvd n" "16 \<le> n" "n < 2 ^ 31" "fde_pcStart fde \<le> pc"
    and "exec_pc cie (I_advance_loc d) (fde_pcStart fde) \<le> pc"
    and "sp = regs ! REG_SP" "readable m sp 8" "readable m (sp + 8) 8"
  shows "\<exists>rs regs'. Parse [] m pc fde (RegLocState_init junk 5) = Some rs
    \<and> Apply [] (Some m) regs rs UNW_ERROR_NONE = Some (True, regs', UNW_ERROR_NONE)
    \<and> regs' ! REG_SP = sp + of_nat n \<and> regs' ! REG_FP = word_at_addr byte sp
    \<and> regs' ! REG_LR = word_at_addr byte (sp + 8) \<and> regs' ! REG_PC = word_at_addr byte (sp + 8)
    \<and> (\<forall>r < REG_LAST. r \<notin> {REG_SP, REG_FP, REG_LR, REG_PC} \<longrightarrow> regs' ! r = regs ! r)"
proof -
  have "\<forall>i\<in>set [I_def_cfa 31 0]. wf_cfa cie i" "\<forall>i\<in>set (prologue d n). wf_cfa cie i"
    using assms by (auto simp: prologue_def REG_LAST_def is_s64_def)
  then have "Parse [] m pc fde (RegLocState_init junk 5) =
      Some (cfa_table [] pc fde [I_def_cfa 31 0] (prologue d n) (RegLocState_init junk 5))"
    using assms by (intro Parse_programs) auto
  then show ?thesis using prologue_apply[OF refl assms(1,2)] assms by simp
qed

theorem prologue_step_witness:
  "\<exists>rs regs'. Parse [] (byte_memory sample_stack) 0x4010 sample_fde (RegLocState_init 0 5) = Some rs
    \<and> Apply [] (Some (byte_memory sample_stack)) (Create[REG_SP := 0x1010]) rs UNW_ERROR_NONE = Some (True, regs', UNW_ERROR_NONE)
    \<and> regs' ! REG_SP = 0x1030 \<and> regs' ! REG_FP = 0x7000 \<and> regs' ! REG_PC = 0x5008"
proof -
  have p: "prologue 1 32 = sample_fde_prog" "[I_def_cfa 31 0] = sample_cie_prog"
    by (simp_all add: prologue_def sample_defs)
  have "code_at (byte_memory sample_stack) sample_stack 0x1000 (sample_bytes @ sample_stack_bytes)"
    unfolding sample_stack_def by (rule code_at_rom) (simp add: sample_bytes_def sample_stack_bytes_def)
  note c = sample_code[OF this]
  have w: "word_at_addr sample_stack 0x1010 = 0x7000" "word_at_addr sample_stack 0x1018 = 0x5008"
    by (simp_all add: word_at_addr_def bytes_at_def upt_conv_Cons sample_stack_def rom_def sample_bytes_def sample_stack_bytes_def)
  have sp: "0x1010 = Create[REG_SP := 0x1010] ! REG_SP" by (simp add: Create_def REG_defs)
  show ?thesis
    using prologue_step[of "byte_memory sample_stack" sample_stack "Create[REG_SP := 0x1010]" "fde_cie sample_fde" sample_fde
        1 32 "0x4010" "0x1010" 0, unfolded p, OF bm.mem_view_axioms _ refl _ _ c sample_ends _ _ _ _ _ _ sp]
    by (simp add: w sample_fde_def readable_byte_memory) blast
qed

end
