(* ===== verification/Dwarf_Entry.thy ===== *)
theory Dwarf_Entry
  imports Reg_Apply
begin

text \<open>
  \<^verbatim>\<open>DwarfEntryParser\<close> (\<^verbatim>\<open>src/interfaces/innerkits/unwinder/src/unwind_entry_parser/dwarf_entry_parser.cpp\<close>):
  the search of the frame description entry of a pc, by bisection in the table of \<^verbatim>\<open>.eh_frame_hdr\<close>
  or linearly in \<^verbatim>\<open>.eh_frame\<close>, and the parsing of CIEs and FDEs with their caches.  A variable that
  is read although nothing was stored to it makes the result undefined.
\<close>

section \<open>State\<close>

record UnwindTableInfo =
  uti_startPc :: u64
  uti_endPc :: u64
  uti_gp :: u64
  uti_format :: int
  uti_isLinear :: bool
  uti_namePtr :: u64
  uti_segbase :: u64
  uti_tableLen :: u64
  uti_tableData :: u64

record DwarfEntryParser =
  dp_memory :: "DfxMemory option"
  dp_fdeEntries :: "u64 \<rightharpoonup> FrameDescEntry"
  dp_cieEntries :: "u64 \<rightharpoonup> CommonInfoEntry"
  dp_lastError :: "u64 \<times> unw_error"

definition CommonInfoEntry_init :: CommonInfoEntry where
  "CommonInfoEntry_init =
    \<lparr>cie_codeAlignFactor = 0, cie_dataAlignFactor = 0, cie_returnAddressRegister = 0,
     cie_hasAugmentationData = False, cie_isSignalFrame = False, cie_segmentSize = 0,
     cie_instructionsOff = 0, cie_instructionsEnd = 0, cie_personality = 0,
     cie_lsdaEncoding = 0, cie_pointerEncoding = 0\<rparr>"

definition FrameDescEntry_init :: FrameDescEntry where
  "FrameDescEntry_init =
    \<lparr>fde_pcStart = 0, fde_pcEnd = 0, fde_lsda = 0, fde_instructionsOff = 0, fde_instructionsEnd = 0,
     fde_cieAddr = 0, fde_cie = CommonInfoEntry_init\<rparr>"

definition SetAddrAndCode :: "u64 \<Rightarrow> unw_error \<Rightarrow> DwarfEntryParser \<Rightarrow> DwarfEntryParser" where
  "SetAddrAndCode addr code dp = dp\<lparr>dp_lastError := (addr, code)\<rparr>"

section \<open>Headers\<close>

text \<open>
  \<^verbatim>\<open>Read<uint8_t>(ptr, &v, true)\<close> of a variable without a value, and of one that holds \<open>old\<close>.
\<close>

definition read_uninit :: "DfxMemory \<Rightarrow> u64 \<Rightarrow> nat \<Rightarrow> (u64 \<times> u64) option" where
  "read_uninit m ptr n = do {
     (ok, v, ptr') \<leftarrow> ReadT m ptr n True;
     if ok then Some (v, ptr') else None
   }"

definition read_u8 :: "DfxMemory \<Rightarrow> u64 \<Rightarrow> u8 \<Rightarrow> (u8 \<times> u64) option" where
  "read_u8 m ptr old = do {
     (ok, v, ptr') \<leftarrow> ReadT m ptr 1 True;
     Some (if ok then ucast v else old, ptr')
   }"

text \<open>Where the CIE pointer of a header leads; both magic values are 0.\<close>

definition header_entry :: "u64 \<Rightarrow> u64 \<Rightarrow> u64 \<Rightarrow> u8 \<Rightarrow> FrameDescEntry \<Rightarrow> FrameDescEntry \<times> bool" where
  "header_entry ptr ciePtr instructionsEnd enc fdeInfo =
    (if ciePtr = 0 then
       (fdeInfo\<lparr>fde_cie := (fde_cie fdeInfo)\<lparr>cie_instructionsEnd := instructionsEnd, cie_pointerEncoding := enc\<rparr>\<rparr>, True)
     else (fdeInfo\<lparr>fde_instructionsEnd := instructionsEnd, fde_cieAddr := ptr - ciePtr\<rparr>, False))"

text \<open>The result: the final \<^verbatim>\<open>ptr\<close>, \<^verbatim>\<open>fdeInfo\<close> and \<^verbatim>\<open>isCieEntry\<close>, which is false before every call.\<close>

definition ParseCieOrFdeHeader ::
    "DfxMemory \<Rightarrow> u64 \<Rightarrow> FrameDescEntry \<Rightarrow> (u64 \<times> FrameDescEntry \<times> bool) option" where
  "ParseCieOrFdeHeader m ptr fdeInfo = do {
     (_, value32, p) \<leftarrow> ReadT m ptr 4 True;
     if value32 = 0xffffffff then do {
       (value64, p1) \<leftarrow> read_uninit m p 8;
       (bs, p2) \<leftarrow> Read m p1 8 True;
       let (fde', isCie) = header_entry p2 (overlay bs value64) (p1 + value64) DW_EH_PE_sdata8 fdeInfo;
       Some (p2 + 8, fde', isCie)
     } else do {
       (bs, _) \<leftarrow> Read m p 4 False;
       let (fde', isCie) = header_entry p (overlay bs value32) (p + value32) DW_EH_PE_sdata4 fdeInfo;
       Some (p + 4, fde', isCie)
     }
   }"

section \<open>Common information entries\<close>

definition DW_EH_VERSION :: u64 where "DW_EH_VERSION = 1"
definition maxAugStrLen :: nat where "maxAugStrLen = 64"

text \<open>The loop that collects the augmentation string; \<open>n\<close> characters may still follow.\<close>

fun aug_string :: "nat \<Rightarrow> DfxMemory \<Rightarrow> u64 \<Rightarrow> u64 \<Rightarrow> u8 list \<Rightarrow> (u8 list \<times> u64) option" where
  "aug_string 0 m instructionsEnd ptr augStr = Some (augStr, ptr)"
| "aug_string (Suc n) m instructionsEnd ptr augStr =
    (if instructionsEnd \<noteq> 0 \<and> ptr < instructionsEnd then do {
       (ok, ch, ptr') \<leftarrow> ReadT m ptr 1 True;
       if ok \<and> ch \<noteq> 0 then aug_string n m instructionsEnd ptr' (augStr @ [ucast ch])
       else Some (augStr, ptr')
     }
     else Some (augStr, ptr))"

fun aug_data :: "DfxMemory \<Rightarrow> u8 list \<Rightarrow> u64 \<Rightarrow> CommonInfoEntry \<Rightarrow> CommonInfoEntry option" where
  "aug_data m [] ptr cie = Some cie"
| "aug_data m (c # cs) ptr cie =
    (if c = 0x50 then do {
       (enc, p) \<leftarrow> read_uninit m ptr 1;
       (v, p') \<leftarrow> ReadEncodedValue m p (ucast enc);
       aug_data m cs p' (cie\<lparr>cie_personality := ucast v\<rparr>)
     }
     else if c = 0x4c then do {
       (v, p) \<leftarrow> read_u8 m ptr (cie_lsdaEncoding cie);
       aug_data m cs p (cie\<lparr>cie_lsdaEncoding := v\<rparr>)
     }
     else if c = 0x52 then do {
       (v, p) \<leftarrow> read_u8 m ptr (cie_pointerEncoding cie);
       aug_data m cs p (cie\<lparr>cie_pointerEncoding := v\<rparr>)
     }
     else if c = 0x53 then aug_data m cs ptr (cie\<lparr>cie_isSignalFrame := True\<rparr>)
     else aug_data m cs ptr cie)"

definition ParseAugData :: "DfxMemory \<Rightarrow> u64 \<Rightarrow> CommonInfoEntry \<Rightarrow> u8 list \<Rightarrow> CommonInfoEntry option" where
  "ParseAugData m ptr cie augStr = do {
     (augSize, p) \<leftarrow> ReadUleb128 m ptr;
     aug_data m (drop 1 augStr) p (cie\<lparr>cie_instructionsOff := p + augSize\<rparr>)
   }"

definition FillInCie ::
    "DfxMemory \<Rightarrow> u64 \<Rightarrow> CommonInfoEntry \<Rightarrow> DwarfEntryParser \<Rightarrow> (bool \<times> CommonInfoEntry \<times> DwarfEntryParser) option" where
  "FillInCie m ptr cie dp = do {
     (version, p) \<leftarrow> read_uninit m ptr 1;
     if version \<noteq> DW_EH_VERSION \<and> version \<noteq> 3 \<and> version \<noteq> 4 \<and> version \<noteq> 5 then
       Some (False, cie, SetAddrAndCode p UNW_ERROR_UNSUPPORTED_VERSION dp)
     else do {
       (augStr, p1) \<leftarrow> aug_string maxAugStrLen m (cie_instructionsEnd cie) p [];
       (segSize, p2) \<leftarrow>
         (if version = 4 \<or> version = 5 then read_u8 m (p1 + 1) (cie_segmentSize cie) else Some (0, p1));
       (codeAlign, p3) \<leftarrow> ReadUleb128 m p2;
       (dataAlign, p4) \<leftarrow> ReadSleb128 m p3;
       (ra, p5) \<leftarrow> (if version = DW_EH_VERSION then read_uninit m p4 1 else ReadUleb128 m p4);
       let cie1 = cie\<lparr>cie_segmentSize := segSize, cie_codeAlignFactor := ucast codeAlign,
                      cie_dataAlignFactor := ucast dataAlign, cie_returnAddressRegister := ra\<rparr>;
       if augStr = [] \<or> hd augStr \<noteq> 0x7a then Some (True, cie1\<lparr>cie_instructionsOff := p5\<rparr>, dp)
       else do {
         cie2 \<leftarrow> ParseAugData m p5 (cie1\<lparr>cie_hasAugmentationData := True\<rparr>) augStr;
         Some (True, cie2, dp)
       }
     }
   }"

definition ParseCie ::
    "DfxMemory \<Rightarrow> u64 \<Rightarrow> u64 \<Rightarrow> CommonInfoEntry \<Rightarrow> DwarfEntryParser \<Rightarrow> (bool \<times> CommonInfoEntry \<times> DwarfEntryParser) option" where
  "ParseCie m cieAddr ciePtr cie dp =
    (case dp_cieEntries dp cieAddr of
       Some c \<Rightarrow> Some (True, c, dp)
     | None \<Rightarrow> do {
         (ok, ptr, cie1) \<leftarrow>
           (if cieAddr = ciePtr then do {
              (p, fdeInfo, isCieEntry) \<leftarrow> ParseCieOrFdeHeader m ciePtr FrameDescEntry_init;
              if isCieEntry then Some (True, p, fde_cie fdeInfo)
              else Some (False, p, cie\<lparr>cie_lsdaEncoding := DW_EH_PE_omit\<rparr>)
            } else Some (True, ciePtr, cie));
         if \<not> ok then Some (False, cie1, dp)
         else do {
           (filled, cie2, dp1) \<leftarrow> FillInCie m ptr cie1 dp;
           if filled then Some (True, cie2, dp1\<lparr>dp_cieEntries := (dp_cieEntries dp1)(cieAddr \<mapsto> cie2)\<rparr>)
           else Some (False, cie2, dp1\<lparr>dp_cieEntries := (dp_cieEntries dp1)(cieAddr := None)\<rparr>)
         }
       })"

section \<open>Frame description entries\<close>

definition FillInFde ::
    "DfxMemory \<Rightarrow> u64 \<Rightarrow> FrameDescEntry \<Rightarrow> DwarfEntryParser \<Rightarrow> (bool \<times> FrameDescEntry \<times> DwarfEntryParser) option" where
  "FillInFde m ptr fde dp = do {
     (ok, cie, dp1) \<leftarrow> ParseCie m (fde_cieAddr fde) (fde_cieAddr fde) (fde_cie fde) dp;
     let fde1 = fde\<lparr>fde_cie := cie\<rparr>;
     if \<not> ok then Some (False, fde1, dp1)
     else do {
       (pcStart, p1) \<leftarrow> ReadEncodedValue m (ptr + ucast (cie_segmentSize cie)) (cie_pointerEncoding cie);
       (pcRange, p2) \<leftarrow> ReadEncodedValue m p1 (cie_pointerEncoding cie AND 0x0f);
       let fde2 = fde1\<lparr>fde_lsda := 0\<rparr>;
       (filled, fde3, p3, dp2) \<leftarrow>
         (if \<not> cie_hasAugmentationData cie then Some (True, fde2, p2, dp1)
          else do {
            (augLen, p) \<leftarrow> ReadUleb128 m p2;
            (case add_overflow p augLen of (ovf, instructionsPtr) \<Rightarrow>
              if ovf \<or> (fde_instructionsEnd fde2 \<noteq> 0 \<and> fde_instructionsEnd fde2 < instructionsPtr) then
                Some (False, fde2, p, SetAddrAndCode p UNW_ERROR_INVALID_MEMORY dp1)
              else if cie_lsdaEncoding cie = DW_EH_PE_omit then Some (True, fde2, instructionsPtr, dp1)
              else do {
                (v, _) \<leftarrow> ReadEncodedValue m p (cie_lsdaEncoding cie AND 0x0f);
                if v = 0 then Some (True, fde2, instructionsPtr, dp1)
                else do {
                  (lsda, _) \<leftarrow> ReadEncodedValue m p (cie_lsdaEncoding cie);
                  Some (True, fde2\<lparr>fde_lsda := lsda\<rparr>, instructionsPtr, dp1)
                }
              })
          });
       if \<not> filled then Some (False, fde3, dp2)
       else Some (True, fde3\<lparr>fde_instructionsOff := p3, fde_pcStart := pcStart, fde_pcEnd := pcStart + pcRange\<rparr>, dp2)
     }
   }"

definition ParseFde ::
    "DfxMemory \<Rightarrow> u64 \<Rightarrow> u64 \<Rightarrow> FrameDescEntry \<Rightarrow> DwarfEntryParser \<Rightarrow> (bool \<times> FrameDescEntry \<times> DwarfEntryParser) option" where
  "ParseFde m fdeAddr fdePtr fde dp =
    (case dp_fdeEntries dp fdeAddr of
       Some f \<Rightarrow> Some (True, f, dp)
     | None \<Rightarrow> do {
         (ptr, fde1, isCieEntry) \<leftarrow>
           (if fdeAddr = fdePtr then ParseCieOrFdeHeader m fdePtr fde else Some (fdePtr, fde, False));
         if isCieEntry then Some (False, fde1, dp)
         else do {
           (filled, fde2, dp1) \<leftarrow> FillInFde m ptr fde1 dp;
           if filled then Some (True, fde2, dp1\<lparr>dp_fdeEntries := (dp_fdeEntries dp1)(fdeAddr \<mapsto> fde2)\<rparr>)
           else Some (False, fde2, dp1\<lparr>dp_fdeEntries := (dp_fdeEntries dp1)(fdeAddr := None)\<rparr>)
         }
       })"

text \<open>\<^verbatim>\<open>GetCieOrFde\<close>: the result, the final \<^verbatim>\<open>addr\<close> and \<^verbatim>\<open>fdeInfo\<close>.\<close>

definition GetCieOrFde ::
    "DfxMemory \<Rightarrow> u64 \<Rightarrow> FrameDescEntry \<Rightarrow> DwarfEntryParser \<Rightarrow> (bool \<times> u64 \<times> FrameDescEntry \<times> DwarfEntryParser) option" where
  "GetCieOrFde m addr fde dp = do {
     (ptr, fde1, isCieEntry) \<leftarrow> ParseCieOrFdeHeader m addr fde;
     if isCieEntry then do {
       (ok, cie, dp1) \<leftarrow> ParseCie m addr ptr (fde_cie fde1) dp;
       Some (ok, if ok then cie_instructionsEnd cie else addr, fde1\<lparr>fde_cie := cie\<rparr>, dp1)
     } else do {
       (ok, fde2, dp1) \<leftarrow> ParseFde m addr ptr fde1 dp;
       Some (ok, if ok then fde_instructionsEnd fde2 else addr, fde2, dp1)
     }
   }"

section \<open>Search\<close>

text \<open>The linear search; \<open>n\<close> is \<^verbatim>\<open>fdeCount - i\<close>.  The result is \<^verbatim>\<open>uei.unwindInfo\<close>.\<close>

fun linear_loop ::
    "nat \<Rightarrow> DfxMemory \<Rightarrow> u64 \<Rightarrow> u64 \<Rightarrow> u64 \<Rightarrow> FrameDescEntry \<Rightarrow> DwarfEntryParser \<Rightarrow> (u64 option \<times> DwarfEntryParser) option" where
  "linear_loop 0 m pc endPc ptr fde dp = Some (None, dp)"
| "linear_loop (Suc n) m pc endPc ptr fde dp =
    (if \<not> ptr < endPc then Some (None, dp)
     else do {
       (ok, ptr', fde', dp1) \<leftarrow> GetCieOrFde m ptr fde dp;
       if \<not> ok then Some (None, dp1)
       else if fde_pcStart fde' \<le> pc \<and> pc < fde_pcEnd fde' then Some (Some ptr, dp1)
       else linear_loop n m pc endPc ptr' fde' dp1
     })"

definition LinearSearchEntry ::
    "DfxMemory \<Rightarrow> u64 \<Rightarrow> UnwindTableInfo \<Rightarrow> DwarfEntryParser \<Rightarrow> (u64 option \<times> DwarfEntryParser) option" where
  "LinearSearchEntry m pc uti dp =
    linear_loop (unat (uti_tableLen uti)) m pc (uti_endPc uti) (uti_tableData uti) FrameDescEntry_init dp"

text \<open>How the bisection ends: a failed read, an entry with this very start, or the bound \<^verbatim>\<open>high\<close>.\<close>

datatype search_end = Search_fail u64 | Search_entry u64 u64 | Search_high u64

partial_function (option) search_loop ::
    "DfxMemory \<Rightarrow> u64 \<Rightarrow> u64 \<Rightarrow> u64 \<Rightarrow> u64 \<Rightarrow> u64 \<Rightarrow> search_end option" where
  "search_loop m tableData segbase pc low high =
    (if \<not> low < high then Some (Search_high high)
     else
       (let cur = (low + high) div 2; ptr = tableData + cur * 8
        in Option.bind (ReadT m ptr 4 True) (\<lambda>(ok, v, p).
          if \<not> ok then Some (Search_fail p)
          else
            (let startPc = sext32 v + segbase
             in if startPc = pc then
                  Option.bind (ReadT m p 4 True) (\<lambda>(ok', v', p').
                    if ok' then Some (Search_entry (sext32 v' + segbase) high) else Some (Search_fail p'))
                else if pc < startPc then search_loop m tableData segbase pc low cur
                else search_loop m tableData segbase pc (cur + 1) high))))"

text \<open>
  The entry below the bound, and the whole search: an entry found by the bisection whose address is
  0 does not count.
\<close>

definition search_last ::
    "DfxMemory \<Rightarrow> UnwindTableInfo \<Rightarrow> u64 \<Rightarrow> DwarfEntryParser \<Rightarrow> (u64 option \<times> DwarfEntryParser) option" where
  "search_last m uti high dp =
    (if high = 0 then Some (None, dp)
     else do {
       (ok, v, p) \<leftarrow> ReadT m (uti_tableData uti + (high - 1) * 8 + 4) 4 True;
       if ok then Some (Some (sext32 v + uti_segbase uti), dp)
       else Some (None, SetAddrAndCode p UNW_ERROR_INVALID_MEMORY dp)
     })"

definition SearchEntry ::
    "DfxMemory \<Rightarrow> u64 \<Rightarrow> UnwindTableInfo \<Rightarrow> DwarfEntryParser \<Rightarrow> (u64 option \<times> DwarfEntryParser) option" where
  "SearchEntry m pc uti dp = do {
     r \<leftarrow> search_loop m (uti_tableData uti) (uti_segbase uti) pc 0 (uti_tableLen uti);
     (case r of
        Search_fail p \<Rightarrow> Some (None, SetAddrAndCode p UNW_ERROR_INVALID_MEMORY dp)
      | Search_entry entry high \<Rightarrow> if entry \<noteq> 0 then Some (Some entry, dp) else search_last m uti high dp
      | Search_high high \<Rightarrow> search_last m uti high dp)
   }"

section \<open>Step\<close>

text \<open>\<^verbatim>\<open>DwarfCfaInstructions::Parse\<close> returns true whenever it returns.\<close>

definition Step ::
    "u16 list \<Rightarrow> u64 \<Rightarrow> UnwindTableInfo \<Rightarrow> RegLocState option \<Rightarrow> DwarfEntryParser
      \<Rightarrow> (bool \<times> RegLocState option \<times> DwarfEntryParser) option" where
  "Step q pc uti rs dp =
    (case dp_memory dp of
       None \<Rightarrow> Some (False, rs, dp)
     | Some m \<Rightarrow>
         (case rs of
            None \<Rightarrow> Some (False, rs, dp)
          | Some r \<Rightarrow> do {
              (entry, dp1) \<leftarrow> (if uti_isLinear uti then LinearSearchEntry m pc uti dp else SearchEntry m pc uti dp);
              (case entry of
                 None \<Rightarrow> Some (False, rs, dp1)
               | Some e \<Rightarrow>
                   (let m' = SetDataOffset m (uti_segbase uti)
                    in do {
                      (ok, fde, dp2) \<leftarrow> ParseFde m' e e FrameDescEntry_init (dp1\<lparr>dp_memory := Some m'\<rparr>);
                      if \<not> ok then Some (False, rs, SetAddrAndCode e UNW_ERROR_DWARF_INVALID_FDE dp2)
                      else if pc < fde_pcStart fde \<or> fde_pcEnd fde \<le> pc then Some (False, rs, dp2)
                      else do {
                        r' \<leftarrow> Parse q m' pc fde r;
                        Some (True, Some r', dp2)
                      }
                    }))
            }))"

section \<open>The table of the binary search\<close>

text \<open>The start and the FDE address of entry \<open>i\<close>.\<close>

definition tab_start :: "(u64 \<Rightarrow> u8) \<Rightarrow> UnwindTableInfo \<Rightarrow> nat \<Rightarrow> u64" where
  "tab_start byte uti i =
    sext32 (bytes_word (bytes_at byte (uti_tableData uti + of_nat (8 * i)) 4)) + uti_segbase uti"

definition tab_fde :: "(u64 \<Rightarrow> u8) \<Rightarrow> UnwindTableInfo \<Rightarrow> nat \<Rightarrow> u64" where
  "tab_fde byte uti i =
    sext32 (bytes_word (bytes_at byte (uti_tableData uti + of_nat (8 * i + 4)) 4)) + uti_segbase uti"

text \<open>
  A table of \<open>n\<close> entries that can be read, with increasing starts and no FDE at address 0, and the
  entry that covers a pc: the last one that starts at or below it.
\<close>

definition table_ok :: "DfxMemory \<Rightarrow> (u64 \<Rightarrow> u8) \<Rightarrow> UnwindTableInfo \<Rightarrow> nat \<Rightarrow> bool" where
  "table_ok m byte uti n =
    (readable m (uti_tableData uti) (8 * n) \<and> n < 2 ^ 60 \<and> uti_tableLen uti = of_nat n \<and>
     (\<forall>j < n. \<forall>i < j. tab_start byte uti i < tab_start byte uti j) \<and> (\<forall>i < n. tab_fde byte uti i \<noteq> 0))"

definition covers :: "(u64 \<Rightarrow> u8) \<Rightarrow> UnwindTableInfo \<Rightarrow> nat \<Rightarrow> u64 \<Rightarrow> nat \<Rightarrow> bool" where
  "covers byte uti n pc k =
    (k < n \<and> tab_start byte uti k \<le> pc \<and> (k + 1 < n \<longrightarrow> pc < tab_start byte uti (k + 1)))"

section \<open>Entries as compilers write them\<close>

text \<open>
  A CIE of version 1 with augmentation \<^verbatim>\<open>zR\<close> and pc-relative 4-byte pointers, an FDE that points
  \<open>delta\<close> bytes back to it, and the two with their length field.
\<close>

definition le32 :: "u32 \<Rightarrow> u8 list" where
  "le32 w = take 4 (word_bytes (ucast w))"

definition cie_body :: "nat \<Rightarrow> int \<Rightarrow> u8 \<Rightarrow> u8 list \<Rightarrow> u8 list" where
  "cie_body ca da ra prog =
    le32 0 @ [1] @ [0x7a, 0x52, 0] @ uleb_enc ca @ sleb_enc da @ [ra] @ [1] @ [0x1b] @ prog"

definition fde_body :: "u32 \<Rightarrow> u32 \<Rightarrow> u32 \<Rightarrow> u8 list \<Rightarrow> u8 list" where
  "fde_body delta start len prog = le32 delta @ le32 start @ le32 len @ [0] @ prog"

definition entry_bytes :: "u8 list \<Rightarrow> u8 list" where
  "entry_bytes body = le32 (of_nat (length body)) @ body"

text \<open>The parsed form of the entries at \<open>a\<close>.\<close>

definition parsed_cie :: "u64 \<Rightarrow> nat \<Rightarrow> int \<Rightarrow> u8 \<Rightarrow> u8 list \<Rightarrow> CommonInfoEntry" where
  "parsed_cie a ca da ra prog =
    \<lparr>cie_codeAlignFactor = of_nat ca, cie_dataAlignFactor = of_int da, cie_returnAddressRegister = ucast ra,
     cie_hasAugmentationData = True, cie_isSignalFrame = False, cie_segmentSize = 0,
     cie_instructionsOff = a + of_nat (length (entry_bytes (cie_body ca da ra []))),
     cie_instructionsEnd = a + of_nat (length (entry_bytes (cie_body ca da ra prog))), cie_personality = 0,
     cie_lsdaEncoding = 0, cie_pointerEncoding = 0x1b\<rparr>"

definition parsed_fde :: "u64 \<Rightarrow> u32 \<Rightarrow> u32 \<Rightarrow> u32 \<Rightarrow> u8 list \<Rightarrow> u64 \<Rightarrow> CommonInfoEntry \<Rightarrow> FrameDescEntry" where
  "parsed_fde f delta start len prog lsda cie =
    \<lparr>fde_pcStart = f + 8 + scast start, fde_pcEnd = f + 8 + scast start + scast len, fde_lsda = lsda,
     fde_instructionsOff = f + 17, fde_instructionsEnd = f + of_nat (length (entry_bytes (fde_body delta start len prog))),
     fde_cieAddr = f + 4 - ucast delta, fde_cie = cie\<rparr>"

text \<open>An image with a search table of one entry, its CIE and FDE, and a stack, as a worked example.\<close>

definition eh_cie :: "u8 list" where
  "eh_cie = entry_bytes (cie_body 4 (- 8) 30 (cfa_program sample_cie_prog))"

definition eh_fde :: "u8 list" where
  "eh_fde = entry_bytes (fde_body 0x18 0x2fdc 0x100 (cfa_program sample_fde_prog))"

definition eh_image :: "u8 list" where
  "eh_image = le32 0x4000 @ le32 0x101c @ eh_cie @ eh_fde @ [0, 0, 0, 0] @ word_bytes 0x7000 @ word_bytes 0x5008"

definition eh_memory :: "u64 \<Rightarrow> u8" where
  "eh_memory = rom 0x1000 eh_image"

definition eh_table :: UnwindTableInfo where
  "eh_table = \<lparr>uti_startPc = 0x4000, uti_endPc = 0x4100, uti_gp = 0, uti_format = 0, uti_isLinear = False,
     uti_namePtr = 0, uti_segbase = 0, uti_tableLen = 1, uti_tableData = 0x1000\<rparr>"

definition eh_parser :: DwarfEntryParser where
  "eh_parser = \<lparr>dp_memory = Some (byte_memory eh_memory), dp_fdeEntries = Map.empty, dp_cieEntries = Map.empty,
     dp_lastError = (0, UNW_ERROR_NONE)\<rparr>"

section \<open>Lemmas\<close>

lemma readable_sub:
  assumes "readable m a n" "i + k \<le> n"
  shows "readable m (a + of_nat i) k"
  using readable_add[of m a i "n - i"] readable_add[of m "a + of_nat i" k "n - i - k"] assms by simp

context mem_view
begin

lemma table_word:
  assumes "readable m a n" "i + 4 \<le> n"
  shows "ReadT m (a + of_nat i) 4 True = Some (True, bytes_word (bytes_at byte (a + of_nat i) 4), a + of_nat i + 4)"
  using Read_ok[OF readable_sub[OF assms], of True] by (simp add: ReadT_def)

lemma search_loop_ok:
  assumes "readable m (uti_tableData uti) (8 * n)" "n < 2 ^ 60"
    and "\<forall>i j. i < j \<and> j < n \<longrightarrow> tab_start byte uti i < tab_start byte uti j"
    and "low \<le> high" "high \<le> n" "\<forall>i < low. tab_start byte uti i < pc" "\<forall>i < n. high \<le> i \<longrightarrow> pc < tab_start byte uti i"
  shows "(\<exists>k < n. \<exists>h. tab_start byte uti k = pc \<and>
      search_loop m (uti_tableData uti) (uti_segbase uti) pc (of_nat low) (of_nat high) =
        Some (Search_entry (tab_fde byte uti k) h)) \<or>
    (\<exists>h \<le> n. (\<forall>i < h. tab_start byte uti i < pc) \<and> (\<forall>i < n. h \<le> i \<longrightarrow> pc < tab_start byte uti i) \<and>
      search_loop m (uti_tableData uti) (uti_segbase uti) pc (of_nat low) (of_nat high) =
        Some (Search_high (of_nat h)))"
  using assms(4-)
proof (induction "high - low" arbitrary: low high rule: less_induct)
  case less
  let ?t = "uti_tableData uti" and ?s = "uti_segbase uti"
  have big: "n < 2 ^ 63" using assms(2) by simp
  have lt: "(of_nat low < (of_nat high :: u64)) = (low < high)"
    using less.prems big by (simp add: word_less_nat_alt unat_of_nat)
  show ?case
  proof (cases "low < high")
    case False
    then have "low = high" using less.prems by simp
    then show ?thesis
      using less.prems lt by (intro disjI2 exI[of _ high]) (simp add: search_loop.simps)
  next
    case True
    define cur where "cur = (low + high) div 2"
    have c: "low \<le> cur" "cur < high" "cur < n" using True less.prems by (auto simp: cur_def)
    have "(of_nat low + of_nat high :: u64) div 2 = of_nat cur"
      using less.prems True big unfolding cur_def
      by (simp add: word_unat_eq_iff unat_div_distrib unat_of_nat unat_word_ariths)
    note step = search_loop.simps[of m ?t ?s pc "of_nat low" "of_nat high", unfolded this Let_def lt]
    have r1: "ReadT m (?t + of_nat cur * 8) 4 True =
        Some (True, bytes_word (bytes_at byte (?t + of_nat (8 * cur)) 4), ?t + of_nat (8 * cur) + 4)"
      using table_word[OF assms(1), of "8 * cur"] c by (simp add: mult.commute)
    have r2: "ReadT m (?t + of_nat (8 * cur) + 4) 4 True =
        Some (True, bytes_word (bytes_at byte (?t + of_nat (8 * cur + 4)) 4), ?t + of_nat (8 * cur + 4) + 4)"
      using table_word[OF assms(1), of "8 * cur + 4"] c by (simp add: add.assoc)
    show ?thesis
    proof (cases "tab_start byte uti cur" pc rule: linorder_cases)
      case equal
      then show ?thesis
        using True c r1 r2 by (intro disjI1 exI[of _ cur]) (simp add: step tab_start_def tab_fde_def)
    next
      case greater
      have "search_loop m ?t ?s pc (of_nat low) (of_nat high) = search_loop m ?t ?s pc (of_nat low) (of_nat cur)"
        using True r1 greater by (auto simp: step tab_start_def)
      moreover have "\<forall>i < n. cur \<le> i \<longrightarrow> pc < tab_start byte uti i"
        using greater order.strict_trans[OF greater] assms(3) by (auto simp: le_less)
      ultimately show ?thesis using less.hyps[of cur low] less.prems c by simp
    next
      case less': less
      have "search_loop m ?t ?s pc (of_nat low) (of_nat high) = search_loop m ?t ?s pc (of_nat (Suc cur)) (of_nat high)"
        using True r1 less' by (auto simp: step tab_start_def add.commute)
      moreover have "\<forall>i < Suc cur. tab_start byte uti i < pc"
        using less' order.strict_trans[OF _ less'] assms(3) c(3) by (auto simp: less_Suc_eq)
      ultimately show ?thesis using less.hyps[of high "Suc cur"] less.prems c by simp
    qed
  qed
qed

lemma search_last_ok:
  assumes "readable m (uti_tableData uti) (8 * n)" "n < 2 ^ 60" "h \<le> n"
  shows "search_last m uti (of_nat h) dp = Some (if h = 0 then None else Some (tab_fde byte uti (h - 1)), dp)"
proof (cases h)
  case (Suc k)
  have "(of_nat h :: u64) \<noteq> 0" using assms Suc by (simp add: word_unat_eq_iff unat_of_nat del: of_nat_Suc)
  moreover have "uti_tableData uti + (of_nat h - 1) * 8 + 4 = uti_tableData uti + of_nat (8 * k + 4)"
    by (simp add: Suc algebra_simps)
  moreover have "8 * k + 4 + 4 \<le> 8 * n" using assms Suc by simp
  ultimately show ?thesis
    using table_word[OF assms(1), of "8 * k + 4"] Suc by (simp only: search_last_def tab_fde_def) simp
qed (simp add: search_last_def)

end

lemma length_le32 [simp]: "length (le32 w) = 4"
  by (simp add: le32_def)

lemma bytes_word_le32 [simp]: "bytes_word (le32 w) = ucast w"
  by (simp add: le32_def bytes_word_take4)

lemma overlay_le32 [simp]: "overlay (le32 w) (ucast (v :: u32)) = ucast w"
proof -
  have nb: "\<not> bit v (32 + k)" for k using bit_imp_le_length[of v "32 + k"] by auto
  have "drop 4 (word_bytes (ucast v)) = replicate 4 0"
    by (rule nth_equalityI) (auto simp: word_bytes_nth intro!: bit_word_eqI simp: bit_simps add.assoc nb)
  then show ?thesis by (simp add: overlay_def)
qed

lemma ucast_u32_u64: "ucast (ucast (w :: u32) :: u64) = w"
  by (rule bit_word_eqI) (simp add: bit_simps)

lemma ucast_of_int_u32: "ucast (of_int i :: u64) = (of_int i :: u32)"
  by (rule bit_word_eqI) (simp add: bit_simps)

lemma Read_total: "\<not> mem_alignAddr m \<Longrightarrow> \<exists>r. Read m a n incre = Some r"
  by (auto simp: Read_def read_head_def Let_def split: option.splits prod.splits)

lemma ReadValue_total: "\<not> mem_alignAddr m \<Longrightarrow> \<exists>r. ReadValue m a n = Some r"
  using Read_total[of m a n True] by (auto simp: ReadValue_def ReadT_def)

context mem_view
begin

lemma read_le32:
  assumes "code_at m byte a (le32 w @ r)"
  shows "ReadT m a 4 True = Some (True, ucast w, a + 4)" "Read m a 4 False = Some (le32 w, a)"
    "code_at m byte (a + 4) r"
  using read_fixed[OF assms] code_at_append[OF assms] Read_ok[of a 4 False] by (auto simp: code_at_def)

lemma header32:
  assumes "code_at m byte a (le32 len @ le32 ptr @ r)" "len \<noteq> 0xffffffff"
  shows "ParseCieOrFdeHeader m a fde =
    (case header_entry (a + 4) (ucast ptr) (a + 4 + ucast len) DW_EH_PE_sdata4 fde of
       (fde', isCie) \<Rightarrow> Some (a + 8, fde', isCie))"
proof -
  have "(ucast len :: u64) \<noteq> 0xffffffff"
    using assms(2) unat_ucast_u32[of len] by (auto simp: word_unat_eq_iff)
  then show ?thesis
    using read_le32[OF assms(1)] read_le32(2)[OF read_le32(3)[OF assms(1)]]
    by (simp add: ParseCieOrFdeHeader_def Let_def add.assoc split: prod.splits)
qed

lemma read_uninit_byte:
  "code_at m byte a (b # r) \<Longrightarrow> read_uninit m a (Suc 0) = Some (ucast b, a + 1)"
  using read_byte by (simp add: read_uninit_def)

lemma read_u8_byte:
  "code_at m byte a (b # r) \<Longrightarrow> read_u8 m a old = Some (b, a + 1)"
  using read_byte by (simp add: read_u8_def)

lemma FillInCie_zR:
  assumes c: "code_at m byte a ([1] @ [0x7a, 0x52, 0] @ uleb_enc ca @ sleb_enc da @ [ra] @ [1] @ [0x1b] @ r)"
    and "ca < 2 ^ 32" "- (2 ^ 31) \<le> da" "da < 2 ^ 31"
    and e: "unat a + 4 \<le> unat (cie_instructionsEnd cie)"
    and i: "instr = a + of_nat (7 + length (uleb_enc ca) + length (sleb_enc da))"
  shows "FillInCie m a cie dp = Some (True, cie\<lparr>cie_segmentSize := 0, cie_codeAlignFactor := of_nat ca,
      cie_dataAlignFactor := of_int da, cie_returnAddressRegister := ucast ra, cie_hasAugmentationData := True,
      cie_instructionsOff := instr, cie_pointerEncoding := 0x1b\<rparr>, dp)"
proof -
  have c0: "code_at m byte a (1 # 0x7a # 0x52 # 0 # uleb_enc ca @ sleb_enc da @ ra # 1 # 0x1b # r)" using c by simp
  note c1 = code_at_Cons(3)[OF c0]
  note c2 = code_at_Cons(3)[OF c1]
  note c3 = code_at_Cons(3)[OF c2]
  note c4 = code_at_Cons(3)[OF c3]
  note c5 = code_at_append(2)[OF c4]
  note c6 = code_at_append(2)[OF c5]
  note c7 = code_at_Cons(3)[OF c6]
  have u: "code_at m byte (a + 1 + 1 + 1 + 1 + of_nat (length (uleb_enc ca)) + of_nat (length (sleb_enc da)) + 1) (uleb_enc 1 @ 0x1b # r)"
    using c7 by (simp add: uleb_enc.simps[of "Suc 0"])
  have lt: "a + 1 < cie_instructionsEnd cie" "a + 1 + 1 < cie_instructionsEnd cie" "a + 1 + 1 + 1 < cie_instructionsEnd cie"
    "cie_instructionsEnd cie \<noteq> 0"
    using e unsigned_less[of "cie_instructionsEnd cie", where 'a = nat]
    by (auto simp: word_less_nat_alt unat_word_ariths)
  have "aug_string (Suc (Suc (Suc 61))) m (cie_instructionsEnd cie) (a + 1) [] = Some ([0x7a, 0x52], a + 1 + 1 + 1 + 1)"
    using lt read_byte[OF c1] read_byte[OF c2] read_byte[OF c3] by (simp only: aug_string.simps) simp
  then have s: "aug_string maxAugStrLen m (cie_instructionsEnd cie) (a + 1) [] = Some ([0x7a, 0x52], a + 1 + 1 + 1 + 1)"
    by (simp only: maxAugStrLen_def) simp
  have "ReadUleb128 m (a + 1 + 1 + 1 + 1) = Some (of_nat ca, a + 1 + 1 + 1 + 1 + of_nat (length (uleb_enc ca)))"
    using read_uleb[OF c4] assms(2) by simp
  moreover note read_sleb[OF c5] read_uninit_byte[OF c0] read_uninit_byte[OF c6] read_uleb[OF u]
    read_u8_byte[OF code_at_append(2)[OF u]]
  ultimately show ?thesis
    using assms(2-4) s
    by (simp add: FillInCie_def ParseAugData_def DW_EH_VERSION_def i ucast_of_int_u32 ucast_of_nat_u32 add.assoc uleb_enc.simps[of "Suc 0"])
qed

lemma ParseCie_zR:
  assumes c: "code_at m byte a (entry_bytes (cie_body ca da ra prog))"
    and "ca < 2 ^ 32" "- (2 ^ 31) \<le> da" "da < 2 ^ 31" "length (cie_body ca da ra prog) < 2 ^ 32 - 1"
    and "dp_cieEntries dp a = None"
  shows "ParseCie m a a cie dp = Some (True, parsed_cie a ca da ra prog,
    dp\<lparr>dp_cieEntries := (dp_cieEntries dp)(a \<mapsto> parsed_cie a ca da ra prog)\<rparr>)"
proof -
  let ?n = "length (cie_body ca da ra prog)"
  have c0: "code_at m byte a (le32 (of_nat ?n) @ le32 0 @
      ([1] @ [0x7a, 0x52, 0] @ uleb_enc ca @ sleb_enc da @ [ra] @ [1] @ [0x1b] @ prog))"
    using c by (simp add: entry_bytes_def cie_body_def)
  have n: "unat (of_nat ?n :: u32) = ?n" using assms(5) by (simp add: unat_of_nat)
  have ne: "(of_nat ?n :: u32) \<noteq> 0xffffffff" using assms(5) n by (auto simp: word_unat_eq_iff)
  have u: "ucast (of_nat ?n :: u32) = (of_nat ?n :: u64)" using assms(5) by (simp add: ucast_u32_of_nat)
  have "unat (a + of_nat (4 + ?n)) = unat a + (4 + ?n)"
    using code_at_end[of m byte a "entry_bytes (cie_body ca da ra prog)" "[]"] c by (simp add: entry_bytes_def)
  then have e: "unat (a + 4 + of_nat ?n) = unat a + (4 + ?n)" by (simp add: add.assoc)
  have "11 \<le> ?n" by (simp add: cie_body_def)
  moreover have "unat (a + 8) = unat a + 8"
    using unat_add_of_nat[of a 8] e unsigned_less[of "a + 4 + of_nat ?n", where 'a = nat] \<open>11 \<le> ?n\<close> by simp
  ultimately have le: "unat (a + 8) + 4 \<le> unat (a + 4 + of_nat ?n)" using e by simp
  have c8: "code_at m byte (a + 8) ([1] @ [0x7a, 0x52, 0] @ uleb_enc ca @ sleb_enc da @ [ra] @ [1] @ [0x1b] @ prog)"
    using read_le32(3)[OF read_le32(3)[OF c0]] by (simp add: add.assoc)
  let ?cie = "CommonInfoEntry_init\<lparr>cie_instructionsEnd := a + 4 + of_nat ?n, cie_pointerEncoding := DW_EH_PE_sdata4\<rparr>"
  have h: "ParseCieOrFdeHeader m a FrameDescEntry_init = Some (a + 8, FrameDescEntry_init\<lparr>fde_cie := ?cie\<rparr>, True)"
    using header32[OF c0 ne] u by (simp add: header_entry_def FrameDescEntry_init_def)
  show ?thesis
    using assms(6) h FillInCie_zR[OF c8 assms(2-4) _ refl, of ?cie dp] le
    by (simp add: ParseCie_def parsed_cie_def Let_def add.assoc CommonInfoEntry_init_def entry_bytes_def cie_body_def)
qed

lemma ReadEncoded_sdata4:
  assumes "code_at m byte a (le32 w @ r)"
  shows "ReadEncodedValue m a 0x1b = Some (scast w + a, a + 4)" "ReadEncodedValue m a 0x0b = Some (scast w, a + 4)"
  using read_le32(1)[OF assms]
  by (simp_all add: ReadEncodedValue_def ReadFormatEncodedValue_def ReadValue_def DW_EH_PE_defs apply_encoding_def
      map_val_def sext32_def ucast_u32_u64)

lemma ParseFde_zR:
  assumes c: "code_at m byte f (entry_bytes (fde_body delta start len prog))"
    and "delta \<noteq> 0" "length (fde_body delta start len prog) < 2 ^ 32 - 1"
    and cie: "ParseCie m (f + 4 - ucast delta) (f + 4 - ucast delta) (fde_cie fde) dp = Some (True, cie, dp1)"
    and z: "cie_pointerEncoding cie = 0x1b" "cie_segmentSize cie = 0" "cie_hasAugmentationData cie" "cie_lsdaEncoding cie = 0"
    and "dp_fdeEntries dp f = None"
    and v: "ReadValue m (f + 17) 8 = Some (lsda, p)"
  shows "ParseFde m f f fde dp = Some (True, parsed_fde f delta start len prog lsda cie,
    dp1\<lparr>dp_fdeEntries := (dp_fdeEntries dp1)(f \<mapsto> parsed_fde f delta start len prog lsda cie)\<rparr>)"
proof -
  let ?n = "length (fde_body delta start len prog)"
  have c0: "code_at m byte f (le32 (of_nat ?n) @ le32 delta @ le32 start @ le32 len @ uleb_enc 0 @ prog)"
    using c by (simp add: entry_bytes_def fde_body_def uleb_enc.simps[of 0])
  have n: "unat (of_nat ?n :: u32) = ?n" using assms(3) by (simp add: unat_of_nat)
  have ne: "(of_nat ?n :: u32) \<noteq> 0xffffffff" using assms(3) n by (auto simp: word_unat_eq_iff)
  have u: "ucast (of_nat ?n :: u32) = (of_nat ?n :: u64)" using assms(3) by (simp add: ucast_u32_of_nat)
  have d: "(ucast delta :: u64) \<noteq> 0" using assms(2) unat_ucast_u32[of delta] by (auto simp: word_unat_eq_iff)
  note c4 = read_le32(3)[OF c0]
  note c8 = read_le32(3)[OF c4, unfolded add.assoc, simplified]
  note c12 = read_le32(3)[OF c8, unfolded add.assoc, simplified]
  note c16 = read_le32(3)[OF c12, unfolded add.assoc, simplified]
  have h: "ParseCieOrFdeHeader m f fde = Some (f + 8, fde\<lparr>fde_instructionsEnd := f + 4 + of_nat ?n,
      fde_cieAddr := f + 4 - ucast delta\<rparr>, False)"
    using header32[OF c0 ne] u d by (simp add: header_entry_def)
  have e: "unat (f + of_nat (4 + ?n)) = unat f + (4 + ?n)"
    using code_at_end[of m byte f "entry_bytes (fde_body delta start len prog)" "[]"] c by (simp add: entry_bytes_def)
  have "13 \<le> ?n" by (simp add: fde_body_def)
  then have "unat (f + 17) = unat f + 17"
    using unat_add_of_nat[of f 17] e unsigned_less[of "f + of_nat (4 + ?n)", where 'a = nat] by simp
  then have "\<not> f + of_nat (4 + ?n) < f + 17" using e \<open>13 \<le> ?n\<close> by (simp add: word_less_nat_alt)
  then have le: "\<not> f + (4 + of_nat ?n) < f + 17" by (simp add: add.assoc)
  have ab: "ReadEncodedValue m (f + 17) 0 = Some (lsda, p)"
    using v by (simp add: ReadEncodedValue_def DW_EH_PE_defs)
  have ov: "add_overflow (f + 17) 0 = (False, f + 17)"
    using unsigned_less[of "f + 17", where 'a = nat] by (simp add: add_overflow_def)
  have "FillInFde m (f + 8) (fde\<lparr>fde_instructionsEnd := f + 4 + of_nat ?n, fde_cieAddr := f + 4 - ucast delta\<rparr>) dp =
      Some (True, parsed_fde f delta start len prog lsda cie, dp1)"
    using cie z ReadEncoded_sdata4(1)[OF c8] ReadEncoded_sdata4(2)[OF c12] read_uleb[OF c16] le ab ov
    by (simp add: FillInFde_def Let_def uleb_enc.simps[of 0] DW_EH_PE_omit_def parsed_fde_def entry_bytes_def add.assoc)
  then show ?thesis
    using assms(9) h by (simp add: ParseFde_def)
qed

end

lemma search_table:
  assumes "mem_view m byte" "table_ok m byte uti n"
  shows "(n = 0 \<or> pc < tab_start byte uti 0 \<longrightarrow> SearchEntry m pc uti dp = Some (None, dp)) \<and>
    (\<forall>k. covers byte uti n pc k \<longrightarrow> SearchEntry m pc uti dp = Some (Some (tab_fde byte uti k), dp))"
proof -
  have t: "readable m (uti_tableData uti) (8 * n)" "n < 2 ^ 60" "uti_tableLen uti = of_nat n"
    "\<forall>i < n. tab_fde byte uti i \<noteq> 0"
    and sorted: "\<forall>i j. i < j \<and> j < n \<longrightarrow> tab_start byte uti i < tab_start byte uti j"
    using assms(2) by (auto simp: table_ok_def)
  let ?S = "search_loop m (uti_tableData uti) (uti_segbase uti) pc 0 (of_nat n)"
  have below: "i \<le> k \<longleftrightarrow> tab_start byte uti i \<le> pc"
    if "k < n" "tab_start byte uti k \<le> pc" "k + 1 < n \<longrightarrow> pc < tab_start byte uti (k + 1)" "i < n" for k i
  proof (cases i k rule: linorder_cases)
    case less
    then have "tab_start byte uti i < tab_start byte uti k" using that(1) sorted by blast
    then show ?thesis using less that(2) by simp
  next
    case greater
    then have "pc < tab_start byte uti i"
      using that sorted by (cases "i = k + 1") (auto intro: order.strict_trans)
    then show ?thesis using greater by simp
  qed (use that in simp)
  from mem_view.search_loop_ok[OF assms(1) t(1,2) sorted, of 0 n pc]
  consider k h where "k < n" "tab_start byte uti k = pc" "?S = Some (Search_entry (tab_fde byte uti k) h)"
    | h where "h \<le> n" "\<forall>i < h. tab_start byte uti i < pc" "\<forall>i < n. h \<le> i \<longrightarrow> pc < tab_start byte uti i"
      "?S = Some (Search_high (of_nat h))"
    by auto
  then show ?thesis
  proof cases
    case 1
    then have "SearchEntry m pc uti dp = Some (Some (tab_fde byte uti k), dp)"
      using t by (simp add: SearchEntry_def)
    moreover have "k = k'" if "k' < n" "tab_start byte uti k' \<le> pc" "k' + 1 < n \<longrightarrow> pc < tab_start byte uti (k' + 1)" for k'
    proof (rule ccontr)
      assume ne: "k \<noteq> k'"
      have "k \<le> k'" using below[OF that 1(1)] 1(2) by simp
      then have "tab_start byte uti k < tab_start byte uti k'" using ne sorted that(1) by simp
      then show False using 1(2) that(2) by simp
    qed
    moreover have "\<not> (n = 0 \<or> pc < tab_start byte uti 0)"
      using 1(1,2) sorted less_trans[of pc "tab_start byte uti 0" "tab_start byte uti k"] by (cases "k = 0") auto
    ultimately show ?thesis unfolding covers_def by blast
  next
    case 2
    then have S: "SearchEntry m pc uti dp = Some (if h = 0 then None else Some (tab_fde byte uti (h - 1)), dp)"
      using t mem_view.search_last_ok[OF assms(1) t(1,2)] by (simp add: SearchEntry_def)
    moreover have "h = k + 1" if "k < n" "tab_start byte uti k \<le> pc" "k + 1 < n \<longrightarrow> pc < tab_start byte uti (k + 1)" for k
    proof -
      have "\<not> h \<le> k" using 2(3) that(1,2) by (auto simp: not_less[symmetric])
      moreover have "\<not> k + 1 < h" using 2(1,2) that(3) by (auto dest: order.strict_trans)
      ultimately show ?thesis by simp
    qed
    moreover have "h = 0" if "n = 0 \<or> pc < tab_start byte uti 0"
      using that 2(1,2) by (cases h) (auto dest: order.strict_trans)
    ultimately show ?thesis by (auto simp: covers_def)
  qed
qed

lemma code_at_align: "code_at m byte a bs \<Longrightarrow> \<not> mem_alignAddr m"
  by (simp add: code_at_def readable_def)

lemma ReadMem_SetDataOffset [simp]: "ReadMem (SetDataOffset m x) a = ReadMem m a"
  by (simp add: ReadMem_def SetDataOffset_def)

lemma SetDataOffset_view:
  "mem_view m byte \<Longrightarrow> mem_view (SetDataOffset m x) byte"
  "code_at (SetDataOffset m x) byte a bs = code_at m byte a bs"
  by (simp_all add: mem_view_def code_at_def readable_def) (simp add: SetDataOffset_def)

lemma ParseFde_cie:
  assumes "mem_view m byte"
    and c: "code_at m byte a (entry_bytes (cie_body ca da ra cieProg))" "ca < 2 ^ 32" "- (2 ^ 31) \<le> da" "da < 2 ^ 31"
    and f: "code_at m byte f (entry_bytes (fde_body delta start len fdeProg))" "delta \<noteq> 0" "a = f + 4 - ucast delta"
    and l: "length (cie_body ca da ra cieProg) < 2 ^ 32 - 1" "length (fde_body delta start len fdeProg) < 2 ^ 32 - 1"
    and "dp_cieEntries dp a = None" "dp_fdeEntries dp f = None"
  shows "\<exists>lsda dp'. (\<exists>p. ReadValue m (f + 17) 8 = Some (lsda, p)) \<and> ParseFde m f f fde dp = Some (True,
    parsed_fde f delta start len fdeProg lsda (parsed_cie a ca da ra cieProg), dp')"
proof -
  obtain lsda p where v: "ReadValue m (f + 17) 8 = Some (lsda, p)"
    using ReadValue_total[OF code_at_align[OF c(1)]] by (metis surj_pair)
  show ?thesis
    using mem_view.ParseFde_zR[OF assms(1) f(1,2) l(2) _ _ _ _ _ assms(12) v,
        OF mem_view.ParseCie_zR[OF assms(1) c l(1) assms(11), unfolded f(3)]] v f(3)
    by (auto simp: parsed_cie_def)
qed

lemma mem_view_bytes:
  assumes "mem_view m byte" "readable m a 8" "ReadValue m a 8 = Some (v, p)"
  shows "v = bytes_word (bytes_at byte a 8)"
  using assms mem_view.Read_ok[OF assms(1,2), of True] by (simp add: ReadValue_def ReadT_def)

lemma cie_program:
  assumes "code_at m byte a (entry_bytes (cie_body ca da ra prog))"
  shows "code_at m byte (cie_instructionsOff (parsed_cie a ca da ra prog)) prog"
proof -
  have "code_at m byte a ((le32 (of_nat (length (cie_body ca da ra prog))) @ le32 0 @ [1] @ [0x7a, 0x52, 0] @ uleb_enc ca @
      sleb_enc da @ [ra] @ [1] @ [0x1b]) @ prog)"
    using assms by (simp add: entry_bytes_def cie_body_def)
  from code_at_append(2)[OF this] show ?thesis
    by (simp add: parsed_cie_def entry_bytes_def cie_body_def)
qed

lemma fde_program:
  assumes "code_at m byte f (entry_bytes (fde_body delta start len prog))"
  shows "code_at m byte (f + 17) prog"
proof -
  have "code_at m byte f ((le32 (of_nat (length (fde_body delta start len prog))) @ le32 delta @ le32 start @ le32 len @ [0]) @ prog)"
    using assms by (simp add: entry_bytes_def fde_body_def)
  from code_at_append(2)[OF this] show ?thesis by simp
qed

lemma Step_table:
  assumes "mem_view m byte" "dp_memory dp = Some m" "dp_cieEntries dp = Map.empty" "dp_fdeEntries dp = Map.empty"
    and "\<not> uti_isLinear uti" "table_ok m byte uti n" "covers byte uti n pc k" "f = tab_fde byte uti k"
    and "code_at m byte a (entry_bytes (cie_body ca da ra (cfa_program cieProg)))" "ca < 2 ^ 32" "- (2 ^ 31) \<le> da" "da < 2 ^ 31"
    and "code_at m byte f (entry_bytes (fde_body delta start len (cfa_program fdeProg)))" "delta \<noteq> 0" "a = f + 4 - ucast delta"
    and "length (cie_body ca da ra (cfa_program cieProg)) < 2 ^ 32 - 1"
    and "length (fde_body delta start len (cfa_program fdeProg)) < 2 ^ 32 - 1"
    and "cie = parsed_cie a ca da ra (cfa_program cieProg)" "\<forall>i\<in>set cieProg. wf_cfa cie i" "\<forall>i\<in>set fdeProg. wf_cfa cie i"
    and "f + 8 + scast start \<le> pc" "pc < f + 8 + scast start + scast len"
  shows "\<exists>lsda dp'. Step q pc uti (Some rs) dp = Some (True,
    Some (cfa_table q pc (parsed_fde f delta start len (cfa_program fdeProg) lsda cie) cieProg fdeProg rs), dp')"
proof -
  let ?m = "SetDataOffset m (uti_segbase uti)" and ?dp = "dp\<lparr>dp_memory := Some (SetDataOffset m (uti_segbase uti))\<rparr>"
  note v = SetDataOffset_view[where x = "uti_segbase uti"]
  obtain lsda dp' where P: "ParseFde ?m f f FrameDescEntry_init ?dp = Some (True,
      parsed_fde f delta start len (cfa_program fdeProg) lsda cie, dp')"
    using ParseFde_cie[OF v(1)[OF assms(1)], of a ca da ra "cfa_program cieProg" f delta start len "cfa_program fdeProg" ?dp FrameDescEntry_init] assms
    unfolding v by fastforce
  let ?fde = "parsed_fde f delta start len (cfa_program fdeProg) lsda cie"
  have "code_at ?m byte (cie_instructionsOff (fde_cie ?fde)) (cfa_program cieProg)"
    "code_at ?m byte (fde_instructionsOff ?fde) (cfa_program fdeProg)"
    using cie_program fde_program assms by (simp_all add: v parsed_fde_def)
  then have "Parse q ?m pc ?fde rs = Some (cfa_table q pc ?fde cieProg fdeProg rs)"
    using assms by (intro Parse_programs[OF v(1)[OF assms(1)] refl]) (auto simp: parsed_fde_def parsed_cie_def entry_bytes_def cie_body_def fde_body_def)
  then show ?thesis
    using assms P search_table[OF assms(1,6), of pc dp] by (auto simp: Step_def Let_def parsed_fde_def)
qed

lemma eh_lengths [simp]: "length (cie_body 4 (- 8) 30 (cfa_program sample_cie_prog)) = 16"
  "length (fde_body 0x18 0x2fdc 0x100 (cfa_program sample_fde_prog)) = 20" "length eh_cie = 20" "length eh_fde = 24" "length eh_image = 72"
proof -
  show 1: "length (cie_body 4 (- 8) 30 (cfa_program sample_cie_prog)) = 16"
    unfolding sample_programs by (simp add: cie_body_def uleb_enc.simps[of 4] sleb_enc.simps[of "- 8"])
  show 2: "length (fde_body 0x18 0x2fdc 0x100 (cfa_program sample_fde_prog)) = 20"
    unfolding sample_programs by (simp add: fde_body_def)
  show 3: "length eh_cie = 20" "length eh_fde = 24" by (simp_all add: eh_cie_def eh_fde_def entry_bytes_def 1 2)
  show "length eh_image = 72" by (simp add: eh_image_def 3)
qed

lemma eh_code:
  "code_at (byte_memory eh_memory) eh_memory 0x1000 (le32 0x4000 @ le32 0x101c)"
  "code_at (byte_memory eh_memory) eh_memory 0x1008 eh_cie"
  "code_at (byte_memory eh_memory) eh_memory 0x101c eh_fde"
  "code_at (byte_memory eh_memory) eh_memory 0x1038 (word_bytes 0x7000 @ word_bytes 0x5008)"
  "code_at (byte_memory eh_memory) eh_memory 0x102d (cfa_program sample_fde_prog @ [0])"
proof -
  have c: "code_at (byte_memory eh_memory) eh_memory 0x1000 ((le32 0x4000 @ le32 0x101c) @ eh_cie @ eh_fde @ [0, 0, 0, 0] @ word_bytes 0x7000 @ word_bytes 0x5008)"
    using code_at_rom[of "0x1000" eh_image] unfolding eh_memory_def by (simp add: eh_image_def)
  note c1 = code_at_append(2)[OF c]
  note c2 = code_at_append(2)[OF c1]
  note c3 = code_at_append(2)[OF c2]
  note c4 = code_at_append(2)[OF c3]
  show "code_at (byte_memory eh_memory) eh_memory 0x1000 (le32 0x4000 @ le32 0x101c)" using code_at_append(1)[OF c] .
  show "code_at (byte_memory eh_memory) eh_memory 0x1008 eh_cie" using code_at_append(1)[OF c1] by simp
  show "code_at (byte_memory eh_memory) eh_memory 0x101c eh_fde" using code_at_append(1)[OF c2] by simp
  show "code_at (byte_memory eh_memory) eh_memory 0x1038 (word_bytes 0x7000 @ word_bytes 0x5008)" using c4 by simp
  let ?h = "le32 (of_nat 20) @ le32 0x18 @ le32 0x2fdc @ le32 0x100 @ [0]"
  have "code_at (byte_memory eh_memory) eh_memory 0x101c (?h @ (cfa_program sample_fde_prog @ [0]) @ [0, 0, 0] @ word_bytes 0x7000 @ word_bytes 0x5008)"
    using c2 by (simp add: eh_fde_def entry_bytes_def) (simp add: fde_body_def)
  from code_at_append(1)[OF code_at_append(2)[OF this]]
  show "code_at (byte_memory eh_memory) eh_memory 0x102d (cfa_program sample_fde_prog @ [0])" by simp
qed

lemma eh_instructions: "bytes_word (bytes_at eh_memory 0x102d 8) = 0x00039e049d200e41"
proof -
  have "length (cfa_program sample_fde_prog @ [0]) = 8" unfolding sample_programs by simp
  then have "bytes_at eh_memory 0x102d 8 = cfa_program sample_fde_prog @ [0]"
    using eh_code(5) by (simp only: code_at_def)
  then show ?thesis unfolding sample_programs by simp
qed

lemma eh_bytes: "bytes_at eh_memory 0x1000 4 = le32 0x4000" "bytes_at eh_memory 0x1004 4 = le32 0x101c"
  using code_at_append[OF eh_code(1)] by (simp_all add: code_at_def)

lemma eh_table_ok: "table_ok (byte_memory eh_memory) eh_memory eh_table 1" "covers eh_memory eh_table 1 0x4010 0"
  "tab_fde eh_memory eh_table 0 = 0x101c"
  by (simp_all add: table_ok_def covers_def eh_table_def tab_start_def tab_fde_def eh_bytes readable_byte_memory
      sext32_def ucast_u32_u64)

lemmas eh_entry_facts = eh_code(2)[unfolded eh_cie_def] eh_code(3)[unfolded eh_fde_def]

section \<open>Properties\<close>

text \<open>
  C4. Over a readable table with strictly increasing start addresses and nonzero FDE addresses,
  SearchEntry finds for every pc the FDE of the last entry that starts at or below it, and nothing
  exactly when the table is empty or pc lies below its first entry.
\<close>

theorem SearchEntry_correct:
  assumes "mem_view m byte" "table_ok m byte uti n"
  shows "(n = 0 \<or> pc < tab_start byte uti 0 \<longrightarrow> SearchEntry m pc uti dp = Some (None, dp)) \<and>
    (\<forall>k. covers byte uti n pc k \<longrightarrow> SearchEntry m pc uti dp = Some (Some (tab_fde byte uti k), dp))"
  using assms by (rule search_table)

theorem SearchEntry_correct_witness:
  "SearchEntry (byte_memory eh_memory) 0x4010 eh_table eh_parser = Some (Some 0x101c, eh_parser)"
  using SearchEntry_correct[OF bm.mem_view_axioms eh_table_ok(1), of "0x4010" eh_parser] eh_table_ok(2,3) by simp

text \<open>
  C6. Parsing inverts the encoding: for a CIE and an FDE in the form compilers write them, ParseFde
  on a parser without cached entries succeeds and returns the code range, the alignment factors, the
  return address register and the extents of the two programs.
\<close>

theorem ParseFde_roundtrip:
  assumes "mem_view m byte"
    and "code_at m byte a (entry_bytes (cie_body ca da ra cieProg))" "ca < 2 ^ 32" "- (2 ^ 31) \<le> da" "da < 2 ^ 31"
    and "code_at m byte f (entry_bytes (fde_body delta start len fdeProg))" "delta \<noteq> 0" "a = f + 4 - ucast delta"
    and "length (cie_body ca da ra cieProg) < 2 ^ 32 - 1" "length (fde_body delta start len fdeProg) < 2 ^ 32 - 1"
    and "dp_cieEntries dp a = None" "dp_fdeEntries dp f = None"
  shows "\<exists>lsda dp'. ParseFde m f f FrameDescEntry_init dp = Some (True,
    parsed_fde f delta start len fdeProg lsda (parsed_cie a ca da ra cieProg), dp')"
  using ParseFde_cie[OF assms] by blast

theorem ParseFde_roundtrip_witness:
  "\<exists>fde dp'. ParseFde (byte_memory eh_memory) 0x101c 0x101c FrameDescEntry_init eh_parser = Some (True, fde, dp')
    \<and> fde_pcStart fde = 0x4000 \<and> fde_pcEnd fde = 0x4100 \<and> cie_dataAlignFactor (fde_cie fde) = - 8
    \<and> fde_instructionsOff fde = 0x102d \<and> fde_instructionsEnd fde = 0x1034"
  using ParseFde_roundtrip[OF bm.mem_view_axioms eh_entry_facts(1) _ _ _ eh_entry_facts(2), of eh_parser]
  by (auto simp: eh_parser_def parsed_fde_def parsed_cie_def entry_bytes_def)

text \<open>
  C19. The CIE above has no language-specific data area, but its entry is filled with the encoding 0
  instead of \<open>DW_EH_PE_omit\<close>: the first eight bytes of the FDE's instructions become its lsda.
\<close>

theorem ParseFde_spurious_lsda:
  assumes "mem_view m byte"
    and "code_at m byte a (entry_bytes (cie_body ca da ra cieProg))" "ca < 2 ^ 32" "- (2 ^ 31) \<le> da" "da < 2 ^ 31"
    and "code_at m byte f (entry_bytes (fde_body delta start len fdeProg))" "delta \<noteq> 0" "a = f + 4 - ucast delta"
    and "length (cie_body ca da ra cieProg) < 2 ^ 32 - 1" "length (fde_body delta start len fdeProg) < 2 ^ 32 - 1"
    and "dp_cieEntries dp a = None" "dp_fdeEntries dp f = None" "readable m (f + 17) 8"
  shows "\<exists>fde dp'. ParseFde m f f FrameDescEntry_init dp = Some (True, fde, dp') \<and>
    fde_lsda fde = bytes_word (bytes_at byte (f + 17) 8)"
proof -
  obtain lsda p dp' where r: "ReadValue m (f + 17) 8 = Some (lsda, p)" "ParseFde m f f FrameDescEntry_init dp = Some (True,
      parsed_fde f delta start len fdeProg lsda (parsed_cie a ca da ra cieProg), dp')"
    using ParseFde_cie[OF assms(1-12)] by blast
  have "lsda = bytes_word (bytes_at byte (f + 17) 8)"
    using mem_view_bytes[OF assms(1,13) r(1)] .
  then show ?thesis using r(2) by (auto simp: parsed_fde_def)
qed

theorem ParseFde_spurious_lsda_witness:
  "\<exists>fde dp'. ParseFde (byte_memory eh_memory) 0x101c 0x101c FrameDescEntry_init eh_parser = Some (True, fde, dp')
    \<and> fde_lsda fde = 0x00039e049d200e41"
proof -
  show ?thesis
    using eh_instructions ParseFde_spurious_lsda[OF bm.mem_view_axioms eh_entry_facts(1) _ _ _ eh_entry_facts(2), of eh_parser]
    by (simp add: eh_parser_def readable_byte_memory)
qed

text \<open>
  The header of an entry in the 64-bit format is skipped wrongly: after the 8-byte CIE pointer
  another 8 bytes are passed over, and the pointer is taken relative to its end instead of its
  beginning.
\<close>

theorem header64_skips:
  assumes "mem_view m byte" "code_at m byte a (le32 0xffffffff @ word_bytes len @ word_bytes ptr @ r)" "ptr \<noteq> 0"
  shows "ParseCieOrFdeHeader m a fde =
    Some (a + 20 + 8, fde\<lparr>fde_instructionsEnd := a + 12 + len, fde_cieAddr := (a + 12) + 8 - ptr\<rparr>, False)"
proof -
  have "ReadT m a 4 True = Some (True, 0xffffffff, a + 4)" "code_at m byte (a + 4) (word_bytes len @ word_bytes ptr @ r)"
    using mem_view.read_le32[OF assms(1,2)] by simp_all
  moreover from mem_view.read_fixed[OF assms(1) this(2)] code_at_append[OF this(2)]
  have "ReadT m (a + 4) 8 True = Some (True, len, a + 12)" "code_at m byte (a + 12) (word_bytes ptr @ r)"
    by (simp_all add: add.assoc)
  moreover from mem_view.Read_ok[OF assms(1), of "a + 12" 8 True] code_at_append(1)[OF this(2)]
  have "Read m (a + 12) 8 True = Some (word_bytes ptr, a + 20)"
    by (simp add: code_at_def add.assoc)
  ultimately show ?thesis
    using assms(3) by (simp add: ParseCieOrFdeHeader_def read_uninit_def header_entry_def overlay_def)
qed

theorem header64_skips_witness:
  "\<exists>fde. ParseCieOrFdeHeader (byte_memory (rom 0x1000 (le32 0xffffffff @ word_bytes 0x20 @ word_bytes 0x14))) 0x1000 FrameDescEntry_init =
    Some (0x101c, fde, False)"
  using header64_skips[OF bm.mem_view_axioms code_at_rom[of "0x1000" "le32 0xffffffff @ word_bytes 0x20 @ word_bytes 0x14 @ []"],
      of FrameDescEntry_init] by simp

text \<open>
  C5. The whole lookup of a pc: where the search table leads to an FDE in compiler form whose range
  contains pc and whose programs, and those of its CIE, are well formed, Step returns the rules
  of the two programs at pc.
\<close>

theorem Step_eh_frame:
  assumes "mem_view m byte" "dp_memory dp = Some m" "dp_cieEntries dp = Map.empty" "dp_fdeEntries dp = Map.empty"
    and "\<not> uti_isLinear uti" "table_ok m byte uti n" "covers byte uti n pc k" "f = tab_fde byte uti k"
    and "code_at m byte a (entry_bytes (cie_body ca da ra (cfa_program cieProg)))" "ca < 2 ^ 32" "- (2 ^ 31) \<le> da" "da < 2 ^ 31"
    and "code_at m byte f (entry_bytes (fde_body delta start len (cfa_program fdeProg)))" "delta \<noteq> 0" "a = f + 4 - ucast delta"
    and "length (cie_body ca da ra (cfa_program cieProg)) < 2 ^ 32 - 1"
    and "length (fde_body delta start len (cfa_program fdeProg)) < 2 ^ 32 - 1"
    and "cie = parsed_cie a ca da ra (cfa_program cieProg)" "\<forall>i\<in>set cieProg. wf_cfa cie i" "\<forall>i\<in>set fdeProg. wf_cfa cie i"
    and "f + 8 + scast start \<le> pc" "pc < f + 8 + scast start + scast len"
  shows "\<exists>lsda dp'. Step q pc uti (Some rs) dp = Some (True,
    Some (cfa_table q pc (parsed_fde f delta start len (cfa_program fdeProg) lsda cie) cieProg fdeProg rs), dp')"
  using assms by (rule Step_table)

theorem Step_eh_frame_witness:
  "\<exists>rs dp'. Step [] 0x4010 eh_table (Some (RegLocState_init 0 5)) eh_parser = Some (True, Some rs, dp')
    \<and> rs_cfaReg rs = 31 \<and> get_cfaRegOffset rs = 32"
proof -
  have t: "rs_cfaReg (cfa_table [] 0x4010 (parsed_fde 0x101c 0x18 0x2fdc 0x100 p lsda (parsed_cie 0x1008 4 (- 8) 30 p'))
        sample_cie_prog sample_fde_prog (RegLocState_init 0 5)) = 31"
    "get_cfaRegOffset (cfa_table [] 0x4010 (parsed_fde 0x101c 0x18 0x2fdc 0x100 p lsda (parsed_cie 0x1008 4 (- 8) 30 p'))
        sample_cie_prog sample_fde_prog (RegLocState_init 0 5)) = 32" for lsda p p'
    by (simp_all add: sample_cie_prog_def sample_fde_prog_def cfa_table_def Let_def exec_cfa_def
        parsed_fde_def parsed_cie_def RegLocState_init_def set_loc_def upd_loc_def IsQutReg_def GetQutRegs_def QUT_REGS_def)
  have w: "\<forall>i\<in>set sample_cie_prog. wf_cfa (parsed_cie a 4 (- 8) 30 p) i" "\<forall>i\<in>set sample_fde_prog. wf_cfa (parsed_cie a 4 (- 8) 30 p) i" for a p
    by (simp_all add: sample_cie_prog_def sample_fde_prog_def parsed_cie_def REG_LAST_def is_s64_def)
  show ?thesis
    using Step_eh_frame[OF bm.mem_view_axioms _ _ _ _ eh_table_ok(1,2) eh_table_ok(3)[symmetric] eh_entry_facts(1) _ _ _ eh_entry_facts(2)
        _ _ _ _ refl w, of eh_parser "[]" "RegLocState_init 0 5"] t
    by (auto simp: eh_parser_def eh_table_def)
qed

text \<open>
  C18. Whatever the tables and entries hold, Step keeps one rule per tracked register and a CFA
  register inside of the register file, and it changes the rules only when it succeeds.
\<close>

theorem Step_invariant:
  assumes "rs_ok n rs" "Step q pc uti (Some rs) dp = Some (ok, rs', dp')"
  shows "\<exists>r. rs' = Some r \<and> rs_ok n r \<and> (\<not> ok \<longrightarrow> r = rs)"
  using assms Parse_rs_ok[OF assms(1)]
  by (auto simp: Step_def Let_def bind_eq_Some_conv split: option.splits if_splits)

theorem Step_invariant_witness:
  "\<exists>r dp'. Step [] 0x100 eh_table (Some (RegLocState_init 0 5)) eh_parser = Some (False, Some r, dp') \<and> rs_ok 5 r"
proof -
  have "0x100 < tab_start eh_memory eh_table 0"
    by (simp add: eh_table_def tab_start_def eh_bytes sext32_def ucast_u32_u64)
  then have s: "Step [] 0x100 eh_table (Some (RegLocState_init 0 5)) eh_parser = Some (False, Some (RegLocState_init 0 5), eh_parser)"
    using search_table[OF bm.mem_view_axioms eh_table_ok(1), of "0x100" eh_parser] by (simp add: Step_def eh_table_def eh_parser_def)
  then show ?thesis
    using Step_invariant[OF _ s, of 5] by (simp add: rs_ok_def RegLocState_init_def REG_LAST_def)
qed

end
