(* ===== verification/Stack_Table.thy ===== *)
theory Stack_Table
  imports Prelude
begin

text \<open>
  \<^verbatim>\<open>UniqueStackTable\<close> (\<^verbatim>\<open>src/interfaces/innerkits/async_stack/unique_stack_table.cpp\<close>): a hash
  table of call chains.  A node holds a 39-bit pc and the 25-bit index of the node of its caller;
  a stack is the index of its innermost node.  The operations are modelled between two points
  where the structure lock is held; a compare-and-exchange on a node is one atomic step.
\<close>

section \<open>Nodes and stack ids\<close>

definition ADDR_BIT_LENGTH :: nat where "ADDR_BIT_LENGTH = 39"
definition IDX_BIT_LENGTH :: nat where "IDX_BIT_LENGTH = 25"
definition MAX_NODES_CNT :: u32 where "MAX_NODES_CNT = 2 ^ 25"
definition INIT_DECONFLICT_ALLOWED :: nat where "INIT_DECONFLICT_ALLOWED = 22"
definition DECONFLICT_INCREASE_STEP :: nat where "DECONFLICT_INCREASE_STEP = 3"
definition RESIZE_MULTIPLE :: nat where "RESIZE_MULTIPLE = 2"

text \<open>The bit fields of \<^verbatim>\<open>Node\<close> and \<^verbatim>\<open>StackId\<close>.\<close>

definition node_value :: "u64 \<Rightarrow> u64 \<Rightarrow> u64" where
  "node_value pc prevIdx = take_bit 39 pc OR push_bit 39 prevIdx"

definition node_pc :: "u64 \<Rightarrow> u64" where "node_pc v = take_bit 39 v"
definition node_prevIdx :: "u64 \<Rightarrow> u64" where "node_prevIdx v = drop_bit 39 v"

definition stack_id :: "u64 \<Rightarrow> u64 \<Rightarrow> u64" where
  "stack_id i nr = take_bit 25 i OR push_bit 25 nr"

definition id_of :: "u64 \<Rightarrow> u64" where "id_of v = take_bit 25 v"
definition nr_of :: "u64 \<Rightarrow> u64" where "nr_of v = drop_bit 25 v"

section \<open>State\<close>

text \<open>The buffer is its sequence of nodes; None is the null pointer.\<close>

record StackTable =
  st_buf :: "u64 list option"
  st_tableSize :: u32
  st_usedSlots :: "u32 list"
  st_totalNodes :: u32
  st_availableNodes :: u32
  st_hashModulus :: u32
  st_availableIndex :: u32
  st_hashStep :: u64
  st_releaseBuffer :: bool

record UniqueStackTable =
  ust_pid :: u32
  ust_deconflictTimes :: u16
  ust_table :: StackTable
  ust_snapshot :: "StackTable option"
  ust_profilerInit :: bool

definition INITIAL_TABLE_SIZE :: u32 where "INITIAL_TABLE_SIZE = 1024 * 1024"

definition StackTable_init :: StackTable where
  "StackTable_init =
    \<lparr>st_buf = None, st_tableSize = INITIAL_TABLE_SIZE, st_usedSlots = [], st_totalNodes = 0,
     st_availableNodes = 0, st_hashModulus = 0, st_availableIndex = 1, st_hashStep = 0,
     st_releaseBuffer = True\<rparr>"

definition UniqueStackTable_init :: "u32 \<Rightarrow> u32 \<Rightarrow> UniqueStackTable" where
  "UniqueStackTable_init pid tableSize =
    \<lparr>ust_pid = pid, ust_deconflictTimes = of_nat INIT_DECONFLICT_ALLOWED,
     ust_table = StackTable_init\<lparr>st_tableSize := tableSize\<rparr>, ust_snapshot = None, ust_profilerInit = False\<rparr>"

definition IsTableValid :: "UniqueStackTable \<Rightarrow> bool" where
  "IsTableValid t = (st_buf (ust_table t) \<noteq> None)"

text \<open>\<^verbatim>\<open>((size / sizeof(Node)) >> 1) << 1\<close>.\<close>

definition even_nodes :: "u64 \<Rightarrow> u32" where
  "even_nodes sz = ucast (push_bit 1 (drop_bit 1 (sz div 8)))"

definition hash_step :: "u32 \<Rightarrow> u16 \<Rightarrow> u64" where
  "hash_step n dt = ucast (n div (ucast dt * 2 + 1))"

section \<open>Initialisation\<close>

text \<open>\<open>mapped\<close> tells whether \<^verbatim>\<open>mmap\<close> succeeds; a fresh mapping is zero.\<close>

definition Init :: "bool \<Rightarrow> UniqueStackTable \<Rightarrow> bool \<times> UniqueStackTable" where
  "Init mapped t =
    (if IsTableValid t then (True, t)
     else
       (let st = ust_table t;
            st1 = st\<lparr>st_availableIndex := 1, st_totalNodes := even_nodes (ucast (st_tableSize st))\<rparr>
        in if MAX_NODES_CNT < st_totalNodes st1 then (False, t\<lparr>ust_table := st1\<rparr>)
           else
             (let st2 = st1\<lparr>st_availableNodes := st_totalNodes st1\<rparr>
              in if st_availableNodes st2 = 0 then (False, t\<lparr>ust_table := st2\<rparr>)
                 else
                   (let st3 = st2\<lparr>st_hashModulus := st_availableNodes st2 - 1,
                                  st_hashStep := hash_step (st_totalNodes st2) (ust_deconflictTimes t)\<rparr>
                    in if \<not> mapped then (False, t\<lparr>ust_table := st3\<rparr>)
                       else (True, t\<lparr>ust_table := st3\<lparr>st_buf := Some (replicate (unat (st_tableSize st) div 8) 0)\<rparr>\<rparr>)))))"

text \<open>
  \<^verbatim>\<open>log2(size / mb) * DECONFLICT_INCREASE_STEP + INIT_DECONFLICT_ALLOWED\<close> in exact arithmetic:
  the floor of a multiple of the logarithm is the integer logarithm of the power.
\<close>

fun ilog2 :: "nat \<Rightarrow> nat" where
  "ilog2 n = (if n < 2 then 0 else Suc (ilog2 (n div 2)))"

definition external_deconflict :: "u64 \<Rightarrow> u16" where
  "external_deconflict sz =
    (if sz \<le> 1024 * 1024 then of_nat INIT_DECONFLICT_ALLOWED
     else of_nat (ilog2 (unat (sz div (1024 * 1024)) ^ DECONFLICT_INCREASE_STEP) + INIT_DECONFLICT_ALLOWED))"

text \<open>A fresh table takes the place of the current one, which becomes the snapshot.\<close>

definition InitWithExternalBuffer :: "u64 list \<Rightarrow> u64 \<Rightarrow> UniqueStackTable \<Rightarrow> bool \<times> UniqueStackTable" where
  "InitWithExternalBuffer buffer sz t =
    (if ust_snapshot t \<noteq> None then (False, t)
     else
       (let t1 = t\<lparr>ust_snapshot := Some (ust_table t), ust_table := StackTable_init\<rparr>;
            st1 = (ust_table t1)\<lparr>st_availableIndex := 1, st_totalNodes := even_nodes sz\<rparr>
        in if MAX_NODES_CNT < st_totalNodes st1 then (False, t1\<lparr>ust_table := st1, ust_snapshot := None\<rparr>)
           else
             (let st2 = st1\<lparr>st_availableNodes := st_totalNodes st1\<rparr>
              in if st_availableNodes st2 = 0 then (False, t1\<lparr>ust_table := st2, ust_snapshot := None\<rparr>)
                 else
                   (let dt = external_deconflict sz
                    in (True, t1\<lparr>ust_deconflictTimes := dt, ust_profilerInit := True, ust_table :=
                         st2\<lparr>st_hashModulus := st_availableNodes st2 - 1,
                             st_hashStep := hash_step (st_totalNodes st2) dt,
                             st_buf := Some buffer, st_tableSize := ucast sz\<rparr>\<rparr>)))))"

definition SwitchExternalBuffer :: "u64 list option \<Rightarrow> u64 \<Rightarrow> UniqueStackTable \<Rightarrow> bool \<times> UniqueStackTable" where
  "SwitchExternalBuffer buffer sz t =
    (case buffer of
       Some b \<Rightarrow> InitWithExternalBuffer b sz t
     | None \<Rightarrow>
         (case ust_snapshot t of
            Some st \<Rightarrow> (True, t\<lparr>ust_table := st, ust_snapshot := None, ust_profilerInit := False,
                              ust_deconflictTimes := of_nat INIT_DECONFLICT_ALLOWED\<rparr>)
          | None \<Rightarrow> (False, t)))"

text \<open>
  \<^verbatim>\<open>memcpy_s\<close> refuses a destination size of 0 or above \<^verbatim>\<open>SECUREC_MEM_MAX_LEN\<close> and a source that is
  larger than the destination.
\<close>

definition memcpy_ok :: "u32 \<Rightarrow> u32 \<Rightarrow> bool" where
  "memcpy_ok destMax count \<longleftrightarrow> destMax \<noteq> 0 \<and> destMax \<le> 0x7fffffff \<and> count \<le> destMax"

definition Resize :: "bool \<Rightarrow> UniqueStackTable \<Rightarrow> bool \<times> UniqueStackTable" where
  "Resize mapped t =
    (let st = ust_table t
     in case st_buf st of
          None \<Rightarrow> (False, t)
        | Some nodes \<Rightarrow>
            if MAX_NODES_CNT < push_bit RESIZE_MULTIPLE (st_totalNodes st) then (False, t)
            else
              (let newtableSize = push_bit RESIZE_MULTIPLE (st_tableSize st)
               in if \<not> mapped then (False, t)
                  else if \<not> memcpy_ok newtableSize (st_tableSize st) then (False, t)
                  else
                    (let newTotalNodes = even_nodes (ucast newtableSize);
                         newAvailableNodes = newTotalNodes - st_totalNodes st;
                         dt = ust_deconflictTimes t + of_nat DECONFLICT_INCREASE_STEP
                     in if newAvailableNodes = 0 then (False, t)
                        else (True, t\<lparr>ust_deconflictTimes := dt, ust_table :=
                          st\<lparr>st_buf := Some (nodes @ replicate (unat newtableSize div 8 - length nodes) 0),
                             st_tableSize := newtableSize,
                             st_availableIndex := st_availableIndex st + st_availableNodes st,
                             st_totalNodes := newTotalNodes,
                             st_availableNodes := newAvailableNodes,
                             st_hashModulus := newAvailableNodes - 1,
                             st_hashStep := hash_step newAvailableNodes dt\<rparr>\<rparr>))))"

section \<open>Insertion\<close>

text \<open>
  The loop of \<^verbatim>\<open>PutPcInSlot\<close>; the first argument is \<^verbatim>\<open>currentDeconflictTimes\<close> before the test.
  The result is the returned index and the nodes; a slot outside of the buffer is undefined.
\<close>

fun put_loop :: "nat \<Rightarrow> StackTable \<Rightarrow> u64 \<Rightarrow> u64 \<Rightarrow> u64 list \<Rightarrow> (u64 \<times> u64 list) option" where
  "put_loop 0 st v curPcIdx nodes = Some (0, nodes)"
| "put_loop (Suc n) st v curPcIdx nodes =
    (if length nodes \<le> unat curPcIdx then None
     else if nodes ! unat curPcIdx = 0 then Some (curPcIdx, nodes[unat curPcIdx := v])
     else if nodes ! unat curPcIdx = v then Some (curPcIdx, nodes)
     else
       (let next' = curPcIdx + (of_nat n * st_hashStep st + 1)
        in if st_availableNodes st = 0 then Some (0, nodes)
           else put_loop n st v
             (if ucast (st_totalNodes st) \<le> next' then next' - (ucast (st_availableNodes st) - 1) else next') nodes))"

definition slot_index :: "StackTable \<Rightarrow> u64 \<Rightarrow> u64 \<Rightarrow> u64" where
  "slot_index st thisPc prevIdx =
    (drop_bit 2 thisPc XOR push_bit 4 prevIdx) mod ucast (st_hashModulus st) + ucast (st_availableIndex st)"

definition PutPcInSlot :: "UniqueStackTable \<Rightarrow> u64 \<Rightarrow> u64 \<Rightarrow> (u64 \<times> UniqueStackTable) option" where
  "PutPcInSlot t thisPc prevIdx =
    (let st = ust_table t
     in case st_buf st of
          None \<Rightarrow> Some (0, t)
        | Some nodes \<Rightarrow>
            if st_hashModulus st = 0 then Some (0, t)
            else do {
              (i, nodes') \<leftarrow> put_loop (unat (ucast (ust_deconflictTimes t) :: u8)) st (node_value thisPc prevIdx)
                (slot_index st thisPc prevIdx) nodes;
              Some (i, t\<lparr>ust_table := st\<lparr>st_buf := Some nodes'\<rparr>\<rparr>)
            })"

text \<open>The loop over the pcs, given from the outermost frame inwards.\<close>

fun put_pcs :: "u64 list \<Rightarrow> UniqueStackTable \<Rightarrow> u64 \<Rightarrow> (u64 option \<times> UniqueStackTable) option" where
  "put_pcs [] t prev = Some (Some prev, t)"
| "put_pcs (pc # pcs) t prev =
    (if pc = 0 then put_pcs pcs t prev
     else do {
       (i, t') \<leftarrow> PutPcInSlot t pc prev;
       if i = 0 then Some (None, t') else put_pcs pcs t' i
     })"

text \<open>The result: the returned index, \<^verbatim>\<open>*stackId\<close> and the table.\<close>

definition PutPcsInTable ::
    "u64 \<Rightarrow> u64 list \<Rightarrow> UniqueStackTable \<Rightarrow> (u64 \<times> u64 \<times> UniqueStackTable) option" where
  "PutPcsInTable stackId pcs t =
    (if \<not> IsTableValid t then Some (0, stackId, t)
     else do {
       (r, t') \<leftarrow> put_pcs (rev pcs) t 0;
       (case r of
          None \<Rightarrow> Some (0, stackId, t')
        | Some prev \<Rightarrow> Some (prev, stack_id prev (of_nat (length pcs)), t'))
     })"

section \<open>Lookup\<close>

definition GetFrame :: "UniqueStackTable \<Rightarrow> u64 \<Rightarrow> (u64 option) option" where
  "GetFrame t stackId =
    (case st_buf (ust_table t) of
       None \<Rightarrow> Some None
     | Some nodes \<Rightarrow>
         if ucast (st_totalNodes (ust_table t)) \<le> stackId then Some None
         else if unat stackId < length nodes then Some (Some (nodes ! unat stackId))
         else None)"

fun get_loop :: "nat \<Rightarrow> UniqueStackTable \<Rightarrow> u64 option \<Rightarrow> u64 list \<Rightarrow> u64 list option" where
  "get_loop 0 t node pcs = Some pcs"
| "get_loop (Suc nr) t None pcs = Some pcs"
| "get_loop (Suc nr) t (Some v) pcs =
    (let pcs' = pcs @ [node_pc v]
     in if node_prevIdx v = 0 then Some pcs'
        else do {
          node \<leftarrow> GetFrame t (node_prevIdx v);
          get_loop nr t node pcs'
        })"

definition collect_pcs :: "UniqueStackTable \<Rightarrow> u64 \<Rightarrow> u64 list \<Rightarrow> (bool \<times> u64 list) option" where
  "collect_pcs t stackId pcs = do {
     node \<leftarrow> GetFrame t (id_of stackId);
     pcs' \<leftarrow> get_loop (unat (nr_of stackId)) t node pcs;
     Some (True, pcs')
   }"

definition GetPcsByStackId :: "UniqueStackTable \<Rightarrow> u64 \<Rightarrow> u64 list \<Rightarrow> (bool \<times> u64 list) option" where
  "GetPcsByStackId t stackId pcs =
    (if ust_profilerInit t then Some (False, pcs)
     else if \<not> IsTableValid t then Some (False, pcs)
     else if 256 < nr_of stackId then Some (False, pcs)
     else collect_pcs t stackId pcs)"

definition GetPcsByStackId_profiler :: "UniqueStackTable \<Rightarrow> u64 \<Rightarrow> u64 list \<Rightarrow> bool \<Rightarrow> (bool \<times> u64 list) option" where
  "GetPcsByStackId_profiler t stackId pcs isProfiler =
    (if \<not> isProfiler then Some (False, pcs)
     else if \<not> IsTableValid t then Some (False, pcs)
     else collect_pcs t stackId pcs)"

definition GetWriteSize :: "UniqueStackTable \<Rightarrow> u64" where
  "GetWriteSize t =
    (if \<not> IsTableValid t then 0
     else let usedNodes = of_nat (length (st_usedSlots (ust_table t))) :: u32 in 4 + 4 + 4 + ucast usedNodes * 4 + ucast usedNodes * 8)"

text \<open>The index is compared with the size of the table in bytes.\<close>

definition ImportNode :: "u32 \<Rightarrow> u64 \<Rightarrow> UniqueStackTable \<Rightarrow> (bool \<times> UniqueStackTable) option" where
  "ImportNode idx v t =
    (case st_buf (ust_table t) of
       None \<Rightarrow> Some (False, t)
     | Some nodes \<Rightarrow>
         if st_tableSize (ust_table t) \<le> idx then Some (False, t)
         else if unat idx < length nodes then
           Some (True, t\<lparr>ust_table := (ust_table t)\<lparr>st_buf := Some (nodes[unat idx := v])\<rparr>\<rparr>)
         else None)"

section \<open>Invariant and abstraction\<close>

text \<open>
  The part of the table that insertions use: the slots from \<^verbatim>\<open>availableIndex\<close> up to \<^verbatim>\<open>totalNodes\<close>,
  all of them inside the buffer, with a probing step that cannot leave them.
\<close>

definition st_ok :: "u16 \<Rightarrow> StackTable \<Rightarrow> bool" where
  "st_ok dt st =
    (case st_buf st of
       None \<Rightarrow> True
     | Some nodes \<Rightarrow>
         unat (st_totalNodes st) \<le> length nodes \<and> unat (st_totalNodes st) \<le> 2 ^ 25 \<and>
         length nodes = unat (st_tableSize st) div 8 \<and> 16 dvd unat (st_tableSize st) \<and>
         unat (st_totalNodes st) = unat (st_tableSize st) div 8 \<and>
         2 \<le> unat (st_availableNodes st) \<and> 1 \<le> unat (st_availableIndex st) \<and>
         unat (st_availableIndex st) + unat (st_availableNodes st) = unat (st_totalNodes st) + 1 \<and>
         unat (st_hashModulus st) = unat (st_availableNodes st) - 1 \<and>
         unat (st_hashStep st) * (2 * unat dt + 1) \<le> unat (st_availableNodes st))"

text \<open>
  The chain of nodes from index \<open>i\<close> spells the pcs \<open>pcs\<close>, innermost first, and ends at a node whose
  caller index is 0.
\<close>

fun chain :: "u64 list \<Rightarrow> nat \<Rightarrow> u64 \<Rightarrow> u64 list \<Rightarrow> bool" where
  "chain nodes tot i [] = False"
| "chain nodes tot i (pc # pcs) =
    (unat i < tot \<and> nodes ! unat i \<noteq> 0 \<and> node_pc (nodes ! unat i) = pc \<and>
     (if pcs = [] then node_prevIdx (nodes ! unat i) = 0
      else node_prevIdx (nodes ! unat i) \<noteq> 0 \<and> chain nodes tot (node_prevIdx (nodes ! unat i)) pcs))"

definition spells :: "u64 list \<Rightarrow> nat \<Rightarrow> u64 \<Rightarrow> u64 list \<Rightarrow> bool" where
  "spells nodes tot i pcs = (if i = 0 then pcs = [] else unat i < tot \<and> chain nodes tot i pcs)"

text \<open>Nodes are only ever added.\<close>

definition extends :: "u64 list \<Rightarrow> u64 list \<Rightarrow> bool" where
  "extends nodes nodes' = (length nodes \<le> length nodes' \<and> (\<forall>i < length nodes. nodes ! i \<noteq> 0 \<longrightarrow> nodes' ! i = nodes ! i))"

text \<open>A table of eight nodes, as a worked example.\<close>

definition sample_ust :: UniqueStackTable where
  "sample_ust =
    \<lparr>ust_pid = 1, ust_deconflictTimes = 22, ust_table =
      \<lparr>st_buf = Some [0, 0, 0, 0, 0, 0, 0, 0], st_tableSize = 64, st_usedSlots = [], st_totalNodes = 8,
       st_availableNodes = 8, st_hashModulus = 7, st_availableIndex = 1, st_hashStep = 0,
       st_releaseBuffer = True\<rparr>,
     ust_snapshot = None, ust_profilerInit = False\<rparr>"

definition sample_ust' :: UniqueStackTable where
  "sample_ust' = sample_ust\<lparr>ust_table := (ust_table sample_ust)\<lparr>st_buf :=
    Some [0, 0, node_value 0x20 0, node_value 0x14 2, 0, 0, 0, 0]\<rparr>\<rparr>"

text \<open>Operations of a table in use, in any order.\<close>

inductive table_step :: "UniqueStackTable \<Rightarrow> UniqueStackTable \<Rightarrow> bool" where
  put: "\<lbrakk>\<forall>pc \<in> set pcs. unat pc < 2 ^ 39; PutPcsInTable stackId pcs t = Some (r, stackId', t')\<rbrakk> \<Longrightarrow> table_step t t'"
| resize: "Resize mapped t = (ok, t') \<Longrightarrow> table_step t t'"
| init: "Init mapped t = (ok, t') \<Longrightarrow> table_step t t'"

section \<open>Lemmas\<close>

lemma node_value_fields:
  assumes "unat pc < 2 ^ 39" "unat i < 2 ^ 25"
  shows "node_pc (node_value pc i) = pc" "node_prevIdx (node_value pc i) = i"
proof -
  show "node_pc (node_value pc i) = pc"
    by (intro bit_word_eqI) (auto simp: node_pc_def node_value_def bit_simps dest: bit_less_exp[OF assms(1)])
  show "node_prevIdx (node_value pc i) = i"
    by (intro bit_word_eqI) (auto simp: node_prevIdx_def node_value_def bit_simps dest: bit_less_exp[OF assms(2)])
qed

lemma stack_id_fields:
  assumes "unat i < 2 ^ 25" "unat nr < 2 ^ 39"
  shows "id_of (stack_id i nr) = i" "nr_of (stack_id i nr) = nr"
proof -
  show "id_of (stack_id i nr) = i"
    by (intro bit_word_eqI) (auto simp: id_of_def stack_id_def bit_simps dest: bit_less_exp[OF assms(1)])
  show "nr_of (stack_id i nr) = nr"
    by (intro bit_word_eqI) (auto simp: nr_of_def stack_id_def bit_simps dest: bit_less_exp[OF assms(2)])
qed

lemma extends_refl [simp]: "extends nodes nodes"
  by (simp add: extends_def)

lemma extends_trans: "extends a b \<Longrightarrow> extends b c \<Longrightarrow> extends a c"
  by (auto simp: extends_def)

lemma extends_update: "nodes ! i = 0 \<Longrightarrow> extends nodes (nodes[i := v])"
  by (auto simp: extends_def) (metis nth_list_update_neq)

lemma chain_extends:
  "chain nodes tot i pcs \<Longrightarrow> extends nodes nodes' \<Longrightarrow> tot \<le> length nodes \<Longrightarrow> tot \<le> tot' \<Longrightarrow> chain nodes' tot' i pcs"
  by (induction nodes tot i pcs rule: chain.induct) (auto simp: extends_def)

lemma put_loop_ok:
  assumes "st_ok dt st" "st_buf st = Some nodes0" "length nodes = length nodes0" "n < Suc (unat dt)"
    and "unat (st_availableIndex st) \<le> unat i" "unat i < unat (st_totalNodes st)" "v \<noteq> 0"
  shows "\<exists>r nodes'. put_loop n st v i nodes = Some (r, nodes') \<and> extends nodes nodes' \<and> length nodes' = length nodes \<and> nodes' ! 0 = nodes ! 0 \<and>
    (r \<noteq> 0 \<longrightarrow> unat (st_availableIndex st) \<le> unat r \<and> unat r < unat (st_totalNodes st) \<and> nodes' ! unat r = v)"
  using assms(3-)
proof (induction n arbitrary: i nodes)
  case (Suc n)
  note w = assms(1,2)
  have a0: "1 \<le> unat (st_availableIndex st)" using w by (auto simp: st_ok_def)
  have inv: "unat (st_totalNodes st) \<le> length nodes" "unat (st_totalNodes st) \<le> 2 ^ 25" "2 \<le> unat (st_availableNodes st)"
    "unat (st_availableIndex st) + unat (st_availableNodes st) = unat (st_totalNodes st) + 1"
    "unat (st_hashStep st) * (2 * unat dt + 1) \<le> unat (st_availableNodes st)"
    using w Suc.prems(1) by (auto simp: st_ok_def)
  show ?case
  proof (cases "nodes ! unat i = 0 \<or> nodes ! unat i = v")
    case True
    then show ?thesis
      using Suc.prems inv a0 extends_update[of nodes "unat i" v] by (cases "nodes ! unat i = 0") auto
  next
    case False
    let ?hs = "unat (st_hashStep st)" and ?av = "unat (st_availableNodes st)"
    define step where "step = n * ?hs + 1"
    have "Suc n * ?hs \<le> unat dt * ?hs" using Suc.prems(2) by (intro mult_le_mono1) simp
    then have st: "step \<le> ?av - 1" using inv(3,5) by (cases "?hs = 0") (auto simp: step_def algebra_simps)
    define nx where "nx = i + (of_nat n * st_hashStep st + 1)"
    have "n < 2 ^ 16" using Suc.prems(2) unsigned_less[of dt, where 'a = nat] by simp
    moreover have "n * ?hs < 2 ^ 26" "unat i + step < 2 ^ 27" using st inv Suc.prems(4) by (auto simp: step_def)
    ultimately have un: "unat nx = unat i + step"
      by (simp add: nx_def step_def unat_word_ariths unat_of_nat)
    define j where "j = (if ucast (st_totalNodes st) \<le> nx then nx - (ucast (st_availableNodes st) - 1) else nx)"
    have a1: "unat (ucast (st_availableNodes st) - 1 :: u64) = ?av - 1" using inv(3) by (subst unat_minus_one) (auto simp: word_unat_eq_iff)
    have j: "unat (st_availableIndex st) \<le> unat j" "unat j < unat (st_totalNodes st)"
      using un st inv Suc.prems(3,4) a1
      by (auto simp: j_def word_le_nat_alt unat_sub not_le split: if_splits)
    have "put_loop (Suc n) st v i nodes = put_loop n st v j nodes"
      using False inv Suc.prems by (auto simp: Let_def j_def nx_def)
    then show ?thesis using Suc.IH[of nodes j] Suc.prems j by auto
  qed
qed simp


lemma slot_index_range:
  assumes "st_ok dt st" "st_buf st = Some nodes"
  shows "unat (st_availableIndex st) \<le> unat (slot_index st pc prev)" "unat (slot_index st pc prev) < unat (st_totalNodes st)"
proof -
  let ?m = "ucast (st_hashModulus st) :: u64"
  let ?x = "drop_bit 2 pc XOR push_bit 4 prev"
  have inv: "unat (st_totalNodes st) \<le> 2 ^ 25" "2 \<le> unat (st_availableNodes st)"
    "unat (st_availableIndex st) + unat (st_availableNodes st) = unat (st_totalNodes st) + 1"
    "unat (st_hashModulus st) = unat (st_availableNodes st) - 1"
    using assms by (auto simp: st_ok_def)
  have "unat (?x mod ?m) < unat (st_hashModulus st)" using inv(2,4) by (simp add: unat_mod_distrib)
  then have "unat (slot_index st pc prev) = unat (?x mod ?m) + unat (st_availableIndex st)"
    unfolding slot_index_def using inv by (simp add: unat_word_ariths)
  then show "unat (st_availableIndex st) \<le> unat (slot_index st pc prev)" "unat (slot_index st pc prev) < unat (st_totalNodes st)"
    using \<open>unat (?x mod ?m) < unat (st_hashModulus st)\<close> inv by simp_all
qed

lemma PutPcInSlot_ok:
  assumes "st_ok (ust_deconflictTimes t) (ust_table t)" "st_buf (ust_table t) = Some nodes"
    and "unat pc < 2 ^ 39" "pc \<noteq> 0" "unat prev < 2 ^ 25"
  obtains i nodes' where "PutPcInSlot t pc prev = Some (i, t\<lparr>ust_table := (ust_table t)\<lparr>st_buf := Some nodes'\<rparr>\<rparr>)"
    "extends nodes nodes'" "length nodes' = length nodes" "nodes' ! 0 = nodes ! 0"
    "i \<noteq> 0 \<Longrightarrow> unat i < unat (st_totalNodes (ust_table t)) \<and> nodes' ! unat i = node_value pc prev"
proof -
  let ?st = "ust_table t" and ?dt = "ust_deconflictTimes t"
  have v: "node_value pc prev \<noteq> 0"
    using node_value_fields(1)[OF assms(3,5)] assms(4) by (auto simp: node_pc_def)
  have m: "st_hashModulus ?st \<noteq> 0" using assms(1,2) by (auto simp: st_ok_def)
  have "unat (ucast ?dt :: u8) < Suc (unat ?dt)" by (simp add: unsigned_ucast_eq take_bit_nat_less_eq_self less_Suc_eq_le)
  from put_loop_ok[OF assms(1,2) refl this slot_index_range[OF assms(1,2), of pc prev] v]
  obtain r nodes' where "put_loop (unat (ucast ?dt :: u8)) ?st (node_value pc prev) (slot_index ?st pc prev) nodes = Some (r, nodes')"
    "extends nodes nodes'" "length nodes' = length nodes" "nodes' ! 0 = nodes ! 0"
    "r \<noteq> 0 \<Longrightarrow> unat r < unat (st_totalNodes ?st) \<and> nodes' ! unat r = node_value pc prev"
    by blast
  then show ?thesis using that[of r nodes'] m assms(2) by (simp add: PutPcInSlot_def Let_def)
qed

lemma put_pcs_ok:
  assumes "st_ok (ust_deconflictTimes t) (ust_table t)" "st_buf (ust_table t) = Some nodes"
    and "\<forall>pc \<in> set pcs. unat pc < 2 ^ 39" "spells nodes (unat (st_totalNodes (ust_table t))) prev acc"
  shows "\<exists>r nodes'. put_pcs pcs t prev = Some (r, t\<lparr>ust_table := (ust_table t)\<lparr>st_buf := Some nodes'\<rparr>\<rparr>) \<and>
    extends nodes nodes' \<and> length nodes' = length nodes \<and> nodes' ! 0 = nodes ! 0 \<and>
    (\<forall>i. r = Some i \<longrightarrow> spells nodes' (unat (st_totalNodes (ust_table t))) i (rev (filter (\<lambda>pc. pc \<noteq> 0) pcs) @ acc))"
  using assms
proof (induction pcs arbitrary: t nodes prev acc)
  case Nil
  then show ?case by (auto intro!: exI[of _ nodes])
next
  case (Cons pc pcs)
  show ?case
  proof (cases "pc = 0")
    case True
    then show ?thesis using Cons.IH[OF Cons.prems(1,2) _ Cons.prems(4)] Cons.prems(3) by simp
  next
    case False
    let ?tot = "unat (st_totalNodes (ust_table t))"
    have tot: "?tot \<le> length nodes" "?tot \<le> 2 ^ 25" using Cons.prems(1,2) by (auto simp: st_ok_def)
    have prev: "unat prev < 2 ^ 25" using Cons.prems(4) tot by (auto simp: spells_def split: if_splits)
    have "unat pc < 2 ^ 39" using Cons.prems(3) by simp
    from PutPcInSlot_ok[OF Cons.prems(1,2) this False prev]
    obtain i n1 where p: "PutPcInSlot t pc prev = Some (i, t\<lparr>ust_table := (ust_table t)\<lparr>st_buf := Some n1\<rparr>\<rparr>)"
      "extends nodes n1" "length n1 = length nodes" "n1 ! 0 = nodes ! 0" "i \<noteq> 0 \<Longrightarrow> unat i < ?tot \<and> n1 ! unat i = node_value pc prev"
      by metis
    show ?thesis
    proof (cases "i = 0")
      case True
      then show ?thesis using p False by auto
    next
      case i: False
      let ?t = "t\<lparr>ust_table := (ust_table t)\<lparr>st_buf := Some n1\<rparr>\<rparr>"
      note f = node_value_fields[OF \<open>unat pc < 2 ^ 39\<close> prev]
      have "chain n1 ?tot prev acc" if "prev \<noteq> 0"
        using Cons.prems(4) that chain_extends[OF _ p(2) tot(1), of prev acc ?tot] by (simp add: spells_def)
      moreover have "node_value pc prev \<noteq> 0" using False f(1) by (auto simp: node_pc_def)
      moreover have "prev \<noteq> 0 \<Longrightarrow> acc \<noteq> []" using Cons.prems(4) by (auto simp: spells_def)
      ultimately have "spells n1 ?tot i (pc # acc)"
        using p(5)[OF i] Cons.prems(4) f i by (auto simp: spells_def split: if_splits)
      moreover have "st_ok (ust_deconflictTimes ?t) (ust_table ?t)" using Cons.prems(1,2) p(3) by (simp add: st_ok_def)
      ultimately obtain r n2 where "put_pcs pcs ?t i = Some (r, ?t\<lparr>ust_table := (ust_table ?t)\<lparr>st_buf := Some n2\<rparr>\<rparr>)"
        "extends n1 n2" "length n2 = length n1" "n2 ! 0 = n1 ! 0"
        "\<forall>j. r = Some j \<longrightarrow> spells n2 ?tot j (rev (filter (\<lambda>pc. pc \<noteq> 0) pcs) @ pc # acc)"
        using Cons.IH[of ?t n1 i "pc # acc"] Cons.prems(3) by auto
      then show ?thesis using p False i extends_trans[OF p(2)] by (intro exI[of _ r] exI[of _ n2]) auto
    qed
  qed
qed

lemma get_loop_chain:
  assumes "st_buf (ust_table t) = Some nodes" "unat (st_totalNodes (ust_table t)) \<le> length nodes"
    and "chain nodes (unat (st_totalNodes (ust_table t))) i pcs" "length pcs \<le> nr"
  shows "get_loop nr t (Some (nodes ! unat i)) acc = Some (acc @ pcs)"
  using assms(3,4)
proof (induction pcs arbitrary: i nr acc)
  case (Cons pc pcs)
  obtain n where n: "nr = Suc n" using Cons.prems(2) by (cases nr) auto
  let ?j = "node_prevIdx (nodes ! unat i)"
  show ?case
  proof (cases "pcs = []")
    case False
    then have c: "?j \<noteq> 0" "chain nodes (unat (st_totalNodes (ust_table t))) ?j pcs" using Cons.prems(1) by auto
    then have "unat ?j < unat (st_totalNodes (ust_table t))" by (cases pcs) auto
    then have "GetFrame t ?j = Some (Some (nodes ! unat ?j))"
      using assms(1,2) by (simp add: GetFrame_def word_le_nat_alt)
    then show ?thesis using c Cons.IH[OF c(2), of n "acc @ [pc]"] Cons.prems n by simp
  qed (use Cons.prems n in auto)
qed simp

lemma unat_even_nodes:
  assumes "16 dvd unat sz" "unat sz < 2 ^ 32"
  shows "unat (even_nodes (ucast (sz :: u32))) = unat sz div 8"
proof -
  let ?x = "ucast sz div 8 :: u64"
  have x: "unat ?x = unat sz div 8" by (simp add: unat_div_distrib)
  have "even (unat ?x)" using assms(1) unfolding x by (auto elim: dvdE)
  then have "push_bit 1 (drop_bit 1 ?x) = ?x"
    using x assms(2) by (auto simp: push_bit_eq_mult drop_bit_eq_div word_unat_eq_iff unat_div_distrib unat_word_ariths)
  moreover have "unat ?x < 2 ^ 32" using x assms(2) by simp
  ultimately show ?thesis
    using x by (simp add: even_nodes_def unsigned_ucast_eq take_bit_nat_eq_self)
qed

lemma hash_step_le: "unat (hash_step n dt) * (2 * unat dt + 1) \<le> unat n"
proof -
  have d: "unat (ucast dt * 2 + 1 :: u32) = 2 * unat dt + 1"
    using unsigned_less[of dt, where 'a = nat] by (simp add: unat_word_ariths unsigned_ucast_eq take_bit_nat_eq_self)
  show ?thesis by (simp only: hash_step_def unat_ucast_u32 unat_div_distrib d) (rule div_times_less_eq_dividend)
qed

lemma Init_ok:
  assumes "st_buf (ust_table t) = None" "16 dvd unat (st_tableSize (ust_table t))" "Init mapped t = (True, t')"
  shows "st_ok (ust_deconflictTimes t') (ust_table t')"
proof -
  let ?n = "even_nodes (ucast (st_tableSize (ust_table t)))"
  have n: "unat ?n = unat (st_tableSize (ust_table t)) div 8"
    using unat_even_nodes[OF assms(2)] unsigned_less[of "st_tableSize (ust_table t)", where 'a = nat] by simp
  have "even (unat ?n)" unfolding n using assms(2) by (auto elim: dvdE)
  moreover have r: "\<not> MAX_NODES_CNT < ?n" "?n \<noteq> 0"
    using assms(1,3) by (auto simp: Init_def Let_def IsTableValid_def split: if_splits)
  moreover have "unat ?n \<noteq> 0" using r(2) by (simp add: word_unat_eq_iff)
  ultimately have "2 \<le> unat ?n" "unat ?n \<le> 2 ^ 25" by (auto simp: MAX_NODES_CNT_def word_less_nat_alt elim!: evenE)
  moreover have "unat (?n - 1) = unat ?n - 1" using r(2) by (simp add: unat_minus_one)
  ultimately show ?thesis
    using assms(1,3) n hash_step_le[of ?n "ust_deconflictTimes t"] assms(2)
    by (auto simp: Init_def Let_def IsTableValid_def st_ok_def split: if_splits)
qed

lemma Resize_ok:
  assumes "st_ok (ust_deconflictTimes t) (ust_table t)" "Resize mapped t = (True, t')"
  shows "st_ok (ust_deconflictTimes t') (ust_table t')"
    "\<exists>nodes nodes'. st_buf (ust_table t) = Some nodes \<and> st_buf (ust_table t') = Some nodes' \<and> extends nodes nodes' \<and>
      unat (st_totalNodes (ust_table t)) \<le> unat (st_totalNodes (ust_table t'))" "ust_profilerInit t' = ust_profilerInit t"
proof -
  let ?st = "ust_table t"
  let ?sz = "push_bit RESIZE_MULTIPLE (st_tableSize ?st)"
  let ?n = "even_nodes (ucast ?sz)"
  obtain nodes where b: "st_buf ?st = Some nodes" using assms(2) by (auto simp: Resize_def Let_def split: option.splits)
  note inv = assms(1)[unfolded st_ok_def b option.case]
  have m: "\<not> MAX_NODES_CNT < push_bit RESIZE_MULTIPLE (st_totalNodes ?st)" "?n - st_totalNodes ?st \<noteq> 0"
    using assms(2) b by (auto simp: Resize_def Let_def split: if_splits)
  have "unat (push_bit RESIZE_MULTIPLE (st_totalNodes ?st)) = 4 * unat (st_totalNodes ?st)"
    using inv by (simp add: RESIZE_MULTIPLE_def push_bit_eq_mult unat_word_ariths)
  then have tot: "4 * unat (st_totalNodes ?st) \<le> 2 ^ 25" using m(1) by (simp add: MAX_NODES_CNT_def word_less_nat_alt)
  have len: "length nodes = unat (st_totalNodes ?st)" and d16: "16 dvd unat (st_tableSize ?st)" using inv by auto
  have size8: "unat (st_tableSize ?st) = 8 * unat (st_totalNodes ?st)" using inv by (auto elim: dvdE)
  then have sz: "unat ?sz = 4 * unat (st_tableSize ?st)"
    using tot by (simp add: RESIZE_MULTIPLE_def push_bit_eq_mult unat_word_ariths)
  have n: "unat ?n = 4 * unat (st_totalNodes ?st)"
    using unat_even_nodes[of ?sz] d16 sz size8 tot by simp
  have d: "unat (?n - st_totalNodes ?st) = 3 * unat (st_totalNodes ?st)"
    using n by (simp add: unat_sub word_le_nat_alt)
  have p: "2 \<le> unat (st_totalNodes ?st)" using inv by auto
  have ai: "unat (st_availableIndex ?st + st_availableNodes ?st) = unat (st_totalNodes ?st) + 1"
    using inv tot by (simp add: unat_word_ariths)
  have t': "t' = t\<lparr>ust_deconflictTimes := ust_deconflictTimes t + of_nat DECONFLICT_INCREASE_STEP, ust_table :=
      ?st\<lparr>st_buf := Some (nodes @ replicate (unat ?sz div 8 - length nodes) 0), st_tableSize := ?sz,
        st_availableIndex := st_availableIndex ?st + st_availableNodes ?st, st_totalNodes := ?n,
        st_availableNodes := ?n - st_totalNodes ?st, st_hashModulus := ?n - st_totalNodes ?st - 1,
        st_hashStep := hash_step (?n - st_totalNodes ?st) (ust_deconflictTimes t + of_nat DECONFLICT_INCREASE_STEP)\<rparr>\<rparr>"
    using assms(2) b by (auto simp: Resize_def Let_def split: if_splits)
  have d1: "unat (?n - st_totalNodes ?st - 1) = 3 * unat (st_totalNodes ?st) - 1"
    using unat_minus_one[OF m(2)] d by simp
  show "st_ok (ust_deconflictTimes t') (ust_table t')"
    unfolding t' using d16 n d d1 ai p tot sz size8 len
      hash_step_le[of "?n - st_totalNodes ?st" "ust_deconflictTimes t + of_nat DECONFLICT_INCREASE_STEP"]
    by (simp add: st_ok_def)
  show "\<exists>nodes nodes'. st_buf (ust_table t) = Some nodes \<and> st_buf (ust_table t') = Some nodes' \<and> extends nodes nodes' \<and>
      unat (st_totalNodes (ust_table t)) \<le> unat (st_totalNodes (ust_table t'))" "ust_profilerInit t' = ust_profilerInit t"
    using b n by (auto simp: t' extends_def nth_append)
qed

text \<open>Storing and reading a chain, in two halves.\<close>

lemma put_spells:
  assumes "st_ok (ust_deconflictTimes t) (ust_table t)" "\<forall>pc \<in> set pcs. unat pc < 2 ^ 39"
    and "PutPcsInTable stackId pcs t = Some (r, stackId', t')" "st_buf (ust_table t) = Some nodes"
  obtains nodes' where "t' = t\<lparr>ust_table := (ust_table t)\<lparr>st_buf := Some nodes'\<rparr>\<rparr>" "extends nodes nodes'"
    "st_ok (ust_deconflictTimes t') (ust_table t')" "nodes' ! 0 = nodes ! 0"
    "r \<noteq> 0 \<Longrightarrow> stackId' = stack_id r (of_nat (length pcs)) \<and>
      spells nodes' (unat (st_totalNodes (ust_table t))) r (filter (\<lambda>pc. pc \<noteq> 0) pcs)"
proof -
  let ?tot = "unat (st_totalNodes (ust_table t))" and ?pcs = "filter (\<lambda>pc. pc \<noteq> 0) pcs"
  obtain rr n' where p: "put_pcs (rev pcs) t 0 = Some (rr, t\<lparr>ust_table := (ust_table t)\<lparr>st_buf := Some n'\<rparr>\<rparr>)"
    "extends nodes n'" "length n' = length nodes" "n' ! 0 = nodes ! 0" "\<forall>i. rr = Some i \<longrightarrow> spells n' ?tot i ?pcs"
    using put_pcs_ok[OF assms(1,4), of "rev pcs" 0 "[]"] assms(2) by (auto simp: spells_def rev_filter)
  moreover have "st_ok (ust_deconflictTimes t) ((ust_table t)\<lparr>st_buf := Some n'\<rparr>)"
    using assms(1,4) p(3) by (simp add: st_ok_def)
  ultimately show ?thesis
    using that[of n'] assms(3,4) by (auto simp: PutPcsInTable_def IsTableValid_def split: option.splits)
qed

lemma get_spells:
  assumes "st_ok (ust_deconflictTimes t) (ust_table t)" "\<not> ust_profilerInit t" "st_buf (ust_table t) = Some nodes"
    and "spells nodes (unat (st_totalNodes (ust_table t))) r pcs" "r \<noteq> 0" "length pcs \<le> n" "n \<le> 256"
  shows "GetPcsByStackId t (stack_id r (of_nat n)) [] = Some (True, pcs)"
proof -
  let ?tot = "unat (st_totalNodes (ust_table t))"
  have tot: "?tot \<le> length nodes" "?tot \<le> 2 ^ 25" using assms(1,3) by (auto simp: st_ok_def)
  have c: "unat r < ?tot" "chain nodes ?tot r pcs" using assms(4,5) by (auto simp: spells_def)
  have nr: "unat (of_nat n :: u64) = n" using assms(7) by (simp add: unat_of_nat)
  have "id_of (stack_id r (of_nat n)) = r" "nr_of (stack_id r (of_nat n)) = of_nat n"
    using stack_id_fields[of r "of_nat n"] c(1) tot nr assms(7) by auto
  then show ?thesis
    using get_loop_chain[of t nodes r pcs n "[]"] c tot assms nr
    by (simp add: GetPcsByStackId_def collect_pcs_def IsTableValid_def GetFrame_def word_le_nat_alt word_less_nat_alt)
qed

text \<open>A stored stack survives every step.\<close>

lemma step_keeps:
  assumes "table_step t t'" "st_ok (ust_deconflictTimes t) (ust_table t)" "st_buf (ust_table t) = Some nodes"
    and "spells nodes (unat (st_totalNodes (ust_table t))) r pcs" "\<not> ust_profilerInit t"
  shows "st_ok (ust_deconflictTimes t') (ust_table t') \<and> \<not> ust_profilerInit t' \<and>
    (\<exists>nodes'. st_buf (ust_table t') = Some nodes' \<and> spells nodes' (unat (st_totalNodes (ust_table t'))) r pcs)"
proof -
  have tot: "unat (st_totalNodes (ust_table t)) \<le> length nodes" using assms(2,3) by (auto simp: st_ok_def)
  have keep: "spells nodes' tot' r pcs" if "extends nodes nodes'" "unat (st_totalNodes (ust_table t)) \<le> tot'" for nodes' tot'
    using assms(4) chain_extends[OF _ that(1) tot that(2)] that(2) by (auto simp: spells_def split: if_splits)
  from assms(1) show ?thesis
  proof cases
    case (put pcs' sid i sid')
    from put_spells[OF assms(2) put assms(3)] show ?thesis using keep assms(5) by fastforce
  next
    case (resize mapped ok)
    show ?thesis
    proof (cases ok)
      case True
      then show ?thesis using Resize_ok[OF assms(2), of mapped t'] resize assms(3,5) keep by fastforce
    next
      case False
      then have "t' = t" using resize by (auto simp: Resize_def Let_def split: option.splits if_splits)
      then show ?thesis using assms by blast
    qed
  next
    case (init mapped ok)
    then have "t' = t" using assms(3) by (auto simp: Init_def IsTableValid_def)
    then show ?thesis using assms by blast
  qed
qed

lemma steps_keep:
  assumes "table_step\<^sup>*\<^sup>* t t'" "st_ok (ust_deconflictTimes t) (ust_table t)" "st_buf (ust_table t) = Some nodes"
    and "spells nodes (unat (st_totalNodes (ust_table t))) r pcs" "\<not> ust_profilerInit t"
  shows "st_ok (ust_deconflictTimes t') (ust_table t') \<and> \<not> ust_profilerInit t' \<and>
    (\<exists>nodes'. st_buf (ust_table t') = Some nodes' \<and> spells nodes' (unat (st_totalNodes (ust_table t'))) r pcs)"
  using assms by (induction rule: rtranclp_induct) (blast dest: step_keeps)+

lemma sample_ust_ok: "st_ok (ust_deconflictTimes sample_ust) (ust_table sample_ust)"
  by (simp add: sample_ust_def st_ok_def)

lemma put_loop_free:
  "0 < n \<Longrightarrow> unat i < length nodes \<Longrightarrow> nodes ! unat i = 0 \<Longrightarrow> put_loop n st v i nodes = Some (i, nodes[unat i := v])"
  by (cases n) auto

lemma sample_put: "PutPcsInTable 0 [0x14, 0, 0x20] sample_ust = Some (3, stack_id 3 3, sample_ust')"
  by (simp add: PutPcsInTable_def IsTableValid_def PutPcInSlot_def Let_def slot_index_def put_loop_free sample_ust_def sample_ust'_def)

section \<open>Properties\<close>

text \<open>
  C20. What is stored stays readable: if PutPcsInTable on a well-formed table stores a stack of at
  most 256 pcs below \<open>2 ^ 39\<close> and returns a nonzero index, then after any number of further
  insertions, resizes and initialisations GetPcsByStackId with the stack id it filled in returns
  exactly these pcs, in order and without the null entries.
\<close>

theorem stored_stacks_stay:
  assumes "st_ok (ust_deconflictTimes t) (ust_table t)" "\<not> ust_profilerInit t"
    and "\<forall>pc \<in> set pcs. unat pc < 2 ^ 39" "length pcs \<le> 256"
    and "PutPcsInTable stackId pcs t = Some (r, stackId', t')" "r \<noteq> 0" "table_step\<^sup>*\<^sup>* t' t''"
  shows "GetPcsByStackId t'' stackId' [] = Some (True, filter (\<lambda>pc. pc \<noteq> 0) pcs)"
proof -
  obtain nodes where n: "st_buf (ust_table t) = Some nodes"
    using assms(5,6) by (auto simp: PutPcsInTable_def IsTableValid_def split: if_splits)
  obtain nodes' where p: "t' = t\<lparr>ust_table := (ust_table t)\<lparr>st_buf := Some nodes'\<rparr>\<rparr>"
    "st_ok (ust_deconflictTimes t') (ust_table t')" "stackId' = stack_id r (of_nat (length pcs))"
    "spells nodes' (unat (st_totalNodes (ust_table t))) r (filter (\<lambda>pc. pc \<noteq> 0) pcs)"
    by (rule put_spells[OF assms(1,3,5) n]) (use assms(6) in blast)
  have b: "st_buf (ust_table t') = Some nodes'" "\<not> ust_profilerInit t'"
    "spells nodes' (unat (st_totalNodes (ust_table t'))) r (filter (\<lambda>pc. pc \<noteq> 0) pcs)"
    using p(1,4) assms(2) by simp_all
  obtain n2 where "st_ok (ust_deconflictTimes t'') (ust_table t'')" "\<not> ust_profilerInit t''" "st_buf (ust_table t'') = Some n2"
    "spells n2 (unat (st_totalNodes (ust_table t''))) r (filter (\<lambda>pc. pc \<noteq> 0) pcs)"
    using steps_keep[OF assms(7) p(2) b(1,3,2)] by blast
  then show ?thesis
    unfolding p(3) using get_spells assms(4,6) by simp
qed

theorem stored_stacks_stay_witness:
  "GetPcsByStackId (snd (Resize True sample_ust')) (stack_id 3 3) [] = Some (True, [0x14, 0x20])"
proof -
  have "table_step\<^sup>*\<^sup>* sample_ust' (snd (Resize True sample_ust'))"
    by (metis prod.collapse r_into_rtranclp table_step.resize)
  then show ?thesis
    using stored_stacks_stay[OF sample_ust_ok _ _ _ sample_put] by (simp add: sample_ust_def)
qed

text \<open>
  C21. On a well-formed table an insertion never touches memory outside of the buffer, keeps the
  table well formed, never writes the reserved slot 0 and never changes a slot that is in use.
\<close>

theorem PutPcs_safe:
  assumes "st_ok (ust_deconflictTimes t) (ust_table t)" "st_buf (ust_table t) = Some nodes" "\<forall>pc \<in> set pcs. unat pc < 2 ^ 39"
  shows "\<exists>r stackId' t' nodes'. PutPcsInTable stackId pcs t = Some (r, stackId', t') \<and>
    st_ok (ust_deconflictTimes t') (ust_table t') \<and> st_buf (ust_table t') = Some nodes' \<and>
    nodes' ! 0 = nodes ! 0 \<and> extends nodes nodes'"
proof -
  obtain rr n' where p: "put_pcs (rev pcs) t 0 = Some (rr, t\<lparr>ust_table := (ust_table t)\<lparr>st_buf := Some n'\<rparr>\<rparr>)"
    using put_pcs_ok[OF assms(1,2), of "rev pcs" 0 "[]"] assms(3) by (auto simp: spells_def)
  then obtain r stackId' t' where q: "PutPcsInTable stackId pcs t = Some (r, stackId', t')"
    using assms(2) by (cases rr) (auto simp: PutPcsInTable_def IsTableValid_def)
  from put_spells[OF assms(1,3) q assms(2)] show ?thesis using q by fastforce
qed

theorem PutPcs_safe_witness:
  "\<exists>r stackId' t'. PutPcsInTable 0 [0x14, 0, 0x20] sample_ust = Some (r, stackId', t') \<and>
    st_ok (ust_deconflictTimes t') (ust_table t')"
  using PutPcs_safe[OF sample_ust_ok, of "[0, 0, 0, 0, 0, 0, 0, 0]" "[0x14, 0, 0x20]" 0] by (auto simp: sample_ust_def)

text \<open>
  C22. ImportNode compares the index with the size of the table in bytes: on a well-formed table
  every index between the number of nodes and that size passes the check and makes it write
  outside of the buffer.
\<close>

theorem ImportNode_overflow:
  assumes "st_ok (ust_deconflictTimes t) (ust_table t)" "st_buf (ust_table t) = Some nodes"
    and "st_totalNodes (ust_table t) \<le> idx" "idx < st_tableSize (ust_table t)"
  shows "ImportNode idx v t = None"
  using assms by (auto simp: ImportNode_def st_ok_def word_le_nat_alt word_less_nat_alt)

theorem ImportNode_overflow_witness:
  "ImportNode 8 1 sample_ust = None"
  using ImportNode_overflow[OF sample_ust_ok, of _ 8 1] by (simp add: sample_ust_def)

text \<open>
  A failed switch to an external buffer loses the table: with a buffer smaller than two nodes,
  InitWithExternalBuffer reports failure, but the valid table it swapped out is gone from both the
  object and the snapshot.
\<close>

theorem external_buffer_loses_table:
  assumes "IsTableValid t" "ust_snapshot t = None" "sz < 16"
  shows "\<exists>t'. SwitchExternalBuffer (Some buf) sz t = (False, t') \<and> \<not> IsTableValid t' \<and> ust_snapshot t' = None \<and>
    SwitchExternalBuffer None 0 t' = (False, t')"
proof -
  have "unat (sz div 8) < 2" using assms(3) by (simp add: unat_div_distrib word_less_nat_alt)
  then have "drop_bit 1 (sz div 8) = 0" by (simp add: drop_bit_eq_div word_unat_eq_iff unat_div_distrib)
  then have "even_nodes sz = 0" by (simp add: even_nodes_def)
  then show ?thesis
    using assms by (simp add: SwitchExternalBuffer_def InitWithExternalBuffer_def Let_def IsTableValid_def StackTable_init_def MAX_NODES_CNT_def)
qed

theorem external_buffer_loses_table_witness:
  "\<exists>t'. SwitchExternalBuffer (Some [0]) 8 sample_ust = (False, t') \<and> \<not> IsTableValid t' \<and> ust_snapshot t' = None"
  using external_buffer_loses_table[of sample_ust 8 "[0]"] by (auto simp: sample_ust_def IsTableValid_def)

end
