(* ===== verification/Std_List.thy ===== *)
theory Std_List
  imports Prelude "HOL-Library.Multiset"
begin

text \<open>
  The algorithms of \<^verbatim>\<open>std::list\<close> that the daemon's registries and queues are written with:
  erasing or updating the element an iterator from \<^verbatim>\<open>find_if\<close> points to, and inserting before it.
  \<^verbatim>\<open>find_if\<close> itself is \<^const>\<open>List.find\<close> and \<^verbatim>\<open>remove_if\<close> is \<^const>\<open>filter\<close> with the predicate negated.
  The lemmas say what these operations do to sortedness, distinctness and membership.
\<close>

section \<open>Operations\<close>

fun erase_first :: "('a \<Rightarrow> bool) \<Rightarrow> 'a list \<Rightarrow> 'a list" where
  "erase_first P [] = []"
| "erase_first P (x # xs) = (if P x then xs else x # erase_first P xs)"

fun update_first :: "('a \<Rightarrow> bool) \<Rightarrow> ('a \<Rightarrow> 'a) \<Rightarrow> 'a list \<Rightarrow> 'a list" where
  "update_first P f [] = []"
| "update_first P f (x # xs) = (if P x then f x # xs else x # update_first P f xs)"

definition insert_before :: "('a \<Rightarrow> bool) \<Rightarrow> 'a \<Rightarrow> 'a list \<Rightarrow> 'a list" where
  "insert_before P x xs = takeWhile (\<lambda>y. \<not> P y) xs @ x # dropWhile (\<lambda>y. \<not> P y) xs"

definition remove_if :: "('a \<Rightarrow> bool) \<Rightarrow> 'a list \<Rightarrow> 'a list" where
  "remove_if P xs = filter (\<lambda>x. \<not> P x) xs"

section \<open>Membership\<close>

lemma set_insert_before [simp]: "set (insert_before P x xs) = insert x (set xs)"
proof -
  have "set xs = set (takeWhile (\<lambda>y. \<not> P y) xs) \<union> set (dropWhile (\<lambda>y. \<not> P y) xs)"
    by (metis set_append takeWhile_dropWhile_id)
  then show ?thesis by (auto simp: insert_before_def)
qed

lemma mset_insert_before [simp]: "mset (insert_before P x xs) = add_mset x (mset xs)"
proof -
  have "mset xs = mset (takeWhile (\<lambda>y. \<not> P y) xs) + mset (dropWhile (\<lambda>y. \<not> P y) xs)"
    by (metis mset_append takeWhile_dropWhile_id)
  then show ?thesis by (simp add: insert_before_def)
qed

lemma length_insert_before [simp]: "length (insert_before P x xs) = Suc (length xs)"
  by (metis mset_insert_before size_add_mset size_mset)

lemma set_erase_first: "set (erase_first P xs) \<subseteq> set xs"
  by (induction xs) auto

lemma mset_erase_first: "mset (erase_first P xs) \<subseteq># mset xs"
  by (induction xs) (auto intro: subset_mset.order_trans)

lemma erase_first_none [simp]: "\<forall>x \<in> set xs. \<not> P x \<Longrightarrow> erase_first P xs = xs"
  by (induction xs) auto

lemma set_remove_if [simp]: "set (remove_if P xs) = {x \<in> set xs. \<not> P x}"
  by (simp add: remove_if_def)

lemma remove_if_Nil [simp]: "remove_if P [] = []"
  by (simp add: remove_if_def)

lemma remove_if_Cons [simp]: "remove_if P (x # xs) = (if P x then remove_if P xs else x # remove_if P xs)"
  by (simp add: remove_if_def)

lemma length_remove_if: "length (remove_if P xs) \<le> length xs"
  by (simp add: remove_if_def)

lemma length_erase_first: "length (erase_first P xs) \<le> length xs"
  by (induction xs) auto

lemma length_update_first [simp]: "length (update_first P f xs) = length xs"
  by (induction xs) auto

section \<open>Order\<close>

lemma sorted_insert_before:
  assumes "sorted (map f xs)"
  shows "sorted (map f (insert_before (\<lambda>y. f x < f y) x xs))"
  using assms
proof (induction xs)
  case (Cons y ys)
  then show ?case by (auto simp: insert_before_def dest: set_takeWhileD set_dropWhileD)
qed (simp add: insert_before_def)

lemma sorted_erase_first: "sorted (map f xs) \<Longrightarrow> sorted (map f (erase_first P xs))"
proof (induction xs)
  case (Cons x xs)
  then show ?case using set_erase_first[of P xs] by auto
qed simp

lemma sorted_remove_if: "sorted (map f xs) \<Longrightarrow> sorted (map f (remove_if P xs))"
  by (simp add: remove_if_def sorted_filter)

section \<open>Keys\<close>

text \<open>A list of records with a key; the lists are searched from the front by key.\<close>

lemma find_key_append [simp]: "List.find P (xs @ [x]) = (case List.find P xs of None \<Rightarrow> if P x then Some x else None | Some y \<Rightarrow> Some y)"
  by (induction xs) auto

lemma find_remove_if: "List.find (\<lambda>x. key x = k) (remove_if (\<lambda>x. key x = k') xs) =
    (if k = k' then None else List.find (\<lambda>x. key x = k) xs)"
  by (induction xs) auto

lemma find_SomeD: "List.find P xs = Some x \<Longrightarrow> x \<in> set xs \<and> P x"
  by (induction xs) (auto split: if_splits)

lemma find_NoneD: "List.find P xs = None \<longleftrightarrow> (\<forall>x \<in> set xs. \<not> P x)"
  by (induction xs) auto

lemma find_update_first:
  assumes "\<And>x. key (f x) = key x"
  shows "List.find (\<lambda>x. key x = k) (update_first (\<lambda>x. key x = k') f xs) =
    (if k = k' then map_option f (List.find (\<lambda>x. key x = k) xs) else List.find (\<lambda>x. key x = k) xs)"
  using assms by (induction xs) auto

lemma map_key_update_first: "(\<And>x. key (f x) = key x) \<Longrightarrow> map key (update_first P f xs) = map key xs"
  by (induction xs) auto

lemma distinct_key_append:
  "distinct (map key xs) \<Longrightarrow> List.find (\<lambda>x. key x = key y) xs = None \<Longrightarrow> distinct (map key (xs @ [y]))"
  by (auto simp: find_NoneD)

lemma distinct_key_remove_if: "distinct (map key xs) \<Longrightarrow> distinct (map key (remove_if P xs))"
  by (induction xs) auto

lemma distinct_key_erase_first: "distinct (map key xs) \<Longrightarrow> distinct (map key (erase_first P xs))"
proof (induction xs)
  case (Cons x xs)
  then show ?case using set_erase_first[of P xs] by auto
qed simp

lemma erase_first_distinct:
  "distinct (map key xs) \<Longrightarrow> erase_first (\<lambda>x. key x = k) xs = remove_if (\<lambda>x. key x = k) xs"
proof (induction xs)
  case (Cons x xs)
  have "remove_if (\<lambda>x. key x = k) xs = xs" if "key x = k"
    using Cons.prems that by (auto simp: remove_if_def filter_id_conv image_iff)
  with Cons show ?case by auto
qed simp

end
