(* ===== verification/Pipes.thy ===== *)
theory Pipes
  imports Std_List
begin

text \<open>
  The pipes a dump travels through, \<^verbatim>\<open>src/services/fault_logger_pipe.cpp\<close>: the write-once pipe, the
  three kinds of pipe pairs and their process-wide lists.  The result of \<^verbatim>\<open>pipe2\<close> is a parameter,
  \<^term>\<open>None\<close> when it fails.  The three lists meet one interface, the locale \<open>pipe_registry\<close>, and are its
  interpretations.
\<close>

section \<open>A pipe\<close>

record FaultLoggerPipe =
  fp_write :: bool
  fp_readFd :: int
  fp_writeFd :: int

type_synonym pipe_fds = "(int \<times> int) option"

definition FaultLoggerPipe_new :: "pipe_fds \<Rightarrow> FaultLoggerPipe" where
  "FaultLoggerPipe_new fds =
    (case fds of
       None \<Rightarrow> \<lparr>fp_write = False, fp_readFd = - 1, fp_writeFd = - 1\<rparr>
     | Some (r, w) \<Rightarrow> \<lparr>fp_write = False, fp_readFd = r, fp_writeFd = w\<rparr>)"

definition GetReadFd :: "FaultLoggerPipe \<Rightarrow> int" where
  "GetReadFd p = fp_readFd p"

definition GetWriteFd :: "FaultLoggerPipe \<Rightarrow> int \<times> FaultLoggerPipe" where
  "GetWriteFd p = (if fp_write p then (- 1, p) else (fp_writeFd p, p\<lparr>fp_write := True\<rparr>))"

section \<open>Pairs of pipes\<close>

text \<open>\<^verbatim>\<open>FaultLoggerPipeType\<close> travels as an \<^verbatim>\<open>int8_t\<close>, so that other values occur.\<close>

datatype PipeFdUsage = BUFFER_FD | RESULT_FD

definition PIPE_FD_READ :: int where "PIPE_FD_READ = 0"
definition PIPE_FD_WRITE :: int where "PIPE_FD_WRITE = 1"
definition PIPE_FD_DELETE :: int where "PIPE_FD_DELETE = 2"

lemmas PIPE_FD_defs = PIPE_FD_READ_def PIPE_FD_WRITE_def PIPE_FD_DELETE_def

record PipePair =
  pp_Buf :: FaultLoggerPipe
  pp_Res :: FaultLoggerPipe

definition pipe_fd :: "int \<Rightarrow> FaultLoggerPipe \<Rightarrow> int \<times> FaultLoggerPipe" where
  "pipe_fd pipeType p =
    (if pipeType = PIPE_FD_READ then (GetReadFd p, p)
     else if pipeType = PIPE_FD_WRITE then GetWriteFd p
     else (- 1, p))"

definition GetPipeFd :: "PipeFdUsage \<Rightarrow> int \<Rightarrow> 'm PipePair_scheme \<Rightarrow> int \<times> 'm PipePair_scheme" where
  "GetPipeFd usage pipeType pair =
    (case usage of
       BUFFER_FD \<Rightarrow> (let (fd, p) = pipe_fd pipeType (pp_Buf pair) in (fd, pair\<lparr>pp_Buf := p\<rparr>))
     | RESULT_FD \<Rightarrow> (let (fd, p) = pipe_fd pipeType (pp_Res pair) in (fd, pair\<lparr>pp_Res := p\<rparr>)))"

section \<open>Pairs for the dump of a process\<close>

record FaultLoggerPipePair = PipePair +
  sp_pid :: int
  sp_requestTime :: u64

definition pipeTimeOut :: u64 where "pipeTimeOut = 10000"

definition IsValid :: "FaultLoggerPipePair \<Rightarrow> u64 \<Rightarrow> bool" where
  "IsValid p checkTime \<longleftrightarrow> checkTime \<le> sp_requestTime p + pipeTimeOut"

definition GetSdkDumpPipePair :: "int \<Rightarrow> FaultLoggerPipePair list \<Rightarrow> FaultLoggerPipePair option" where
  "GetSdkDumpPipePair pid pipes = List.find (\<lambda>p. sp_pid p = pid) pipes"

definition CreateSdkDumpPipePair ::
    "(pipe_fds \<times> pipe_fds) \<times> u64 \<Rightarrow> int \<Rightarrow> FaultLoggerPipePair list \<Rightarrow> FaultLoggerPipePair list" where
  "CreateSdkDumpPipePair arg pid pipes =
    (case arg of ((b, r), requestTime) \<Rightarrow>
      if GetSdkDumpPipePair pid pipes \<noteq> None then pipes
      else pipes @ [\<lparr>pp_Buf = FaultLoggerPipe_new b, pp_Res = FaultLoggerPipe_new r, sp_pid = pid, sp_requestTime = requestTime\<rparr>])"

definition CheckSdkDumpRecord :: "int \<Rightarrow> u64 \<Rightarrow> FaultLoggerPipePair list \<Rightarrow> bool \<times> FaultLoggerPipePair list" where
  "CheckSdkDumpRecord pid checkTime pipes =
    (case List.find (\<lambda>p. sp_pid p = pid) pipes of
       None \<Rightarrow> (False, pipes)
     | Some p \<Rightarrow> if IsValid p checkTime then (True, pipes) else (False, erase_first (\<lambda>p. sp_pid p = pid) pipes))"

definition DelSdkDumpPipePair :: "int \<Rightarrow> FaultLoggerPipePair list \<Rightarrow> FaultLoggerPipePair list" where
  "DelSdkDumpPipePair pid pipes = remove_if (\<lambda>p. sp_pid p = pid) pipes"

section \<open>Pairs for light profiling\<close>

record LitePerfPipePair = PipePair +
  lp_uid :: int
  lp_timeOutTime :: u64

definition MAX_LITE_PERF_PIPE_SIZE :: nat where "MAX_LITE_PERF_PIPE_SIZE = 100"

definition GetPerfPipePair :: "int \<Rightarrow> LitePerfPipePair list \<Rightarrow> LitePerfPipePair option" where
  "GetPerfPipePair uid pipes = List.find (\<lambda>p. lp_uid p = uid) pipes"

definition CreatePerfPipePair ::
    "(pipe_fds \<times> pipe_fds) \<times> u64 \<Rightarrow> int \<Rightarrow> LitePerfPipePair list \<Rightarrow> LitePerfPipePair list" where
  "CreatePerfPipePair arg uid pipes =
    (case arg of ((b, r), timeOutTime) \<Rightarrow>
      if GetPerfPipePair uid pipes \<noteq> None then pipes
      else pipes @ [\<lparr>pp_Buf = FaultLoggerPipe_new b, pp_Res = FaultLoggerPipe_new r, lp_uid = uid, lp_timeOutTime = timeOutTime\<rparr>])"

definition CheckDumpMax :: "LitePerfPipePair list \<Rightarrow> bool" where
  "CheckDumpMax pipes \<longleftrightarrow> MAX_LITE_PERF_PIPE_SIZE < length pipes"

definition CheckPerfDumpRecord :: "int \<Rightarrow> LitePerfPipePair list \<Rightarrow> bool" where
  "CheckPerfDumpRecord uid pipes \<longleftrightarrow> List.find (\<lambda>p. lp_uid p = uid) pipes \<noteq> None"

definition DelPerfPipePair :: "int \<Rightarrow> LitePerfPipePair list \<Rightarrow> LitePerfPipePair list" where
  "DelPerfPipePair uid pipes = remove_if (\<lambda>p. lp_uid p = uid) pipes"

definition ClearTimeOutPairs :: "u64 \<Rightarrow> LitePerfPipePair list \<Rightarrow> LitePerfPipePair list" where
  "ClearTimeOutPairs currentTime pipes = remove_if (\<lambda>p. lp_timeOutTime p \<le> currentTime) pipes"

section \<open>Pipes of limited processes\<close>

record LimitedPipePair =
  li_pid :: int
  li_Buf :: FaultLoggerPipe

definition GetLimitedPipeFd :: "int \<Rightarrow> LimitedPipePair \<Rightarrow> int \<times> LimitedPipePair" where
  "GetLimitedPipeFd pipeType p = (let (fd, b) = pipe_fd pipeType (li_Buf p) in (fd, p\<lparr>li_Buf := b\<rparr>))"

definition GetLimitedPipePair :: "int \<Rightarrow> LimitedPipePair list \<Rightarrow> LimitedPipePair option" where
  "GetLimitedPipePair pid pipes = List.find (\<lambda>p. li_pid p = pid) pipes"

definition CreateLimitedPipePair :: "pipe_fds \<Rightarrow> int \<Rightarrow> LimitedPipePair list \<Rightarrow> LimitedPipePair list" where
  "CreateLimitedPipePair fds pid pipes =
    (if GetLimitedPipePair pid pipes \<noteq> None then pipes
     else pipes @ [\<lparr>li_pid = pid, li_Buf = FaultLoggerPipe_new fds\<rparr>])"

definition CheckLimitedDumpRecord :: "int \<Rightarrow> LimitedPipePair list \<Rightarrow> bool" where
  "CheckLimitedDumpRecord pid pipes \<longleftrightarrow> List.find (\<lambda>p. li_pid p = pid) pipes \<noteq> None"

definition DelLimitedPipePair :: "int \<Rightarrow> LimitedPipePair list \<Rightarrow> LimitedPipePair list" where
  "DelLimitedPipePair pid pipes = remove_if (\<lambda>p. li_pid p = pid) pipes"

section \<open>The interface of the three lists\<close>

text \<open>
  A registry keeps at most one pair per key.  A client finds the pair it created until it deletes
  it, and never disturbs the pairs of other keys.
\<close>

locale pipe_registry =
  fixes key :: "'x \<Rightarrow> int"
    and get :: "int \<Rightarrow> 'x list \<Rightarrow> 'x option"
    and create :: "'i \<Rightarrow> int \<Rightarrow> 'x list \<Rightarrow> 'x list"
    and del :: "int \<Rightarrow> 'x list \<Rightarrow> 'x list"
  assumes get_member: "get k xs = Some x \<Longrightarrow> x \<in> set xs \<and> key x = k"
    and get_key: "distinct (map key xs) \<Longrightarrow> x \<in> set xs \<Longrightarrow> get (key x) xs = Some x"
    and get_create: "get k' (create i k xs) = None \<longleftrightarrow> get k' xs = None \<and> k' \<noteq> k"
    and get_create_old: "get k' xs = Some x \<Longrightarrow> get k' (create i k xs) = Some x"
    and get_del: "get k' (del k xs) = (if k' = k then None else get k' xs)"
    and distinct_create: "distinct (map key xs) \<Longrightarrow> distinct (map key (create i k xs))"
    and distinct_del: "distinct (map key xs) \<Longrightarrow> distinct (map key (del k xs))"
    and length_create: "length (create i k xs) = (if get k xs = None then Suc (length xs) else length xs)"
begin

lemma created: "\<exists>x. get k (create i k xs) = Some x \<and> key x = k"
  using get_create[of k i k xs] get_member by (cases "get k (create i k xs)") auto

lemma create_twice: "length (create j k (create i k xs)) = length (create i k xs)"
  using get_create[of k i k xs] by (simp add: length_create)

lemma one_per_key:
  assumes "distinct (map key xs)" "x \<in> set xs" "y \<in> set xs" "key x = key y"
  shows "x = y"
  using get_key[OF assms(1,2)] unfolding assms(4) get_key[OF assms(1,3)] by simp

lemma deleted: "x \<in> set (del k xs) \<Longrightarrow> distinct (map key xs) \<Longrightarrow> key x \<noteq> k"
  using get_key[OF distinct_del, of xs x k] get_del[of "key x" k xs] by auto

lemma create_other: "k' \<noteq> k \<Longrightarrow> get k' (create i k xs) = get k' xs"
  using get_create[of k' i k xs] get_create_old[of k' xs] by (cases "get k' xs") auto

end

lemma find_distinct: "distinct (map key xs) \<Longrightarrow> x \<in> set xs \<Longrightarrow> List.find (\<lambda>y. key y = key x) xs = Some x"
  by (induction xs) auto

text \<open>A list searched from the front that grows at the end is a registry.\<close>

lemma keyed_list_registry:
  assumes new: "\<And>i k. key (new i k) = k"
    and get: "\<And>k xs. get k xs = List.find (\<lambda>x. key x = k) xs"
    and create: "\<And>i k xs. create i k xs = (if List.find (\<lambda>x. key x = k) xs = None then xs @ [new i k] else xs)"
    and del: "\<And>k xs. del k xs = remove_if (\<lambda>x. key x = k) xs"
  shows "pipe_registry key get create del"
proof
  fix k k' :: int and xs x i
  show "get k xs = Some x \<Longrightarrow> x \<in> set xs \<and> key x = k" unfolding get by (rule find_SomeD)
  show "distinct (map key xs) \<Longrightarrow> x \<in> set xs \<Longrightarrow> get (key x) xs = Some x" unfolding get by (rule find_distinct)
  show "(get k' (create i k xs) = None) = (get k' xs = None \<and> k' \<noteq> k)"
    unfolding get create using new by (auto simp: find_NoneD)
  show "get k' xs = Some x \<Longrightarrow> get k' (create i k xs) = Some x" unfolding get create by simp
  show "get k' (del k xs) = (if k' = k then None else get k' xs)" unfolding get del by (rule find_remove_if)
  show "distinct (map key xs) \<Longrightarrow> distinct (map key (create i k xs))"
    unfolding create using distinct_key_append[of key xs "new i k"] new by simp
  show "distinct (map key xs) \<Longrightarrow> distinct (map key (del k xs))" unfolding del by (rule distinct_key_remove_if)
  show "length (create i k xs) = (if get k xs = None then Suc (length xs) else length xs)" unfolding get create by simp
qed

interpretation sdk: pipe_registry sp_pid GetSdkDumpPipePair CreateSdkDumpPipePair DelSdkDumpPipePair
  by (rule keyed_list_registry[where new = "\<lambda>((b, r), t) k.
      \<lparr>pp_Buf = FaultLoggerPipe_new b, pp_Res = FaultLoggerPipe_new r, sp_pid = k, sp_requestTime = t\<rparr>"])
    (auto simp: GetSdkDumpPipePair_def CreateSdkDumpPipePair_def DelSdkDumpPipePair_def split: prod.split)

interpretation perf: pipe_registry lp_uid GetPerfPipePair CreatePerfPipePair DelPerfPipePair
  by (rule keyed_list_registry[where new = "\<lambda>((b, r), t) k.
      \<lparr>pp_Buf = FaultLoggerPipe_new b, pp_Res = FaultLoggerPipe_new r, lp_uid = k, lp_timeOutTime = t\<rparr>"])
    (auto simp: GetPerfPipePair_def CreatePerfPipePair_def DelPerfPipePair_def split: prod.split)

interpretation limited: pipe_registry li_pid GetLimitedPipePair CreateLimitedPipePair DelLimitedPipePair
  by (rule keyed_list_registry[where new = "\<lambda>fds k. \<lparr>li_pid = k, li_Buf = FaultLoggerPipe_new fds\<rparr>"])
    (auto simp: GetLimitedPipePair_def CreateLimitedPipePair_def DelLimitedPipePair_def)

section \<open>Write once\<close>

lemma GetWriteFd_once: "GetWriteFd (snd (GetWriteFd p)) = (- 1, snd (GetWriteFd p))"
  by (simp add: GetWriteFd_def)

end
