(* ===== verification/Epoll.thy ===== *)
theory Epoll
  imports Std_List
begin

text \<open>
  The event loop of the daemon: \<^verbatim>\<open>EpollManager\<close> with its listeners, \<^verbatim>\<open>DelayTaskQueue\<close> and
  \<^verbatim>\<open>PeriodicTaskQueue\<close> (\<^verbatim>\<open>src/services/epoll_manager.cpp\<close>).  The three are thread-local singletons, so
  a thread's state is one record that the services extend with their own fields; every operation here
  works on any such extension.

  The kernel is a parameter: \<open>Os\<close> holds its answers during one operation.  A work function
  is a value of the type \<open>'t\<close> that the services choose, and executing it is a parameter of the timer.
\<close>

section \<open>Answers of the kernel\<close>

text \<open>
  \<^verbatim>\<open>GetMicroSecondsSinceBoot\<close>, the descriptor from \<^verbatim>\<open>timerfd_create\<close>, whether \<^verbatim>\<open>timerfd_settime\<close>
  succeeds, and whether \<^verbatim>\<open>epoll_ctl\<close> succeeds on a descriptor.
\<close>

record Os =
  os_now :: u64
  os_timerfd :: int
  os_settime :: bool
  os_ctl :: "int \<Rightarrow> bool"

definition MS_PER_S :: u64 where "MS_PER_S = 1000"
definition US_PER_MS :: u64 where "US_PER_MS = 1000"
definition NS_PER_US :: u64 where "NS_PER_US = 1000"
definition NS_PER_S :: u64 where "NS_PER_S = MS_PER_S * US_PER_MS * NS_PER_US"
definition TIMESTAMP_BITS :: nat where "TIMESTAMP_BITS = 60"
definition TIMESTAMP_MASK :: u64 where "TIMESTAMP_MASK = push_bit TIMESTAMP_BITS 1 - 1"

section \<open>Listeners\<close>

text \<open>The classes derived from \<^verbatim>\<open>EpollListener\<close>, with the members their handlers and destructors use.\<close>

datatype EventResult = KEEP | REMOVE

datatype ListenerKind =
    Executor
  | TimerTaskAdapter
  | ReadKernelSnapshotTask
  | SocketServerListener string
  | ClientRequestListener string u32
  | TempFileListener
  | TempFileWatcher
  | PidFdListener int
  | PDumpListener

record EpollListener =
  el_fd :: int
  el_timeoutTime :: int
  el_kind :: ListenerKind

definition NO_TIMEOUT :: int where "NO_TIMEOUT = 2 ^ 63 - 1"

definition EpollListener_new :: "u64 \<Rightarrow> int \<Rightarrow> int \<Rightarrow> ListenerKind \<Rightarrow> EpollListener" where
  "EpollListener_new now fd timeoutInMs kind =
    \<lparr>el_fd = fd, el_timeoutTime = (if 0 \<le> timeoutInMs then sint now + timeoutInMs * 1000 else NO_TIMEOUT), el_kind = kind\<rparr>"

record EpollManager =
  em_listeners :: "EpollListener list"
  em_eventFd :: int

definition AddEpollEvent :: "Os \<Rightarrow> EpollListener \<Rightarrow> 'm EpollManager_scheme \<Rightarrow> bool" where
  "AddEpollEvent os l s \<longleftrightarrow> 0 \<le> em_eventFd s \<and> os_ctl os (el_fd l)"

definition DelEpollEvent :: "Os \<Rightarrow> int \<Rightarrow> 'm EpollManager_scheme \<Rightarrow> bool" where
  "DelEpollEvent os fd s \<longleftrightarrow> 0 \<le> em_eventFd s \<and> os_ctl os fd"

text \<open>A listener that is not added is destroyed by the caller.\<close>

definition AddListener :: "Os \<Rightarrow> EpollListener \<Rightarrow> 'm EpollManager_scheme \<Rightarrow> bool \<times> 'm EpollManager_scheme" where
  "AddListener os l s =
    (if el_fd l < 0 \<or> \<not> AddEpollEvent os l s then (False, s)
     else (True, s\<lparr>em_listeners := insert_before (\<lambda>x. el_timeoutTime l < el_timeoutTime x) l (em_listeners s)\<rparr>))"

definition RemoveListener :: "Os \<Rightarrow> int \<Rightarrow> 'm EpollManager_scheme \<Rightarrow> bool \<times> 'm EpollManager_scheme" where
  "RemoveListener os fd s =
    (if fd < 0 \<or> \<not> DelEpollEvent os fd s then (False, s)
     else (True, s\<lparr>em_listeners := remove_if (\<lambda>x. el_fd x = fd) (em_listeners s)\<rparr>))"

definition GetTargetListener :: "int \<Rightarrow> 'm EpollManager_scheme \<Rightarrow> EpollListener option" where
  "GetTargetListener fd s = List.find (\<lambda>x. el_fd x = fd) (em_listeners s)"

text \<open>The timeout of \<^verbatim>\<open>epoll_wait\<close> in milliseconds; the quotient is cut to 32 bits.\<close>

definition minCheckTime :: int where "minCheckTime = 30 * 1000"

definition GetNextWaitTime :: "Os \<Rightarrow> 'm EpollManager_scheme \<Rightarrow> int" where
  "GetNextWaitTime os s =
    (case em_listeners s of
       [] \<Rightarrow> - 1
     | l # _ \<Rightarrow>
         if el_timeoutTime l = NO_TIMEOUT then - 1
         else
           (let nextWaitTime = el_timeoutTime l - sint (os_now os)
            in if nextWaitTime < 0 then 0
               else min (sint (word_of_int (nextWaitTime div 1000) :: u32)) minCheckTime))"

text \<open>\<^verbatim>\<open>OnTimeOut\<close> only logs in every listener; then the listener at the front is removed.\<close>

definition HandleTimeOut :: "Os \<Rightarrow> 'm EpollManager_scheme \<Rightarrow> 'm EpollManager_scheme" where
  "HandleTimeOut os s =
    (case em_listeners s of
       [] \<Rightarrow> s
     | l # _ \<Rightarrow> if el_timeoutTime l \<le> uint (os_now os) then snd (RemoveListener os (el_fd l) s) else s)"

definition Init_epoll :: "int \<Rightarrow> 'm EpollManager_scheme \<Rightarrow> bool \<times> 'm EpollManager_scheme" where
  "Init_epoll fd s = (0 \<le> fd, s\<lparr>em_eventFd := fd\<rparr>)"

definition StopEpoll :: "'m EpollManager_scheme \<Rightarrow> 'm EpollManager_scheme" where
  "StopEpoll s = (if 0 \<le> em_eventFd s then s\<lparr>em_eventFd := - 1\<rparr> else s)"

section \<open>Delayed tasks\<close>

text \<open>
  A work function is either the closure of \<^verbatim>\<open>PeriodicTaskQueue::ScheduleNextTask\<close> or one of the
  services.  \<^verbatim>\<open>executor_\<close> is the descriptor of the executor's timer; \<open>dq_timers\<close> holds the delay and
  the interval in nanoseconds last set on each timer.
\<close>

datatype 't DelayTask = Periodic_Execute | Task 't

record 't DelayTaskQueue = EpollManager +
  dq_executor :: "int option"
  dq_delayTasks :: "(u64 \<times> 't DelayTask) list"
  dq_delaySequence :: u8
  dq_timers :: "int \<Rightarrow> (u64 \<times> u64) option"

definition SetTimeOptionForTimeFd ::
    "Os \<Rightarrow> int \<Rightarrow> u64 \<Rightarrow> u64 \<Rightarrow> ('t, 'm) DelayTaskQueue_scheme \<Rightarrow> bool \<times> ('t, 'm) DelayTaskQueue_scheme" where
  "SetTimeOptionForTimeFd os fd delayTimeInNs intervalTimeInNs s =
    (if fd < 0 \<or> \<not> os_settime os then (False, s)
     else (True, s\<lparr>dq_timers := (dq_timers s)(fd \<mapsto> (delayTimeInNs, intervalTimeInNs))\<rparr>))"

definition InitExecutor :: "Os \<Rightarrow> u32 \<Rightarrow> ('t, 'm) DelayTaskQueue_scheme \<Rightarrow> bool \<times> ('t, 'm) DelayTaskQueue_scheme" where
  "InitExecutor os delayTimeInS s =
    (let fd = os_timerfd os;
         (ok, s1) = SetTimeOptionForTimeFd os fd (ucast delayTimeInS * NS_PER_S) NS_PER_S s
     in if \<not> ok then (False, s)
        else
          (case AddListener os (EpollListener_new (os_now os) fd (- 1) Executor) s1 of
             (True, s2) \<Rightarrow> (True, s2\<lparr>dq_executor := Some fd\<rparr>)
           | (False, s2) \<Rightarrow> (False, s2\<lparr>dq_executor := None\<rparr>)))"

definition task_time :: "u64 \<Rightarrow> u64" where
  "task_time delayTaskId = delayTaskId AND TIMESTAMP_MASK"

definition CalculateDelayTaskId :: "u8 \<Rightarrow> u64 \<Rightarrow> u64" where
  "CalculateDelayTaskId delaySequence executeTimeInMicroSecond =
    push_bit TIMESTAMP_BITS (ucast delaySequence) OR executeTimeInMicroSecond"

definition AddDelayTask ::
    "Os \<Rightarrow> 't DelayTask \<Rightarrow> u32 \<Rightarrow> ('t, 'm) DelayTaskQueue_scheme \<Rightarrow> u64 \<times> ('t, 'm) DelayTaskQueue_scheme" where
  "AddDelayTask os workFunc delayTimeInS s =
    (if delayTimeInS = 0 then (0, s)
     else
       (let (ok, s1) = (if dq_executor s = None then InitExecutor os delayTimeInS s else (True, s))
        in if \<not> ok then (0, s1)
           else if os_now os = 0 then (0, s1)
           else
             (let delayTimeInMicroSeconds = ucast delayTimeInS * MS_PER_S * US_PER_MS;
                  executeTimeInMicroSecond = os_now os + delayTimeInMicroSeconds;
                  later = (\<lambda>x. executeTimeInMicroSecond < task_time (fst x));
                  atBegin = (case dq_delayTasks s1 of [] \<Rightarrow> True | x # _ \<Rightarrow> later x);
                  s2 = (if atBegin then
                          snd (SetTimeOptionForTimeFd os (the (dq_executor s1)) (delayTimeInMicroSeconds * NS_PER_US) NS_PER_S s1)
                        else s1);
                  delayTaskId = CalculateDelayTaskId (dq_delaySequence s2) executeTimeInMicroSecond
              in (delayTaskId,
                  s2\<lparr>dq_delaySequence := dq_delaySequence s2 + 1,
                     dq_delayTasks := insert_before later (delayTaskId, workFunc) (dq_delayTasks s2)\<rparr>))))"

definition RemoveDelayTask ::
    "Os \<Rightarrow> u64 \<Rightarrow> ('t, 'm) DelayTaskQueue_scheme \<Rightarrow> bool \<times> ('t, 'm) DelayTaskQueue_scheme" where
  "RemoveDelayTask os delayTaskId s =
    (if List.find (\<lambda>x. fst x = delayTaskId) (dq_delayTasks s) = None then (False, s)
     else
       (let isBegin = fst (hd (dq_delayTasks s)) = delayTaskId;
            s1 = s\<lparr>dq_delayTasks := erase_first (\<lambda>x. fst x = delayTaskId) (dq_delayTasks s)\<rparr>
        in (True,
            case dq_executor s1 of
              Some fd \<Rightarrow>
                if isBegin \<and> dq_delayTasks s1 = [] then snd (SetTimeOptionForTimeFd os fd 1 NS_PER_S s1) else s1
            | None \<Rightarrow> s1)))"

text \<open>
  The loop of \<^verbatim>\<open>Executor::OnTimer\<close>.  Its round \<open>i\<close> reads the clock anew, executes the task at the
  front and erases the first task with its id.
\<close>

partial_function (option) OnTimer ::
    "(nat \<Rightarrow> Os) \<Rightarrow> (Os \<Rightarrow> 't DelayTask \<Rightarrow> ('t, 'm) DelayTaskQueue_scheme \<Rightarrow> ('t, 'm) DelayTaskQueue_scheme)
      \<Rightarrow> nat \<Rightarrow> int \<Rightarrow> ('t, 'm) DelayTaskQueue_scheme \<Rightarrow> (bool \<times> ('t, 'm) DelayTaskQueue_scheme) option" where
  "OnTimer clock execute i fd s =
    (case dq_delayTasks s of
       [] \<Rightarrow> Some (False, s)
     | x # _ \<Rightarrow>
         (let firstTaskExecuteTime = task_time (fst x); now = os_now (clock i)
          in if now < firstTaskExecuteTime then
               Some (True, snd (SetTimeOptionForTimeFd (clock i) fd ((firstTaskExecuteTime - now) * NS_PER_US) NS_PER_S s))
             else OnTimer clock execute (Suc i) fd
               (snd (RemoveDelayTask (clock i) (fst x) (execute (clock i) (snd x) s)))))"

section \<open>Periodic tasks\<close>

record PeriodicTask =
  pt_time :: u64
  pt_id :: u64
  pt_interval :: u32

record ('t, 'p) PeriodicTaskQueue = "'t DelayTaskQueue" +
  pq_periodicTasks :: "'p PeriodicTask_scheme list"
  pq_currentDelayTaskId :: u64
  pq_periodicSequence :: u64

definition ScheduleNextTask ::
    "Os \<Rightarrow> u64 \<Rightarrow> ('t, 'p, 'm) PeriodicTaskQueue_scheme \<Rightarrow> ('t, 'p, 'm) PeriodicTaskQueue_scheme" where
  "ScheduleNextTask os currentTime s =
    (case pq_periodicTasks s of
       [] \<Rightarrow> s
     | t # _ \<Rightarrow>
         (let nextExecuteTime = pt_time t;
              delayTime = (if currentTime < nextExecuteTime
                           then (nextExecuteTime - currentTime + MS_PER_S * US_PER_MS - 1) div (MS_PER_S * US_PER_MS) else 0);
              delayTime' = (if delayTime = 0 then delayTime + 1 else delayTime);
              (delayTaskId, s1) = AddDelayTask os Periodic_Execute (ucast delayTime') s
          in s1\<lparr>pq_currentDelayTaskId := delayTaskId\<rparr>))"

text \<open>
  The loop of \<^verbatim>\<open>Execute\<close>.  A task that returns true moves behind the tasks that are due no later
  than its new time; \<^verbatim>\<open>splice\<close> moves the front element, which \<^verbatim>\<open>find_if\<close> never returns.
\<close>

partial_function (option) execute_loop ::
    "('p PeriodicTask_scheme \<Rightarrow> ('t, 'p, 'm) PeriodicTaskQueue_scheme \<Rightarrow> bool \<times> ('t, 'p, 'm) PeriodicTaskQueue_scheme)
      \<Rightarrow> u64 \<Rightarrow> ('t, 'p, 'm) PeriodicTaskQueue_scheme \<Rightarrow> ('t, 'p, 'm) PeriodicTaskQueue_scheme option" where
  "execute_loop run currentTime s =
    (case pq_periodicTasks s of
       [] \<Rightarrow> Some s
     | frontTask # rest \<Rightarrow>
         if currentTime < pt_time frontTask then Some s
         else
           (case run frontTask s of (again, s1) \<Rightarrow>
             (let nextTime = currentTime + ucast (pt_interval frontTask) * MS_PER_S * US_PER_MS
              in execute_loop run currentTime
                (if again then
                   s1\<lparr>pq_periodicTasks := insert_before (\<lambda>x. nextTime < pt_time x) (frontTask\<lparr>pt_time := nextTime\<rparr>) rest\<rparr>
                 else s1\<lparr>pq_periodicTasks := rest\<rparr>))))"

definition Execute ::
    "Os \<Rightarrow> ('p PeriodicTask_scheme \<Rightarrow> ('t, 'p, 'm) PeriodicTaskQueue_scheme \<Rightarrow> bool \<times> ('t, 'p, 'm) PeriodicTaskQueue_scheme)
      \<Rightarrow> ('t, 'p, 'm) PeriodicTaskQueue_scheme \<Rightarrow> ('t, 'p, 'm) PeriodicTaskQueue_scheme option" where
  "Execute os run s = map_option (ScheduleNextTask os (os_now os)) (execute_loop run (os_now os) s)"

definition AddPeriodicTask ::
    "Os \<Rightarrow> 'p \<Rightarrow> u32 \<Rightarrow> ('t, 'p, 'm) PeriodicTaskQueue_scheme \<Rightarrow> u64 \<times> ('t, 'p, 'm) PeriodicTaskQueue_scheme" where
  "AddPeriodicTask os workFunc intervalTimeInS s =
    (if intervalTimeInS = 0 then (0, s)
     else
       (let taskId = pq_periodicSequence s;
            currentTime = os_now os;
            nextExecuteTime = currentTime + ucast intervalTimeInS * MS_PER_S * US_PER_MS;
            later = (\<lambda>x. nextExecuteTime < pt_time x);
            isBegin = (case pq_periodicTasks s of [] \<Rightarrow> True | x # _ \<Rightarrow> later x);
            task = \<lparr>pt_time = nextExecuteTime, pt_id = taskId, pt_interval = intervalTimeInS, \<dots> = workFunc\<rparr>;
            s1 = s\<lparr>pq_periodicSequence := taskId + 1, pq_periodicTasks := insert_before later task (pq_periodicTasks s)\<rparr>
        in (taskId, if isBegin then ScheduleNextTask os currentTime s1 else s1)))"

definition RemovePeriodicTask ::
    "Os \<Rightarrow> u64 \<Rightarrow> ('t, 'p, 'm) PeriodicTaskQueue_scheme \<Rightarrow> bool \<times> ('t, 'p, 'm) PeriodicTaskQueue_scheme" where
  "RemovePeriodicTask os taskId s =
    (if List.find (\<lambda>x. pt_id x = taskId) (pq_periodicTasks s) = None then (False, s)
     else
       (let isBegin = pt_id (hd (pq_periodicTasks s)) = taskId;
            s1 = s\<lparr>pq_periodicTasks := erase_first (\<lambda>x. pt_id x = taskId) (pq_periodicTasks s)\<rparr>
        in (True, if isBegin then ScheduleNextTask os (os_now os) s1 else s1)))"

section \<open>Invariant\<close>

text \<open>
  The three queues are ordered by time, registered listeners have descriptors, and periodic tasks
  have a positive interval.
\<close>

definition by_time :: "(u64 \<times> 't DelayTask) list \<Rightarrow> u64 list" where
  "by_time ts = map (\<lambda>x. task_time (fst x)) ts"

definition delay_ok :: "('t, 'm) DelayTaskQueue_scheme \<Rightarrow> bool" where
  "delay_ok s \<longleftrightarrow> sorted (map el_timeoutTime (em_listeners s)) \<and> (\<forall>l \<in> set (em_listeners s). 0 \<le> el_fd l) \<and>
    sorted (by_time (dq_delayTasks s))"

definition queues_ok :: "('t, 'p, 'm) PeriodicTaskQueue_scheme \<Rightarrow> bool" where
  "queues_ok s \<longleftrightarrow> delay_ok s \<and> sorted (map pt_time (pq_periodicTasks s)) \<and>
    (\<forall>t \<in> set (pq_periodicTasks s). 0 < pt_interval t)"

text \<open>The clock counts microseconds since boot; a reading below \<open>2 ^ 59\<close> is one of the next 18000 years.\<close>

definition sane_clock :: "Os \<Rightarrow> bool" where
  "sane_clock os \<longleftrightarrow> unat (os_now os) < 2 ^ 59"

text \<open>
  What the thread does with its queues.  A work function may itself take any number of such steps;
  the work function of a periodic task leaves the periodic queue alone.
\<close>

inductive queue_step :: "('t, 'p, 'm) PeriodicTaskQueue_scheme \<Rightarrow> ('t, 'p, 'm) PeriodicTaskQueue_scheme \<Rightarrow> bool" where
  add_listener: "AddListener os l s = (b, t) \<Longrightarrow> queue_step s t"
| remove_listener: "RemoveListener os fd s = (b, t) \<Longrightarrow> queue_step s t"
| timeout: "t = HandleTimeOut os s \<Longrightarrow> queue_step s t"
| add_task: "sane_clock os \<Longrightarrow> AddDelayTask os w d s = (k, t) \<Longrightarrow> queue_step s t"
| remove_task: "RemoveDelayTask os k s = (b, t) \<Longrightarrow> queue_step s t"
| add_periodic: "sane_clock os \<Longrightarrow> AddPeriodicTask os p iv s = (k, t) \<Longrightarrow> queue_step s t"
| remove_periodic: "sane_clock os \<Longrightarrow> RemovePeriodicTask os k s = (b, t) \<Longrightarrow> queue_step s t"
| execute: "sane_clock os \<Longrightarrow> (\<And>x u. queue_step\<^sup>*\<^sup>* u (snd (run x u)) \<and> pq_periodicTasks (snd (run x u)) = pq_periodicTasks u) \<Longrightarrow>
    Execute os run s = Some t \<Longrightarrow> queue_step s t"
| timer: "(\<And>i. sane_clock (clock i)) \<Longrightarrow> (\<And>i w u. queue_step\<^sup>*\<^sup>* u (ex (clock i) w u)) \<Longrightarrow>
    OnTimer clock ex 0 fd s = Some (b, t) \<Longrightarrow> queue_step s t"

text \<open>
  Reference semantics of the two loops: the given tasks one after the other, on the clock readings
  from \<open>i\<close> on, and the periodic tasks that want to run again.
\<close>

fun run_tasks :: "(nat \<Rightarrow> Os) \<Rightarrow> (Os \<Rightarrow> 't DelayTask \<Rightarrow> 'm \<Rightarrow> 'm) \<Rightarrow> nat \<Rightarrow> 't DelayTask list \<Rightarrow> 'm \<Rightarrow> 'm" where
  "run_tasks clock g i [] m = m"
| "run_tasks clock g i (w # ws) m = run_tasks clock g (Suc i) ws (g (clock i) w m)"

fun run_periodic ::
    "('p PeriodicTask_scheme \<Rightarrow> 's \<Rightarrow> bool \<times> 's) \<Rightarrow> 'p PeriodicTask_scheme list \<Rightarrow> 's \<Rightarrow> 'p PeriodicTask_scheme list \<times> 's" where
  "run_periodic run [] s = ([], s)"
| "run_periodic run (x # xs) s =
    (let (again, s1) = run x s; (kept, s2) = run_periodic run xs s1 in (if again then x # kept else kept, s2))"

definition renew :: "u64 \<Rightarrow> 'p PeriodicTask_scheme \<Rightarrow> 'p PeriodicTask_scheme" where
  "renew now x = x\<lparr>pt_time := now + ucast (pt_interval x) * MS_PER_S * US_PER_MS\<rparr>"

text \<open>A thread with an executor at descriptor 7 and nothing to do, half an hour after boot.\<close>

definition sample_os :: Os where
  "sample_os = \<lparr>os_now = 1800000000, os_timerfd = 7, os_settime = True, os_ctl = (\<lambda>_. True)\<rparr>"

definition sample_queue :: "(nat, nat, nat list) PeriodicTaskQueue_scheme" where
  "sample_queue = \<lparr>em_listeners = [EpollListener_new 0 7 (- 1) Executor], em_eventFd = 4, dq_executor = Some 7,
    dq_delayTasks = [], dq_delaySequence = 0, dq_timers = Map.empty,
    pq_periodicTasks = [], pq_currentDelayTaskId = 0, pq_periodicSequence = 1, \<dots> = []\<rparr>"

section \<open>Lemmas on delayed tasks\<close>

lemma task_time_take_bit: "task_time k = take_bit 60 k"
  by (simp add: task_time_def TIMESTAMP_MASK_def TIMESTAMP_BITS_def take_bit_eq_mask mask_eq_exp_minus_1)

lemma task_time_id:
  assumes "unat t < 2 ^ 60"
  shows "task_time (CalculateDelayTaskId n t) = t"
proof (rule bit_word_eqI)
  fix i assume "i < LENGTH(64)"
  show "bit (task_time (CalculateDelayTaskId n t)) i = bit t i"
    using bit_less_exp[OF assms, of i]
    by (auto simp: task_time_take_bit CalculateDelayTaskId_def TIMESTAMP_BITS_def bit_simps)
qed

lemma unat_delay_us: "unat (ucast (d :: u32) * MS_PER_S * US_PER_MS) = 1000000 * unat d"
proof -
  have "unat d * 1000000 < 2 ^ 64" using unsigned_less[of d, where 'a = nat] by simp
  then show ?thesis by (simp add: MS_PER_S_def US_PER_MS_def mult.assoc unat_word_ariths)
qed

lemma sane_sum:
  assumes "sane_clock os"
  shows "unat (os_now os + ucast (d :: u32) * MS_PER_S * US_PER_MS) = unat (os_now os) + 1000000 * unat d"
    "unat (os_now os + ucast (d :: u32) * MS_PER_S * US_PER_MS) < 2 ^ 60"
proof -
  have "unat d < 2 ^ 32" using unsigned_less[of d, where 'a = nat] by simp
  then have b: "unat (os_now os) + 1000000 * unat d < 2 ^ 60" using assms by (simp add: sane_clock_def)
  then show "unat (os_now os + ucast d * MS_PER_S * US_PER_MS) = unat (os_now os) + 1000000 * unat d"
    by (simp add: unat_word_ariths(1) unat_delay_us)
  with b show "unat (os_now os + ucast d * MS_PER_S * US_PER_MS) < 2 ^ 60" by simp
qed

lemma SetTime_fields [simp]:
  "em_listeners (snd (SetTimeOptionForTimeFd os fd a b s)) = em_listeners s"
  "em_eventFd (snd (SetTimeOptionForTimeFd os fd a b s)) = em_eventFd s"
  "dq_executor (snd (SetTimeOptionForTimeFd os fd a b s)) = dq_executor s"
  "dq_delayTasks (snd (SetTimeOptionForTimeFd os fd a b s)) = dq_delayTasks s"
  "dq_delaySequence (snd (SetTimeOptionForTimeFd os fd a b s)) = dq_delaySequence s"
  "DelayTaskQueue.more (snd (SetTimeOptionForTimeFd os fd a b s)) = DelayTaskQueue.more s"
  by (auto simp: SetTimeOptionForTimeFd_def)

lemma AddListener_ok [inv_intros]:
  assumes "delay_ok s"
  shows "delay_ok (snd (AddListener os l s))"
  using assms sorted_insert_before[of el_timeoutTime "em_listeners s" l]
  by (auto simp: AddListener_def delay_ok_def)

lemma RemoveListener_ok [inv_intros]: "delay_ok s \<Longrightarrow> delay_ok (snd (RemoveListener os fd s))"
  by (auto simp: RemoveListener_def delay_ok_def sorted_remove_if)

lemma HandleTimeOut_ok [inv_intros]: "delay_ok s \<Longrightarrow> delay_ok (HandleTimeOut os s)"
  by (auto simp: HandleTimeOut_def intro: RemoveListener_ok split: list.split)

lemma SetTime_ok [inv_intros]: "delay_ok s \<Longrightarrow> delay_ok (snd (SetTimeOptionForTimeFd os fd a b s))"
  by (simp add: delay_ok_def)

lemma AddListener_fields:
  "AddListener os l s = (b, t) \<Longrightarrow> dq_delayTasks t = dq_delayTasks s \<and> dq_delaySequence t = dq_delaySequence s \<and>
    DelayTaskQueue.more t = DelayTaskQueue.more s"
  by (auto simp: AddListener_def split: if_splits)

lemma InitExecutor_fields:
  "InitExecutor os d s = (b, t) \<Longrightarrow> dq_delayTasks t = dq_delayTasks s \<and> dq_delaySequence t = dq_delaySequence s \<and>
    DelayTaskQueue.more t = DelayTaskQueue.more s \<and> (b \<longrightarrow> dq_executor t \<noteq> None)"
  by (auto simp: InitExecutor_def Let_def SetTimeOptionForTimeFd_def AddListener_def split: if_splits)

lemma InitExecutor_ok: "delay_ok s \<Longrightarrow> InitExecutor os d s = (b, t) \<Longrightarrow> delay_ok t"
  using sorted_insert_before[of el_timeoutTime "em_listeners s"]
  by (auto simp: InitExecutor_def Let_def SetTimeOptionForTimeFd_def AddListener_def delay_ok_def split: if_splits)

text \<open>What a successful insertion does to the queue.\<close>

lemma AddDelayTask_cases:
  assumes "AddDelayTask os w d s = (k, t)"
  obtains "k = 0" "dq_delayTasks t = dq_delayTasks s" "DelayTaskQueue.more t = DelayTaskQueue.more s"
      "d = 0 \<or> os_now os = 0 \<or> dq_executor s = None"
  | e where "d \<noteq> 0" "os_now os \<noteq> 0" "e = os_now os + ucast d * MS_PER_S * US_PER_MS" "k = CalculateDelayTaskId (dq_delaySequence s) e"
      "dq_delayTasks t = insert_before (\<lambda>x. e < task_time (fst x)) (k, w) (dq_delayTasks s)"
      "dq_delaySequence t = dq_delaySequence s + 1" "DelayTaskQueue.more t = DelayTaskQueue.more s"
proof -
  obtain ok s1 where i: "(if dq_executor s = None then InitExecutor os d s else (True, s)) = (ok, s1)" by fastforce
  have f: "dq_delayTasks s1 = dq_delayTasks s" "dq_delaySequence s1 = dq_delaySequence s"
    "DelayTaskQueue.more s1 = DelayTaskQueue.more s"
    using i InitExecutor_fields[of os d s] by (auto split: if_splits)
  have o: "ok \<or> dq_executor s = None" using i by (auto split: if_splits)
  show ?thesis
  proof (cases "d = 0 \<or> \<not> ok \<or> os_now os = 0")
    case True
    then have "k = 0" "t = s \<or> t = s1" using assms i by (auto simp: AddDelayTask_def Let_def split: if_splits)
    then show ?thesis using that(1) f o True by auto
  next
    case False
    show ?thesis
      by (rule that(2)) (use assms i f False in \<open>auto simp: AddDelayTask_def Let_def split: if_splits list.splits\<close>)
  qed
qed

lemma AddDelayTask_ok:
  assumes "delay_ok s" "sane_clock os" "AddDelayTask os w d s = (k, t)"
  shows "delay_ok t"
proof -
  have l: "sorted (map el_timeoutTime (em_listeners t))" "\<forall>l \<in> set (em_listeners t). 0 \<le> el_fd l"
  proof -
    obtain ok s1 where i: "(if dq_executor s = None then InitExecutor os d s else (True, s)) = (ok, s1)" by fastforce
    have "delay_ok s1" using i assms(1) InitExecutor_ok by (auto split: if_splits)
    moreover have "em_listeners t = em_listeners s \<or> em_listeners t = em_listeners s1"
      using assms(3) i by (auto simp: AddDelayTask_def Let_def split: if_splits)
    ultimately show "sorted (map el_timeoutTime (em_listeners t))" "\<forall>l \<in> set (em_listeners t). 0 \<le> el_fd l"
      using assms(1) by (auto simp: delay_ok_def)
  qed
  from assms(3) have "sorted (by_time (dq_delayTasks t))"
  proof (cases rule: AddDelayTask_cases)
    case 1
    then show ?thesis using assms(1) by (simp add: delay_ok_def)
  next
    case (2 e)
    then have "task_time k = e" using task_time_id sane_sum(2)[OF assms(2)] by simp
    then show ?thesis
      using assms(1) sorted_insert_before[of "\<lambda>x. task_time (fst x)" "dq_delayTasks s" "(k, w)"] 2(5)
      by (simp add: delay_ok_def by_time_def)
  qed
  then show ?thesis using l by (simp add: delay_ok_def)
qed

lemma RemoveDelayTask_fields:
  "RemoveDelayTask os k s = (b, t) \<Longrightarrow> em_listeners t = em_listeners s \<and>
    dq_delayTasks t = erase_first (\<lambda>x. fst x = k) (dq_delayTasks s) \<and> DelayTaskQueue.more t = DelayTaskQueue.more s"
  by (auto simp: RemoveDelayTask_def Let_def find_NoneD split: if_splits option.splits)

lemma RemoveDelayTask_ok [inv_intros]: "delay_ok s \<Longrightarrow> delay_ok (snd (RemoveDelayTask os k s))"
proof -
  assume "delay_ok s"
  moreover obtain b t where "RemoveDelayTask os k s = (b, t)" by fastforce
  ultimately show ?thesis
    using RemoveDelayTask_fields[of os k s b t] sorted_erase_first[of "\<lambda>x. task_time (fst x)" "dq_delayTasks s"]
    by (auto simp: delay_ok_def by_time_def)
qed

section \<open>Lemmas on periodic tasks\<close>

lemma periodic_more:
  "DelayTaskQueue.more s = DelayTaskQueue.more t \<Longrightarrow> pq_periodicTasks s = pq_periodicTasks t"
  by (cases s, cases t) simp

lemma ScheduleNextTask_periodic [simp]: "pq_periodicTasks (ScheduleNextTask os now s) = pq_periodicTasks s"
proof (cases "pq_periodicTasks s")
  case (Cons t ts)
  obtain d where d: "ScheduleNextTask os now s =
      (case AddDelayTask os Periodic_Execute d s of (k, s1) \<Rightarrow> s1\<lparr>pq_currentDelayTaskId := k\<rparr>)"
    using Cons by (auto simp: ScheduleNextTask_def Let_def)
  obtain k s1 where "AddDelayTask os Periodic_Execute d s = (k, s1)" by fastforce
  then show ?thesis using d by (auto elim!: AddDelayTask_cases dest: periodic_more)
qed (simp add: ScheduleNextTask_def)

lemma ScheduleNextTask_delay_ok:
  assumes "delay_ok s" "sane_clock os"
  shows "delay_ok (ScheduleNextTask os now s)"
proof (cases "pq_periodicTasks s")
  case (Cons t ts)
  obtain d where d: "ScheduleNextTask os now s =
      (case AddDelayTask os Periodic_Execute d s of (k, s1) \<Rightarrow> s1\<lparr>pq_currentDelayTaskId := k\<rparr>)"
    using Cons by (auto simp: ScheduleNextTask_def Let_def)
  obtain k s1 where "AddDelayTask os Periodic_Execute d s = (k, s1)" by fastforce
  then show ?thesis using d AddDelayTask_ok[OF assms] by (auto simp: delay_ok_def)
qed (simp add: ScheduleNextTask_def assms)

lemma ScheduleNextTask_ok: "queues_ok s \<Longrightarrow> sane_clock os \<Longrightarrow> queues_ok (ScheduleNextTask os now s)"
  by (simp add: queues_ok_def ScheduleNextTask_delay_ok)

lemma AddPeriodicTask_ok:
  assumes "queues_ok s" "sane_clock os" "AddPeriodicTask os p iv s = (k, t)"
  shows "queues_ok t"
proof (cases "iv = 0")
  case False
  define e where "e = os_now os + ucast iv * MS_PER_S * US_PER_MS"
  define x where "x = \<lparr>pt_time = e, pt_id = pq_periodicSequence s, pt_interval = iv, \<dots> = p\<rparr>"
  define s1 where "s1 = s\<lparr>pq_periodicSequence := pq_periodicSequence s + 1,
    pq_periodicTasks := insert_before (\<lambda>y. e < pt_time y) x (pq_periodicTasks s)\<rparr>"
  have "queues_ok s1"
    using assms(1) False sorted_insert_before[of pt_time "pq_periodicTasks s" x]
    by (auto simp: queues_ok_def delay_ok_def s1_def x_def word_neq_0_conv)
  moreover have "t = s1 \<or> t = ScheduleNextTask os (os_now os) s1"
    using assms(3) False by (auto simp: AddPeriodicTask_def Let_def e_def x_def s1_def)
  ultimately show ?thesis using ScheduleNextTask_ok assms(2) by blast
qed (use assms in \<open>simp add: AddPeriodicTask_def\<close>)

lemma RemovePeriodicTask_ok:
  assumes "queues_ok s" "sane_clock os" "RemovePeriodicTask os k s = (b, t)"
  shows "queues_ok t"
proof (cases "List.find (\<lambda>x. pt_id x = k) (pq_periodicTasks s) = None")
  case False
  define s1 where "s1 = s\<lparr>pq_periodicTasks := erase_first (\<lambda>x. pt_id x = k) (pq_periodicTasks s)\<rparr>"
  have "queues_ok s1"
    using assms(1) sorted_erase_first[of pt_time "pq_periodicTasks s"] set_erase_first[of _ "pq_periodicTasks s"]
    by (fastforce simp: queues_ok_def delay_ok_def s1_def)
  moreover have "t = s1 \<or> t = ScheduleNextTask os (os_now os) s1"
    using assms(3) False by (auto simp: RemovePeriodicTask_def Let_def s1_def)
  ultimately show ?thesis using ScheduleNextTask_ok assms(2) by blast
qed (use assms in \<open>simp add: RemovePeriodicTask_def\<close>)

text \<open>An invariant of the two loops: what every round keeps, the whole loop keeps.\<close>

lemma execute_loop_keeps:
  assumes "execute_loop run now s = Some t" "I s"
    and "\<And>u x xs again u'. I u \<Longrightarrow> pq_periodicTasks u = x # xs \<Longrightarrow> run x u = (again, u') \<Longrightarrow>
      I (if again then u'\<lparr>pq_periodicTasks := insert_before (\<lambda>y. now + ucast (pt_interval x) * MS_PER_S * US_PER_MS < pt_time y)
           (x\<lparr>pt_time := now + ucast (pt_interval x) * MS_PER_S * US_PER_MS\<rparr>) xs\<rparr> else u'\<lparr>pq_periodicTasks := xs\<rparr>)"
  shows "I t"
proof -
  have "run = run \<and> now = now \<longrightarrow> I s \<longrightarrow> I t"
  proof (rule execute_loop.raw_induct[where P = "\<lambda>r n u v. r = run \<and> n = now \<longrightarrow> I u \<longrightarrow> I v", OF _ assms(1)])
    fix f r n u v
    assume ih: "\<And>r n u v. f r n u = Some v \<Longrightarrow> r = run \<and> n = now \<longrightarrow> I u \<longrightarrow> I v"
      and b: "(case pq_periodicTasks u of [] \<Rightarrow> Some u
         | frontTask # rest \<Rightarrow>
             if n < pt_time frontTask then Some u
             else case r frontTask u of (again, s1) \<Rightarrow>
               let nextTime = n + ucast (pt_interval frontTask) * MS_PER_S * US_PER_MS
               in f r n (if again then s1\<lparr>pq_periodicTasks := insert_before (\<lambda>x. nextTime < pt_time x)
                                    (frontTask\<lparr>pt_time := nextTime\<rparr>) rest\<rparr>
                         else s1\<lparr>pq_periodicTasks := rest\<rparr>)) = Some v"
    show "r = run \<and> n = now \<longrightarrow> I u \<longrightarrow> I v"
    proof (intro impI)
      assume e: "r = run \<and> n = now" and u: "I u"
      show "I v"
      proof (cases "pq_periodicTasks u")
        case Nil
        then show ?thesis using b u by simp
      next
        case (Cons x xs)
        obtain again u' where "run x u = (again, u')" by fastforce
        then show ?thesis using b ih assms(3)[OF u Cons] Cons e u by (auto simp: Let_def split: if_splits)
      qed
    qed
  qed
  then show ?thesis using assms(2) by blast
qed

lemma OnTimer_keeps:
  assumes "OnTimer clock ex i fd s = Some (b, t)" "I s"
    and "\<And>u x xs i. I u \<Longrightarrow> dq_delayTasks u = x # xs \<Longrightarrow> I (snd (RemoveDelayTask (clock i) (fst x) (ex (clock i) (snd x) u)))"
    and "\<And>u i a c. I u \<Longrightarrow> I (snd (SetTimeOptionForTimeFd (clock i) fd a c u))"
  shows "I t"
proof -
  have "clock = clock \<and> ex = ex \<and> fd = fd \<longrightarrow> I s \<longrightarrow> I (snd (b, t))"
  proof (rule OnTimer.raw_induct[where P = "\<lambda>c e i g u v. c = clock \<and> e = ex \<and> g = fd \<longrightarrow> I u \<longrightarrow> I (snd v)", OF _ assms(1)])
    fix f c e i g u v
    assume ih: "\<And>c e i g u v. f c e i g u = Some v \<Longrightarrow> c = clock \<and> e = ex \<and> g = fd \<longrightarrow> I u \<longrightarrow> I (snd v)"
      and b: "(case dq_delayTasks u of [] \<Rightarrow> Some (False, u)
         | x # _ \<Rightarrow>
             let firstTaskExecuteTime = task_time (fst x); now = os_now (c i)
             in if now < firstTaskExecuteTime
                then Some (True, snd (SetTimeOptionForTimeFd (c i) g ((firstTaskExecuteTime - now) * NS_PER_US) NS_PER_S u))
                else f c e (Suc i) g (snd (RemoveDelayTask (c i) (fst x) (e (c i) (snd x) u)))) = Some v"
    show "c = clock \<and> e = ex \<and> g = fd \<longrightarrow> I u \<longrightarrow> I (snd v)"
    proof (intro impI)
      assume eq: "c = clock \<and> e = ex \<and> g = fd" and u: "I u"
      show "I (snd v)"
      proof (cases "dq_delayTasks u")
        case Nil
        then show ?thesis using b u by auto
      next
        case (Cons x xs)
        show ?thesis using b ih assms(3)[OF u Cons] assms(4)[OF u] Cons eq by (auto simp: Let_def split: if_splits)
      qed
    qed
  qed
  then show ?thesis using assms(2) by simp
qed

lemma execute_loop_ok:
  assumes "execute_loop run (os_now os) s = Some t" "queues_ok s"
    and run: "\<And>x u. queues_ok u \<Longrightarrow> queues_ok (snd (run x u)) \<and> pq_periodicTasks (snd (run x u)) = pq_periodicTasks u"
  shows "queues_ok t"
  using assms(1,2)
proof (rule execute_loop_keeps)
  fix u x xs again u'
  assume u: "queues_ok u" "pq_periodicTasks u = x # xs" "run x u = (again, u')"
  let ?t = "os_now os + ucast (pt_interval x) * MS_PER_S * US_PER_MS"
  have "queues_ok u'" "pq_periodicTasks u' = x # xs" using run[OF u(1), of x] u by auto
  then show "queues_ok (if again then u'\<lparr>pq_periodicTasks := insert_before (\<lambda>y. ?t < pt_time y) (x\<lparr>pt_time := ?t\<rparr>) xs\<rparr>
      else u'\<lparr>pq_periodicTasks := xs\<rparr>)"
    using sorted_insert_before[of pt_time xs "x\<lparr>pt_time := ?t\<rparr>"] by (auto simp: queues_ok_def delay_ok_def)
qed

lemma RemoveDelayTask_queues: "queues_ok s \<Longrightarrow> queues_ok (snd (RemoveDelayTask os k s))"
proof -
  assume "queues_ok s"
  moreover obtain b t where r: "RemoveDelayTask os k s = (b, t)" by fastforce
  moreover have "pq_periodicTasks t = pq_periodicTasks s" using RemoveDelayTask_fields[OF r] periodic_more by blast
  ultimately show ?thesis using RemoveDelayTask_ok[of s os k] by (auto simp: queues_ok_def)
qed

lemma queue_star_ok:
  "(\<lambda>u v. queue_step u v \<and> (queues_ok u \<longrightarrow> queues_ok v))\<^sup>*\<^sup>* s t \<Longrightarrow> queues_ok s \<Longrightarrow> queues_ok t"
  by (induction rule: rtranclp_induct) auto

lemma queue_step_ok: "queue_step s t \<Longrightarrow> queues_ok s \<Longrightarrow> queues_ok t"
proof (induction rule: queue_step.induct)
  case (add_listener os l s b t)
  then show ?case using AddListener_ok[of s os l] by (auto simp: queues_ok_def AddListener_def split: if_splits)
next
  case (remove_listener os fd s b t)
  then show ?case using RemoveListener_ok[of s os fd] by (auto simp: queues_ok_def RemoveListener_def split: if_splits)
next
  case (timeout t os s)
  then show ?case using HandleTimeOut_ok[of s os]
    by (auto simp: queues_ok_def HandleTimeOut_def RemoveListener_def split: list.splits)
next
  case (add_task os w d s k t)
  then have "pq_periodicTasks t = pq_periodicTasks s" by (auto elim!: AddDelayTask_cases dest: periodic_more)
  then show ?case using add_task AddDelayTask_ok by (auto simp: queues_ok_def)
next
  case (remove_task os k s b t)
  then show ?case using RemoveDelayTask_queues[of s os k] by simp
next
  case (add_periodic os p iv s k t)
  show ?case by (rule AddPeriodicTask_ok[OF add_periodic(3,1,2)])
next
  case (remove_periodic os k s b t)
  then show ?case using RemovePeriodicTask_ok by blast
next
  case (execute os run s t)
  have run: "queues_ok (snd (run x u))" if "queues_ok u" for x u
    using queue_star_ok[OF _ that] execute by blast
  have keep: "pq_periodicTasks (snd (run x u)) = pq_periodicTasks u" for x u using execute by blast
  obtain u where u: "execute_loop run (os_now os) s = Some u" "t = ScheduleNextTask os (os_now os) u"
    using \<open>Execute os run s = Some t\<close> by (auto simp: Execute_def)
  have "queues_ok u" by (rule execute_loop_ok[OF u(1) \<open>queues_ok s\<close>]) (use run keep in auto)
  then show ?case using u(2) ScheduleNextTask_ok \<open>sane_clock os\<close> by blast
next
  case (timer clock ex fd s b t)
  show ?case
  proof (rule OnTimer_keeps[where I = queues_ok])
    show "OnTimer clock ex 0 fd s = Some (b, t)" "queues_ok s" by fact+
    show "queues_ok (snd (RemoveDelayTask (clock i) (fst x) (ex (clock i) (snd x) u)))" if "queues_ok u" for u x i
      using RemoveDelayTask_queues queue_star_ok[OF _ that] timer by blast
    show "queues_ok (snd (SetTimeOptionForTimeFd (clock i) fd a c u))" if "queues_ok u" for u i a c
      using that by (auto simp: queues_ok_def delay_ok_def SetTimeOptionForTimeFd_def)
  qed
qed

section \<open>The loops meet their reference semantics\<close>

lemma OnTimer_run:
  assumes keep: "\<And>os w u. dq_delayTasks (ex os w u) = dq_delayTasks u"
    and more: "\<And>os w u. DelayTaskQueue.more (ex os w u) = g os w (DelayTaskQueue.more u)"
  shows "\<exists>k s'. k \<le> length (dq_delayTasks s) \<and> OnTimer clock ex i fd s = Some (k < length (dq_delayTasks s), s') \<and>
    dq_delayTasks s' = drop k (dq_delayTasks s) \<and>
    DelayTaskQueue.more s' = run_tasks clock g i (map snd (take k (dq_delayTasks s))) (DelayTaskQueue.more s) \<and>
    (\<forall>j < k. task_time (fst (dq_delayTasks s ! j)) \<le> os_now (clock (i + j))) \<and>
    (k < length (dq_delayTasks s) \<longrightarrow> os_now (clock (i + k)) < task_time (fst (dq_delayTasks s ! k)) \<and>
      (0 \<le> fd \<and> os_settime (clock (i + k)) \<longrightarrow> dq_timers s' fd =
        Some ((task_time (fst (dq_delayTasks s ! k)) - os_now (clock (i + k))) * NS_PER_US, NS_PER_S)))"
proof (induction "dq_delayTasks s" arbitrary: s i)
  case Nil
  then show ?case by (subst OnTimer.simps) simp
next
  case (Cons x xs)
  note q = Cons.hyps(2)[symmetric]
  show ?case
  proof (cases "os_now (clock i) < task_time (fst x)")
    case True
    then show ?thesis
      unfolding q by (intro exI[of _ 0], subst OnTimer.simps) (auto simp: q Let_def SetTimeOptionForTimeFd_def)
  next
    case False
    let ?s1 = "snd (RemoveDelayTask (clock i) (fst x) (ex (clock i) (snd x) s))"
    obtain b t where r: "RemoveDelayTask (clock i) (fst x) (ex (clock i) (snd x) s) = (b, t)" by fastforce
    have s1: "dq_delayTasks ?s1 = xs" "DelayTaskQueue.more ?s1 = g (clock i) (snd x) (DelayTaskQueue.more s)"
      using RemoveDelayTask_fields[OF r] keep more q r by simp_all
    have step: "OnTimer clock ex i fd s = OnTimer clock ex (Suc i) fd ?s1"
      by (subst OnTimer.simps) (use False in \<open>simp add: q Let_def\<close>)
    from Cons.hyps(1)[OF s1(1)[symmetric], of "Suc i"] obtain k s' where k:
      "k \<le> length xs" "OnTimer clock ex (Suc i) fd ?s1 = Some (k < length xs, s')" "dq_delayTasks s' = drop k xs"
      "DelayTaskQueue.more s' = run_tasks clock g (Suc i) (map snd (take k xs)) (DelayTaskQueue.more ?s1)"
      "\<forall>j < k. task_time (fst (xs ! j)) \<le> os_now (clock (Suc i + j))"
      "k < length xs \<longrightarrow> os_now (clock (Suc i + k)) < task_time (fst (xs ! k)) \<and>
        (0 \<le> fd \<and> os_settime (clock (Suc i + k)) \<longrightarrow> dq_timers s' fd =
          Some ((task_time (fst (xs ! k)) - os_now (clock (Suc i + k))) * NS_PER_US, NS_PER_S))"
      unfolding s1(1) by blast
    show ?thesis
      unfolding q step using k False s1(2)
      by (intro exI[of _ "Suc k"] exI[of _ s']) (auto simp: less_Suc_eq_0_disj)
  qed
qed

lemma unat_renew:
  assumes "unat now < 2 ^ 59"
  shows "unat (pt_time (renew now x)) = unat now + 1000000 * unat (pt_interval x)"
  using sane_sum(1)[of "\<lparr>os_now = now, os_timerfd = 0, os_settime = True, os_ctl = (\<lambda>_. True)\<rparr>" "pt_interval x"] assms
  by (simp add: renew_def sane_clock_def)

lemma insert_before_append:
  "\<forall>y \<in> set xs. \<not> P y \<Longrightarrow> insert_before P x (xs @ ys) = xs @ insert_before P x ys"
  by (induction xs) (auto simp: insert_before_def)

lemma run_periodic_tasks:
  assumes "\<And>x u ts. run x (u\<lparr>pq_periodicTasks := ts\<rparr>) = (fst (run x u), (snd (run x u))\<lparr>pq_periodicTasks := ts\<rparr>)"
  shows "run_periodic run xs (s\<lparr>pq_periodicTasks := ts\<rparr>) =
    (fst (run_periodic run xs s), (snd (run_periodic run xs s))\<lparr>pq_periodicTasks := ts\<rparr>)"
  by (induction xs arbitrary: s) (simp_all add: assms Let_def split: prod.split)

lemma run_periodic_frame:
  assumes "\<And>x u. dq_executor (snd (run x u)) = dq_executor u"
  shows "set (fst (run_periodic run xs s)) \<subseteq> set xs \<and> dq_executor (snd (run_periodic run xs s)) = dq_executor s"
proof (induction xs arbitrary: s)
  case (Cons x xs)
  then show ?case using assms[of x s] by (auto simp: Let_def split: prod.split) (metis fst_conv snd_conv subsetD)+
qed simp

text \<open>The due tasks run in order; each round moves one of them behind \<open>now\<close> or drops it.\<close>

lemma execute_loop_run:
  assumes keep: "\<And>x u ts. run x (u\<lparr>pq_periodicTasks := ts\<rparr>) = (fst (run x u), (snd (run x u))\<lparr>pq_periodicTasks := ts\<rparr>)"
    and now: "unat now < 2 ^ 59"
    and "pq_periodicTasks s = due @ rest" "\<forall>x \<in> set due. pt_time x \<le> now \<and> 0 < pt_interval x"
    and "\<forall>x \<in> set rest. now < pt_time x" "sorted (map pt_time rest)" "run_periodic run due s = (kept, s2)"
  shows "\<exists>ts. execute_loop run now s = Some (s2\<lparr>pq_periodicTasks := ts\<rparr>) \<and> mset ts = mset rest + mset (map (renew now) kept) \<and>
    sorted (map pt_time ts) \<and> (\<forall>x \<in> set ts. now < pt_time x)"
  using assms(3-)
proof (induction due arbitrary: s rest kept s2)
  case Nil
  have "execute_loop run now s = Some s"
    using Nil by (subst execute_loop.simps) (auto split: list.split)
  moreover have "s2\<lparr>pq_periodicTasks := rest\<rparr> = s" using Nil by (cases s) auto
  ultimately show ?case using Nil by (intro exI[of _ rest]) auto
next
  case (Cons x due)
  obtain again s1 where r: "run x s = (again, s1)" by fastforce
  obtain kept1 where k: "run_periodic run due s1 = (kept1, s2)" "kept = (if again then x # kept1 else kept1)"
    using Cons.prems(5) r by (auto simp: Let_def split: prod.splits)
  let ?rest = "if again then insert_before (\<lambda>y. pt_time (renew now x) < pt_time y) (renew now x) rest else rest"
  let ?s1 = "s1\<lparr>pq_periodicTasks := due @ ?rest\<rparr>"
  have x: "pt_time x \<le> now" "0 < pt_interval x" using Cons.prems by auto
  then have nx: "now < pt_time (renew now x)"
    using unat_renew[OF now, of x] by (simp add: word_less_nat_alt unat_gt_0)
  have due: "\<forall>y \<in> set due. \<not> pt_time (renew now x) < pt_time y" using Cons.prems(2) nx by auto
  have "execute_loop run now s = execute_loop run now ?s1"
    using Cons.prems(1) x r insert_before_append[OF due]
    by (subst execute_loop.simps) (auto simp: Let_def renew_def not_less[symmetric])
  moreover have "\<exists>ts. execute_loop run now ?s1 = Some (s2\<lparr>pq_periodicTasks := due @ ?rest\<rparr>\<lparr>pq_periodicTasks := ts\<rparr>) \<and>
      mset ts = mset ?rest + mset (map (renew now) kept1) \<and> sorted (map pt_time ts) \<and> (\<forall>x \<in> set ts. now < pt_time x)"
    using Cons.prems k(1) nx sorted_insert_before[of pt_time rest "renew now x"]
    by (intro Cons.IH) (auto simp: run_periodic_tasks[of run, OF keep])
  moreover have "mset ?rest + mset (map (renew now) kept1) = mset rest + mset (map (renew now) kept)"
    using k(2) by simp
  ultimately show ?case by auto
qed

text \<open>The next wake-up after \<open>now\<close>: not before the first task is due and less than a second after.\<close>

lemma ScheduleNextTask_wakes:
  assumes "sane_clock os" "os_now os \<noteq> 0" "dq_executor s \<noteq> None" "pq_periodicTasks s = x # xs" "os_now os < pt_time x"
    and "unat (pt_time x) \<le> unat (os_now os) + 1000000 * unat (pt_interval x)"
  shows "\<exists>k. (k, Periodic_Execute) \<in> set (dq_delayTasks (ScheduleNextTask os (os_now os) s)) \<and>
    pt_time x \<le> task_time k \<and> unat (task_time k) < unat (pt_time x) + 1000000"
proof -
  let ?now = "os_now os" and ?d = "pt_time x - os_now os"
  define q where "q = (?d + 1000000 - 1) div (1000000 :: u64)"
  have d: "unat ?d = unat (pt_time x) - unat ?now" "0 < unat ?d"
    using assms(5) by (simp_all add: unat_sub word_less_nat_alt word_le_nat_alt)
  have iv: "unat (pt_interval x) < 2 ^ 32" using unsigned_less[of "pt_interval x", where 'a = nat] by simp
  have n59: "unat ?now < 2 ^ 59" using assms(1) by (simp add: sane_clock_def)
  have "unat (?d + 999999) = unat ?d + 999999"
    using d assms(6) iv n59 by (simp add: unat_word_ariths)
  then have q: "unat q = (unat ?d + 999999) div 1000000"
    unfolding q_def add_diff_eq[symmetric] by (simp add: unat_div_distrib)
  have qle: "unat q \<le> unat (pt_interval x)" using q d assms(6) by simp
  have q0: "0 < unat q" using q d by simp
  have uq: "unat (ucast q :: u32) = unat q" using qle iv by (simp add: unsigned_ucast_eq take_bit_nat_eq_self)
  obtain k s1 where a: "AddDelayTask os Periodic_Execute (ucast q) s = (k, s1)" by fastforce
  have S: "ScheduleNextTask os ?now s = s1\<lparr>pq_currentDelayTaskId := k\<rparr>"
    using assms(4,5) q0 a by (auto simp: ScheduleNextTask_def Let_def q_def MS_PER_S_def US_PER_MS_def)
  have nz: "(ucast q :: u32) \<noteq> 0" using uq q0 by auto
  from a have "(k, Periodic_Execute) \<in> set (dq_delayTasks s1) \<and> task_time k = ?now + ucast (ucast q :: u32) * MS_PER_S * US_PER_MS"
    by (cases rule: AddDelayTask_cases) (use nz assms(2,3) task_time_id sane_sum(2)[OF assms(1)] in auto)
  moreover have "unat (?now + ucast (ucast q :: u32) * MS_PER_S * US_PER_MS) = unat ?now + 1000000 * unat q"
    using sane_sum(1)[OF assms(1), of "ucast q"] uq by simp
  moreover have "unat ?d \<le> 1000000 * unat q" "1000000 * unat q < unat ?d + 1000000"
    unfolding q using mult_div_mod_eq[of 1000000 "unat ?d + 999999"] mod_less_divisor[of 1000000 "unat ?d + 999999"] by linarith+
  ultimately show ?thesis
    unfolding S using d by (intro exI[of _ k]) (auto simp: word_le_nat_alt)
qed

lemma sample_queue_ok: "queues_ok sample_queue" "sane_clock sample_os"
  by (simp_all add: queues_ok_def delay_ok_def by_time_def sample_queue_def EpollListener_new_def sane_clock_def sample_os_def)

section \<open>Properties\<close>

text \<open>
  C30. The queues of the event loop stay ordered by time: whatever sequence of listeners, delayed
  tasks and periodic tasks the thread adds, removes and runs, also from within running tasks, the
  listeners, the delayed tasks and the periodic tasks remain sorted, registered listeners have
  valid descriptors and periodic tasks have a positive interval.
\<close>

theorem queues_stay_sorted:
  assumes "queue_step\<^sup>*\<^sup>* s t" "queues_ok s"
  shows "queues_ok t"
  using assms by (induction rule: rtranclp_induct) (auto intro: queue_step_ok)

theorem queues_stay_sorted_witness:
  "queues_ok (snd (AddDelayTask sample_os (Task 2) 5 (snd (AddDelayTask sample_os (Task 1) 9 sample_queue))))"
proof -
  have step: "queue_step s (snd (AddDelayTask sample_os w d s))" for s :: "(nat, nat, nat list) PeriodicTaskQueue_scheme" and w d
    by (rule queue_step.add_task[OF sample_queue_ok(2), of w d s "fst (AddDelayTask sample_os w d s)"]) simp
  show ?thesis
    by (rule queues_stay_sorted[OF _ sample_queue_ok(1)]) (blast intro: rtranclp.rtrancl_into_rtrancl step)
qed



text \<open>
  C29. No periodic task is forgotten: Execute ends, runs every due task once and in order, keeps the
  others, puts each task that asks for it back one interval after now, and leaves no task that is
  due; if any task is left, a wake-up is queued at a time at which the first of them is due, and
  less than a second later than that.  The work functions are assumed not to touch the queues, and
  every task to be due within one interval from now, as it is while the clock does not go back.
\<close>

theorem Execute_runs_due:
  assumes "queues_ok s" "sane_clock os" "os_now os \<noteq> 0" "dq_executor s \<noteq> None"
    and keep: "\<And>x u ts. run x (u\<lparr>pq_periodicTasks := ts\<rparr>) = (fst (run x u), (snd (run x u))\<lparr>pq_periodicTasks := ts\<rparr>)"
    and ex: "\<And>x u. dq_executor (snd (run x u)) = dq_executor u"
    and le: "\<forall>x \<in> set (pq_periodicTasks s). unat (pt_time x) \<le> unat (os_now os) + 1000000 * unat (pt_interval x)"
    and "due = takeWhile (\<lambda>x. pt_time x \<le> os_now os) (pq_periodicTasks s)" "run_periodic run due s = (kept, s2)"
  shows "\<exists>s'. Execute os run s = Some s' \<and>
    mset (pq_periodicTasks s') = mset (dropWhile (\<lambda>x. pt_time x \<le> os_now os) (pq_periodicTasks s)) + mset (map (renew (os_now os)) kept) \<and>
    sorted (map pt_time (pq_periodicTasks s')) \<and> (\<forall>x \<in> set (pq_periodicTasks s'). os_now os < pt_time x) \<and>
    (pq_periodicTasks s' \<noteq> [] \<longrightarrow> (\<exists>k. (k, Periodic_Execute) \<in> set (dq_delayTasks s') \<and>
      pt_time (hd (pq_periodicTasks s')) \<le> task_time k \<and> unat (task_time k) < unat (pt_time (hd (pq_periodicTasks s'))) + 1000000))"
proof -
  let ?now = "os_now os"
  let ?rest = "dropWhile (\<lambda>x. pt_time x \<le> ?now) (pq_periodicTasks s)"
  have n59: "unat ?now < 2 ^ 59" using assms(2) by (simp add: sane_clock_def)
  have sp: "pq_periodicTasks s = due @ ?rest" unfolding assms(8) by simp
  have srt: "sorted (map pt_time (due @ ?rest))" using assms(1) sp by (simp add: queues_ok_def)
  have due: "\<forall>x \<in> set due. pt_time x \<le> ?now \<and> 0 < pt_interval x"
    using assms(1,8) by (auto simp: queues_ok_def dest: set_takeWhileD)
  have rest: "\<forall>x \<in> set ?rest. ?now < pt_time x"
  proof (cases ?rest)
    case (Cons y ys)
    then have "\<not> pt_time y \<le> ?now" by (metis hd_dropWhile list.distinct(1) list.sel(1))
    then show ?thesis using srt Cons by (fastforce simp: sorted_append)
  next
    case Nil
    then show ?thesis by (simp only: list.set ball_empty)
  qed
  obtain ts where ts: "execute_loop run ?now s = Some (s2\<lparr>pq_periodicTasks := ts\<rparr>)"
    "mset ts = mset ?rest + mset (map (renew ?now) kept)" "sorted (map pt_time ts)" "\<forall>x \<in> set ts. ?now < pt_time x"
    using execute_loop_run[OF keep n59 sp due rest _ assms(9)] srt by (auto simp: sorted_append)
  have kept: "set kept \<subseteq> set due" "dq_executor s2 = dq_executor s"
    using assms(9) run_periodic_frame[of run due s, OF ex] by auto
  let ?u = "s2\<lparr>pq_periodicTasks := ts\<rparr>"
  have le': "unat (pt_time x) \<le> unat ?now + 1000000 * unat (pt_interval x)" if "x \<in> set ts" for x
  proof -
    have "set ts = set ?rest \<union> renew ?now ` set kept" using arg_cong[OF ts(2), of set_mset] by simp
    then consider "x \<in> set ?rest" | y where "x = renew ?now y" using \<open>x \<in> set ts\<close> by auto
    then show ?thesis
    proof cases
      case 1
      then show ?thesis using le by (blast dest: set_dropWhileD)
    next
      case 2
      have "pt_interval (renew ?now y) = pt_interval y" by (simp add: renew_def)
      then show ?thesis using 2 unat_renew[OF n59, of y] by simp
    qed
  qed
  have "\<exists>k. (k, Periodic_Execute) \<in> set (dq_delayTasks (ScheduleNextTask os ?now ?u)) \<and>
      pt_time (hd ts) \<le> task_time k \<and> unat (task_time k) < unat (pt_time (hd ts)) + 1000000" if "ts \<noteq> []"
    using ScheduleNextTask_wakes[OF assms(2,3), of ?u "hd ts" "tl ts"] that assms(4) kept(2) ts(4) le'[of "hd ts"] by simp
  then show ?thesis using ts by (simp add: Execute_def)
qed

theorem Execute_runs_due_witness:
  "\<exists>s'. Execute sample_os (\<lambda>x u. (pt_id x = 1, u))
      (sample_queue\<lparr>pq_periodicTasks := [\<lparr>pt_time = 1790000000, pt_id = 1, pt_interval = 10, \<dots> = 0\<rparr>,
        \<lparr>pt_time = 1810000000, pt_id = 2, pt_interval = 10, \<dots> = 0\<rparr>]\<rparr>) = Some s' \<and>
    (\<forall>x \<in> set (pq_periodicTasks s'). os_now sample_os < pt_time x) \<and> (\<exists>k. (k, Periodic_Execute) \<in> set (dq_delayTasks s'))"
proof -
  let ?s = "sample_queue\<lparr>pq_periodicTasks := [\<lparr>pt_time = 1790000000, pt_id = 1, pt_interval = 10, \<dots> = 0\<rparr>,
        \<lparr>pt_time = 1810000000, pt_id = 2, pt_interval = 10, \<dots> = 0\<rparr>]\<rparr>"
  have "queues_ok ?s" using sample_queue_ok(1) by (simp add: queues_ok_def delay_ok_def)
  moreover have "run_periodic (\<lambda>x u. (pt_id x = 1, u)) (takeWhile (\<lambda>x. pt_time x \<le> os_now sample_os) (pq_periodicTasks ?s)) ?s =
      ([\<lparr>pt_time = 1790000000, pt_id = 1, pt_interval = 10, \<dots> = 0\<rparr>], ?s)"
    by (simp add: sample_os_def)
  ultimately show ?thesis
    using Execute_runs_due[of ?s sample_os "\<lambda>x u. (pt_id x = 1, u)", OF _ sample_queue_ok(2)]
    by (auto simp: sample_os_def sample_queue_def)
qed

text \<open>
  C31. The event loop never sleeps past a deadline: if every deadline is less than \<open>2 ^ 31\<close> ms away,
  the timeout handed to epoll is -1 exactly when no listener has a deadline, and otherwise lies
  between 0 and 30 s and ends before the earliest deadline, or is 0 when that has passed.
\<close>

theorem wait_time_bounds:
  assumes "delay_ok s" "em_listeners s \<noteq> []" "\<forall>l \<in> set (em_listeners s). el_timeoutTime l \<le> NO_TIMEOUT"
    and "\<forall>l \<in> set (em_listeners s). el_timeoutTime l \<noteq> NO_TIMEOUT \<longrightarrow> el_timeoutTime l - sint (os_now os) < 1000 * 2 ^ 31"
  shows "(GetNextWaitTime os s = - 1 \<longleftrightarrow> (\<forall>l \<in> set (em_listeners s). el_timeoutTime l = NO_TIMEOUT)) \<and>
    (GetNextWaitTime os s \<noteq> - 1 \<longrightarrow> 0 \<le> GetNextWaitTime os s \<and> GetNextWaitTime os s \<le> 30000 \<and>
      (\<forall>l \<in> set (em_listeners s). 1000 * GetNextWaitTime os s \<le> max 0 (el_timeoutTime l - sint (os_now os))))"
proof -
  obtain l ls where l: "em_listeners s = l # ls" using assms(2) by (cases "em_listeners s") auto
  have first: "\<forall>x \<in> set (em_listeners s). el_timeoutTime l \<le> el_timeoutTime x"
    using assms(1) l by (auto simp: delay_ok_def)
  show ?thesis
  proof (cases "el_timeoutTime l = NO_TIMEOUT")
    case True
    then have "\<forall>x \<in> set (em_listeners s). el_timeoutTime x = NO_TIMEOUT" using first assms(3) by force
    then show ?thesis using True l by (simp add: GetNextWaitTime_def)
  next
    case False
    let ?w = "el_timeoutTime l - sint (os_now os)"
    have w: "?w < 1000 * 2 ^ 31" using assms(4) l False by simp
    have c: "sint (word_of_int (?w div 1000) :: u32) = ?w div 1000" if "0 \<le> ?w"
      using that w by (simp add: sint_sbintrunc' signed_take_bit_int_eq_self_iff div_int_pos_iff) linarith
    have r: "GetNextWaitTime os s = (if ?w < 0 then 0 else min (?w div 1000) 30000)"
      using False l c by (simp add: GetNextWaitTime_def Let_def minCheckTime_def)
    have "1000 * GetNextWaitTime os s \<le> max 0 ?w" unfolding r by (auto simp: min_def)
    moreover have "0 \<le> GetNextWaitTime os s" "GetNextWaitTime os s \<le> 30000" unfolding r by auto
    ultimately show ?thesis using first False l by fastforce
  qed
qed

theorem wait_time_bounds_witness:
  "0 \<le> GetNextWaitTime sample_os (snd (AddListener sample_os (EpollListener_new 1800000000 9 20000 TempFileListener) sample_queue))"
proof -
  let ?s = "snd (AddListener sample_os (EpollListener_new 1800000000 9 20000 TempFileListener) sample_queue)"
  have s: "em_listeners ?s = [EpollListener_new 1800000000 9 20000 TempFileListener, EpollListener_new 0 7 (- 1) Executor]"
    by (simp add: AddListener_def AddEpollEvent_def EpollListener_new_def insert_before_def sample_os_def sample_queue_def NO_TIMEOUT_def)
  have "delay_ok ?s" using AddListener_ok sample_queue_ok(1) by (auto simp: queues_ok_def)
  then have "GetNextWaitTime sample_os ?s \<noteq> - 1 \<longrightarrow> 0 \<le> GetNextWaitTime sample_os ?s" "GetNextWaitTime sample_os ?s \<noteq> - 1"
    using wait_time_bounds[of ?s sample_os] unfolding s by (simp_all add: EpollListener_new_def NO_TIMEOUT_def sample_os_def)
  then show ?thesis by blast
qed

text \<open>
  C32. Ids of delayed tasks are not unique: the sequence number has eight bits and is shifted by 60,
  so two tasks with the same execution time whose sequence numbers differ by 16 get the same id, and
  cancelling the later one removes the earlier one instead.
\<close>

theorem delay_ids_collide:
  assumes "dq_delayTasks s = []" "dq_delaySequence s = n" "dq_executor s \<noteq> None" "sane_clock os" "os_now os \<noteq> 0" "d \<noteq> 0"
    and "AddDelayTask os w1 d s = (k1, s1)" "AddDelayTask os w2 d (s1\<lparr>dq_delaySequence := n + 16\<rparr>) = (k2, s2)"
  shows "k1 = k2 \<and> dq_delayTasks (snd (RemoveDelayTask os k2 s2)) = [(k2, w2)]"
proof -
  have id: "CalculateDelayTaskId (n + 16) e = CalculateDelayTaskId n e" for e
  proof -
    have t: "take_bit 4 (unat (n + 16)) = take_bit 4 (unat n)"
      by (simp add: take_bit_eq_mod unat_word_ariths mod_mod_cancel)
    have "bit (n + 16) j = bit n j" if "j < 4" for j
      using that arg_cong[OF t, of "\<lambda>x. bit x j"] by (simp add: bit_take_bit_iff bit_unsigned_iff)
    then show ?thesis
      by (auto intro!: bit_word_eqI simp: CalculateDelayTaskId_def TIMESTAMP_BITS_def bit_simps)
  qed
  from assms(7) have s1: "k1 = CalculateDelayTaskId n (os_now os + ucast d * MS_PER_S * US_PER_MS)" "dq_delayTasks s1 = [(k1, w1)]"
    "dq_executor s1 = dq_executor s"
    using assms(1-6) by (auto simp: AddDelayTask_def Let_def insert_before_def)
  moreover have "task_time k1 = os_now os + ucast d * MS_PER_S * US_PER_MS"
    using s1(1) task_time_id sane_sum(2)[OF assms(4)] by simp
  ultimately have "k2 = k1" "dq_delayTasks s2 = [(k1, w1), (k2, w2)]"
    using assms(3,5-) id by (auto simp: AddDelayTask_def Let_def insert_before_def)
  then show ?thesis by (auto simp: RemoveDelayTask_def Let_def split: option.split)
qed

theorem delay_ids_collide_witness:
  "let (k1, s1) = AddDelayTask sample_os (Task 1) 5 sample_queue;
       (k2, s2) = AddDelayTask sample_os (Task 2) 5 (s1\<lparr>dq_delaySequence := 16\<rparr>)
   in k1 = k2 \<and> dq_delayTasks (snd (RemoveDelayTask sample_os k2 s2)) = [(k2, Task 2)]"
  using delay_ids_collide[of sample_queue 0 sample_os 5 "Task 1", OF _ _ _ sample_queue_ok(2)]
  by (auto simp: sample_queue_def sample_os_def split: prod.split)

end
