(* ===== verification/Temp_Files.thy ===== *)
theory Temp_Files
  imports Epoll
begin

text \<open>
  The temporary fault logs: their configuration (\<^verbatim>\<open>src/services/fault_logger_config.cpp\<close>), names,
  quotas, records and the directory watcher (\<^verbatim>\<open>src/services/temp_file_manager.cpp\<close>).

  Files are a map from paths to sizes.  The kernel and the utility library are parameters: what the
  directory holds, the time, and whether removing or truncating a file succeeds.  The JSON library
  is a parameter as well, a record of its accessors over an arbitrary type of values.
\<close>

section \<open>Configuration\<close>

datatype OverFileSizeAction = CROP | DELETE
datatype OverTimeFileDeleteType = PASSIVE | ACTIVE

record SingleFileConfig =
  fc_type :: int
  fc_fileNamePrefix :: string
  fc_maxSingleFileSize :: u64
  fc_overFileSizeAction :: OverFileSizeAction
  fc_fileExistTime :: int
  fc_overTimeFileDeleteType :: OverTimeFileDeleteType
  fc_keepFileCount :: int
  fc_maxFileCount :: int
  fc_fileOwnerUid :: int

record DirectoryConfig =
  dc_tempFilePath :: string
  dc_maxTempFilesSize :: u64
  dc_fileClearTimeAfterBoot :: u32
  dc_singleFileConfigs :: "SingleFileConfig list"

record 'j Cjson =
  js_item :: "'j \<Rightarrow> string \<Rightarrow> 'j option"
  js_string :: "'j \<Rightarrow> string option"
  js_number :: "'j \<Rightarrow> int option"
  js_array :: "'j \<Rightarrow> 'j option list option"

definition GetStringValueFromJson :: "'j Cjson \<Rightarrow> 'j option \<Rightarrow> string" where
  "GetStringValueFromJson J json = (case Option.bind json (js_string J) of None \<Rightarrow> [] | Some s \<Rightarrow> s)"

definition GetInt32ValueFromJson :: "'j Cjson \<Rightarrow> 'j option \<Rightarrow> int \<Rightarrow> int" where
  "GetInt32ValueFromJson J json defaultValue = (case Option.bind json (js_number J) of None \<Rightarrow> defaultValue | Some n \<Rightarrow> n)"

definition clamp :: "int \<Rightarrow> int \<Rightarrow> int \<Rightarrow> int" where
  "clamp v lo hi = (if v < lo then lo else if hi < v then hi else v)"

definition MAX_NUM_INT32 :: int where "MAX_NUM_INT32 = 2 ^ 31 - 1"

definition ParseSingleFileConfig :: "'j Cjson \<Rightarrow> 'j option \<Rightarrow> SingleFileConfig list \<Rightarrow> SingleFileConfig list" where
  "ParseSingleFileConfig J tempFile configs =
    (case tempFile of
       None \<Rightarrow> configs
     | Some j \<Rightarrow>
         (let int_of = (\<lambda>name. GetInt32ValueFromJson J (js_item J j name));
              string_of = (\<lambda>name. GetStringValueFromJson J (js_item J j name));
              maxFileSize = clamp (int_of ''maxSingleFileSizeInKB'' 0) 0 MAX_NUM_INT32;
              fileExistTime = int_of ''fileExistTimeInSecond'' (- 1);
              keepFileCount = clamp (int_of ''keepFileCount'' (- 1)) (- 1) MAX_NUM_INT32
          in configs @ [\<lparr>
               fc_type = int_of ''type'' 0,
               fc_fileNamePrefix = string_of ''fileNamePrefix'',
               fc_maxSingleFileSize = push_bit 10 (word_of_int maxFileSize),
               fc_overFileSizeAction = (if string_of ''overFileSizeAction'' = ''DELETE'' then DELETE else CROP),
               fc_fileExistTime = (if fileExistTime \<le> 0 then - 1 else fileExistTime),
               fc_overTimeFileDeleteType =
                 (if 0 < fileExistTime \<and> string_of ''overTimeFileDeleteType'' = ''ACTIVE'' then ACTIVE else PASSIVE),
               fc_keepFileCount = keepFileCount,
               fc_maxFileCount = clamp (int_of ''maxFileCount'' (- 1)) keepFileCount MAX_NUM_INT32,
               fc_fileOwnerUid = int_of ''fileOwnerUid'' (- 1)\<rparr>]))"

definition DirectoryConfig_init :: DirectoryConfig where
  "DirectoryConfig_init = \<lparr>dc_tempFilePath = [], dc_maxTempFilesSize = 0, dc_fileClearTimeAfterBoot = 0, dc_singleFileConfigs = []\<rparr>"

definition ParseDirectoryConfig :: "'j Cjson \<Rightarrow> 'j option \<Rightarrow> DirectoryConfig \<Rightarrow> DirectoryConfig" where
  "ParseDirectoryConfig J json dc =
    (case json of
       None \<Rightarrow> dc
     | Some j \<Rightarrow>
         (let int_of = (\<lambda>name. GetInt32ValueFromJson J (js_item J j name) 0);
              tempFiles = Option.bind (js_item J j ''tempFiles'') (js_array J)
          in dc\<lparr>dc_tempFilePath := GetStringValueFromJson J (js_item J j ''tempFilePath''),
               dc_maxTempFilesSize := push_bit 10 (word_of_int (clamp (int_of ''maxTempFilesSizeInKB'') 0 MAX_NUM_INT32)),
               dc_fileClearTimeAfterBoot := word_of_int (clamp (int_of ''fileClearTimeAfterBootInSecond'') 120 MAX_NUM_INT32),
               dc_singleFileConfigs :=
                 (case tempFiles of
                    None \<Rightarrow> dc_singleFileConfigs dc
                  | Some xs \<Rightarrow> fold (ParseSingleFileConfig J) xs (dc_singleFileConfigs dc))\<rparr>))"

section \<open>Names\<close>

definition after_last :: "char \<Rightarrow> string \<Rightarrow> string" where
  "after_last c s = rev (takeWhile (\<lambda>x. x \<noteq> c) (rev s))"

definition name_prefix :: "string \<Rightarrow> string" where
  "name_prefix filePath = takeWhile (\<lambda>x. x \<noteq> CHR ''-'') (after_last (CHR ''/'') filePath)"

definition GetTargetFileConfig_path :: "DirectoryConfig \<Rightarrow> string \<Rightarrow> SingleFileConfig option" where
  "GetTargetFileConfig_path dc filePath =
    List.find (\<lambda>c. name_prefix filePath = fc_fileNamePrefix c) (dc_singleFileConfigs dc)"

definition GetTargetFileConfig_type :: "DirectoryConfig \<Rightarrow> int \<Rightarrow> SingleFileConfig option" where
  "GetTargetFileConfig_type dc type' = List.find (\<lambda>c. fc_type c = type') (dc_singleFileConfigs dc)"

text \<open>
  \<^verbatim>\<open>strtoull\<close> in base 10 on the string up to its terminator: the value, saturated with
  \<^verbatim>\<open>ERANGE\<close>, whether any digit was read, and what follows.  A minus sign cannot occur, since the
  callers pass what follows the last one.
\<close>

definition is_space :: "char \<Rightarrow> bool" where
  "is_space c \<longleftrightarrow> c = CHR '' '' \<or> (9 \<le> (of_char c :: nat) \<and> (of_char c :: nat) \<le> 13)"

definition is_digit :: "char \<Rightarrow> bool" where
  "is_digit c \<longleftrightarrow> 48 \<le> (of_char c :: nat) \<and> (of_char c :: nat) \<le> 57"

definition digits_value :: "string \<Rightarrow> nat" where
  "digits_value ds = foldl (\<lambda>n c. 10 * n + (of_char c - 48)) 0 ds"

definition strtoull :: "string \<Rightarrow> nat \<times> bool \<times> string" where
  "strtoull s =
    (let s1 = dropWhile is_space s;
         s2 = (case s1 of c # r \<Rightarrow> if c = CHR ''+'' then r else s1 | [] \<Rightarrow> s1);
         ds = takeWhile is_digit s2
     in (digits_value ds, ds \<noteq> [], dropWhile is_digit s2))"

definition timeStrLen :: nat where "timeStrLen = 13"

definition GetTimeFromFileName :: "string \<Rightarrow> u64" where
  "GetTimeFromFileName fileName =
    (if CHR ''-'' \<notin> set fileName then 0
     else
       (let timeStr = takeWhile (\<lambda>c. c \<noteq> CHR 0x00) (take timeStrLen (after_last (CHR ''-'') fileName));
            (num, any, rest) = strtoull timeStr
        in if 2 ^ 64 \<le> num \<or> \<not> any \<or> rest \<noteq> [] then 0 else of_nat num))"

text \<open>\<^verbatim>\<open>std::to_string\<close>.\<close>

fun nat_string :: "nat \<Rightarrow> string" where
  "nat_string n = (if n < 10 then [char_of (48 + n)] else nat_string (n div 10) @ [char_of (48 + n mod 10)])"

declare nat_string.simps [simp del]

definition int_string :: "int \<Rightarrow> string" where
  "int_string i = (if i < 0 then CHR ''-'' # nat_string (nat (- i)) else nat_string (nat i))"

definition CPP_CRASH :: int where "CPP_CRASH = 2"
definition CPP_STACKTRACE :: int where "CPP_STACKTRACE = 101"
definition LEAK_STACKTRACE :: int where "LEAK_STACKTRACE = 106"
definition JIT_CODE_LOG :: int where "JIT_CODE_LOG = 108"
definition MINIDUMP :: int where "MINIDUMP = 113"

definition needTidFaultTypes :: "int list" where
  "needTidFaultTypes = [103, 104, 115, 117, 118, 119, 120, 121]"

definition needRawheapExtFaultTypes :: "int list" where
  "needRawheapExtFaultTypes = [104, 118, 121]"

definition GenerateFileName :: "u64 \<Rightarrow> DirectoryConfig \<Rightarrow> SingleFileConfig \<Rightarrow> int \<Rightarrow> int \<Rightarrow> u64 \<Rightarrow> string" where
  "GenerateFileName nowMs dc config pid tid time =
    dc_tempFilePath dc @ ''/'' @ fc_fileNamePrefix config @ ''-'' @ int_string pid @
    (if fc_type config \<in> set needTidFaultTypes \<and> tid \<noteq> - 1 then ''-'' @ int_string tid else []) @
    ''-'' @ nat_string (unat (if time = 0 then nowMs else time)) @
    (if fc_type config \<in> set needRawheapExtFaultTypes then ''.rawheap''
     else if fc_type config = CPP_CRASH then ''.json''
     else if fc_type config = MINIDUMP then ''.dmp'' else [])"

section \<open>State of the helper thread\<close>

record FileOs = Os +
  os_ms :: u64
  os_rm :: "string \<Rightarrow> bool"
  os_truncate :: "string \<Rightarrow> bool"
  os_files :: "string list"

datatype FileTask = Remove_file string

record Monitor =
  mo_filePath :: string
  mo_maxSingleFileSize :: u64
  mo_overFileSizeAction :: OverFileSizeAction

record Helper = "(FileTask, Monitor) PeriodicTaskQueue" +
  tf_files :: "string \<Rightarrow> u64 option"
  tf_fileCounts :: "(int \<times> int) list"
  tf_fileSizeMonitorTasks :: "string \<Rightarrow> u64 option"

definition GetFileSize :: "string \<Rightarrow> Helper \<Rightarrow> u64" where
  "GetFileSize filePath s = (case tf_files s filePath of None \<Rightarrow> 0 | Some n \<Rightarrow> n)"

definition RemoveTempFile :: "FileOs \<Rightarrow> string \<Rightarrow> Helper \<Rightarrow> bool \<times> Helper" where
  "RemoveTempFile os filePath s =
    (if os_rm os filePath then (True, s\<lparr>tf_files := (tf_files s)(filePath := None)\<rparr>) else (False, s))"

text \<open>\<^verbatim>\<open>remove_if\<close> with a predicate that changes the state, applied from the front.\<close>

fun remove_if_st :: "('a \<Rightarrow> 's \<Rightarrow> bool \<times> 's) \<Rightarrow> 'a list \<Rightarrow> 's \<Rightarrow> 'a list \<times> 's" where
  "remove_if_st P [] s = ([], s)"
| "remove_if_st P (x # xs) s =
    (case P x s of (rm, s1) \<Rightarrow> case remove_if_st P xs s1 of (ys, s2) \<Rightarrow> (if rm then ys else x # ys, s2))"

section \<open>Quotas\<close>

definition RemoveTimeOutFileIfNeed :: "FileOs \<Rightarrow> SingleFileConfig \<Rightarrow> string list \<Rightarrow> Helper \<Rightarrow> string list \<times> Helper" where
  "RemoveTimeOutFileIfNeed os cfg tempFiles s =
    (if fc_fileExistTime cfg < 0 \<or> fc_keepFileCount cfg < 0 \<or> int (length tempFiles) \<le> fc_keepFileCount cfg then (tempFiles, s)
     else remove_if_st (\<lambda>f s.
       (let fileCreateTime = GetTimeFromFileName f
        in if os_ms os < fileCreateTime \<or> fileCreateTime + word_of_int (fc_fileExistTime cfg) * 1000 < os_ms os
           then RemoveTempFile os f s else (False, s))) tempFiles s)"

definition remove_counted :: "FileOs \<Rightarrow> string \<Rightarrow> nat \<times> Helper \<Rightarrow> bool \<times> nat \<times> Helper" where
  "remove_counted os f ns =
    (case ns of (deleteNum, s) \<Rightarrow>
      if 0 < deleteNum then
        (case RemoveTempFile os f s of (ok, s1) \<Rightarrow> (ok, if ok then deleteNum - 1 else deleteNum, s1))
      else (False, deleteNum, s))"

definition ForceRemoveFileIfNeed :: "FileOs \<Rightarrow> SingleFileConfig \<Rightarrow> string list \<Rightarrow> Helper \<Rightarrow> string list \<times> Helper" where
  "ForceRemoveFileIfNeed os cfg tempFiles s =
    (if fc_maxFileCount cfg < 0 \<or> int (length tempFiles) \<le> fc_maxFileCount cfg then (tempFiles, s)
     else
       (let sorted' = (if fc_keepFileCount cfg \<noteq> 0 then sort_key GetTimeFromFileName tempFiles else tempFiles);
            deleteNum = (if fc_keepFileCount cfg < 0 then 1
                         else unat (of_nat (length tempFiles) - word_of_int (fc_keepFileCount cfg) :: u64));
            (files, (_, s1)) = remove_if_st (remove_counted os) sorted' (deleteNum, s)
        in (files, s1)))"

definition CheckTempFileSize ::
    "FileOs \<Rightarrow> u64 \<Rightarrow> OverFileSizeAction \<Rightarrow> string \<Rightarrow> Helper \<Rightarrow> u64 \<times> Helper" where
  "CheckTempFileSize os maxSize action filePath s =
    (let originFileSize = GetFileSize filePath s
     in if 0 < originFileSize \<and> (originFileSize \<le> maxSize \<or> maxSize = 0) then (originFileSize, s)
        else if action = DELETE \<or> originFileSize = 0 then (0, snd (RemoveTempFile os filePath s))
        else (maxSize, if os_truncate os filePath then s\<lparr>tf_files := (tf_files s)(filePath \<mapsto> maxSize)\<rparr> else s))"

definition CheckTempFileSize_list :: "FileOs \<Rightarrow> SingleFileConfig \<Rightarrow> string list \<Rightarrow> Helper \<Rightarrow> u64 \<times> string list \<times> Helper" where
  "CheckTempFileSize_list os cfg tempFiles s =
    (case remove_if_st (\<lambda>f (total', s).
       case CheckTempFileSize os (fc_maxSingleFileSize cfg) (fc_overFileSizeAction cfg) f s of
         (fileSize, s1) \<Rightarrow> (fileSize = 0, total' + fileSize, s1)) tempFiles (0, s) of
       (files, (total', s1)) \<Rightarrow> (total', files, s1))"

definition npos_find :: "string \<Rightarrow> nat \<Rightarrow> string \<Rightarrow> bool" where
  "npos_find pat pos s \<longleftrightarrow> (\<exists>i \<in> {pos ..< Suc (length s)}. i + length pat \<le> length s \<and> take (length pat) (drop i s) = pat)"

definition GetTempFiles :: "FileOs \<Rightarrow> DirectoryConfig \<Rightarrow> SingleFileConfig \<Rightarrow> string list" where
  "GetTempFiles os dc cfg = filter (npos_find (fc_fileNamePrefix cfg) (length (dc_tempFilePath dc))) (os_files os)"

section \<open>Counters\<close>

definition GetTargetFileCount :: "int \<Rightarrow> Helper \<Rightarrow> int \<times> Helper" where
  "GetTargetFileCount type' s =
    (case List.find (\<lambda>p. fst p = type') (tf_fileCounts s) of
       None \<Rightarrow> (0, s\<lparr>tf_fileCounts := tf_fileCounts s @ [(type', 0)]\<rparr>)
     | Some p \<Rightarrow> (snd p, s))"

definition set_file_count :: "int \<Rightarrow> int \<Rightarrow> Helper \<Rightarrow> Helper" where
  "set_file_count type' n s =
    (let s1 = snd (GetTargetFileCount type' s)
     in s1\<lparr>tf_fileCounts := update_first (\<lambda>p. fst p = type') (\<lambda>p. (type', n)) (tf_fileCounts s1)\<rparr>)"

section \<open>The watcher\<close>

definition FILE_SIZE_MONITOR_INTERVAL :: u32 where "FILE_SIZE_MONITOR_INTERVAL = 10"

definition IN_CLOSE_WRITE :: u32 where "IN_CLOSE_WRITE = 0x8"
definition IN_MOVED_FROM :: u32 where "IN_MOVED_FROM = 0x40"
definition IN_MOVED_TO :: u32 where "IN_MOVED_TO = 0x80"
definition IN_CREATE :: u32 where "IN_CREATE = 0x100"
definition IN_DELETE :: u32 where "IN_DELETE = 0x200"
definition IN_DELETE_SELF :: u32 where "IN_DELETE_SELF = 0x400"

definition HandleFileCreate :: "FileOs \<Rightarrow> DirectoryConfig \<Rightarrow> string \<Rightarrow> SingleFileConfig \<Rightarrow> Helper \<Rightarrow> Helper" where
  "HandleFileCreate os dc filePath cfg s =
    (let (n, s1) = GetTargetFileCount (fc_type cfg) s;
         currentFileCount = n + 1;
         s2 = set_file_count (fc_type cfg) currentFileCount s1;
         s3 = (if fc_overTimeFileDeleteType cfg = ACTIVE
               then snd (AddDelayTask (Os.truncate os) (Task (Remove_file filePath)) (word_of_int (fc_fileExistTime cfg)) s2) else s2);
         s4 = (if (0 \<le> fc_keepFileCount cfg \<and> fc_keepFileCount cfg < currentFileCount) \<or>
                  (0 \<le> fc_maxFileCount cfg \<and> fc_maxFileCount cfg < currentFileCount)
               then
                 (case RemoveTimeOutFileIfNeed os cfg (GetTempFiles os dc cfg) s3 of
                    (files, u) \<Rightarrow> snd (ForceRemoveFileIfNeed os cfg files u))
               else s3)
     in if 0 < fc_maxSingleFileSize cfg then
          (case AddPeriodicTask (Os.truncate os)
              \<lparr>mo_filePath = filePath, mo_maxSingleFileSize = fc_maxSingleFileSize cfg, mo_overFileSizeAction = fc_overFileSizeAction cfg\<rparr>
              FILE_SIZE_MONITOR_INTERVAL s4 of
             (taskId, s5) \<Rightarrow>
               if 0 < taskId then s5\<lparr>tf_fileSizeMonitorTasks := (tf_fileSizeMonitorTasks s5)(filePath \<mapsto> taskId)\<rparr> else s5)
        else s4)"

definition stop_monitor :: "FileOs \<Rightarrow> string \<Rightarrow> Helper \<Rightarrow> Helper" where
  "stop_monitor os filePath s =
    (case tf_fileSizeMonitorTasks s filePath of
       None \<Rightarrow> s
     | Some taskId \<Rightarrow>
         (let s1 = snd (RemovePeriodicTask (Os.truncate os) taskId s)
          in s1\<lparr>tf_fileSizeMonitorTasks := (tf_fileSizeMonitorTasks s1)(filePath := None)\<rparr>))"

definition HandleFileDeleteOrMove :: "FileOs \<Rightarrow> string \<Rightarrow> SingleFileConfig \<Rightarrow> Helper \<Rightarrow> Helper" where
  "HandleFileDeleteOrMove os filePath cfg s =
    (let (n, s1) = GetTargetFileCount (fc_type cfg) s
     in stop_monitor os filePath (if 0 < n then set_file_count (fc_type cfg) (n - 1) s1 else s1))"

definition HandleFileWrite :: "FileOs \<Rightarrow> string \<Rightarrow> SingleFileConfig \<Rightarrow> Helper \<Rightarrow> Helper" where
  "HandleFileWrite os filePath cfg s =
    stop_monitor os filePath
      (if tf_files s filePath \<noteq> None
       then snd (CheckTempFileSize os (fc_maxSingleFileSize cfg) (fc_overFileSizeAction cfg) filePath s) else s)"

definition HandleEvent :: "FileOs \<Rightarrow> DirectoryConfig \<Rightarrow> u32 \<Rightarrow> string \<Rightarrow> SingleFileConfig \<Rightarrow> Helper \<Rightarrow> Helper" where
  "HandleEvent os dc eventMask filePath cfg s =
    (let s1 = (if eventMask AND IN_CREATE \<noteq> 0 then HandleFileCreate os dc filePath cfg s else s);
         s2 = (if eventMask AND (IN_MOVED_FROM OR IN_DELETE) \<noteq> 0 then HandleFileDeleteOrMove os filePath cfg s1 else s1);
         s3 = (if eventMask AND IN_CLOSE_WRITE \<noteq> 0 then HandleFileWrite os filePath cfg s2 else s2)
     in if eventMask AND IN_MOVED_TO \<noteq> 0
        then HandleFileWrite os filePath cfg (HandleFileCreate os dc filePath cfg s3) else s3)"

text \<open>
  \<^verbatim>\<open>OnEventPoll\<close> on the events of one read, as mask and name, the name empty for an event of the
  directory itself.  \<open>fd\<close> is the watcher's own descriptor.
\<close>

definition HandleDirRemoved :: "FileOs \<Rightarrow> int \<Rightarrow> Helper \<Rightarrow> Helper" where
  "HandleDirRemoved os fd s = snd (RemoveListener (Os.truncate os) fd s)"

fun OnEventPoll_watcher :: "FileOs \<Rightarrow> DirectoryConfig \<Rightarrow> int \<Rightarrow> (u32 \<times> string) list \<Rightarrow> Helper \<Rightarrow> EventResult \<times> Helper" where
  "OnEventPoll_watcher os dc fd [] s = (KEEP, s)"
| "OnEventPoll_watcher os dc fd ((eventMask, name) # es) s =
    (if eventMask AND IN_DELETE_SELF \<noteq> 0 then (KEEP, HandleDirRemoved os fd s)
     else
       OnEventPoll_watcher os dc fd es
         (if name \<noteq> [] then
            (let filePath = dc_tempFilePath dc @ ''/'' @ name
             in case GetTargetFileConfig_path dc name of
                  None \<Rightarrow> snd (RemoveTempFile os filePath s)
                | Some cfg \<Rightarrow> HandleEvent os dc eventMask filePath cfg s)
          else s))"

text \<open>The work functions of the helper thread.\<close>

definition run_monitor :: "FileOs \<Rightarrow> Monitor PeriodicTask_scheme \<Rightarrow> Helper \<Rightarrow> bool \<times> Helper" where
  "run_monitor os t s =
    (let mo = PeriodicTask.more t
     in if tf_files s (mo_filePath mo) = None then (False, s)
        else if mo_maxSingleFileSize mo < GetFileSize (mo_filePath mo) s
        then (True, snd (CheckTempFileSize os (mo_maxSingleFileSize mo) (mo_overFileSizeAction mo) (mo_filePath mo) s))
        else (True, s))"

section \<open>Start of the daemon\<close>

definition RestartDeleteTaskOnStart :: "FileOs \<Rightarrow> DirectoryConfig \<Rightarrow> int \<Rightarrow> string list \<Rightarrow> Helper \<Rightarrow> Helper" where
  "RestartDeleteTaskOnStart os dc existTimeInSecond files s =
    fold (\<lambda>file s.
      (let createTime = GetTimeFromFileName file;
           existDuration = (if createTime < os_ms os then sint (ucast ((os_ms os - createTime) div 1000) :: u32) else 0);
           existTimeLeft = (if existDuration < existTimeInSecond then existTimeInSecond - existDuration else 0);
           clearTime = sint (dc_fileClearTimeAfterBoot dc);
           fileClearTime = (if clearTime < existTimeLeft then existTimeLeft else clearTime)
       in snd (AddDelayTask (Os.truncate os) (Task (Remove_file file)) (word_of_int fileClearTime) s))) files s"

definition bigFileLimit :: u64 where "bigFileLimit = 100 * 1024 * 1024"

definition scan_config :: "FileOs \<Rightarrow> DirectoryConfig \<Rightarrow> bool \<Rightarrow> SingleFileConfig \<times> string list \<Rightarrow> Helper \<Rightarrow> Helper" where
  "scan_config os dc isOverLimit p s =
    (case p of (cfg, files) \<Rightarrow>
      if isOverLimit \<and> bigFileLimit \<le> fc_maxSingleFileSize cfg then
        set_file_count (fc_type cfg) 0 (fold (\<lambda>f s. snd (RemoveTempFile os f s)) files s)
      else
        (case ForceRemoveFileIfNeed os cfg files s of (files', s1) \<Rightarrow>
          (let s2 = set_file_count (fc_type cfg) (int (length files')) s1
           in if fc_overTimeFileDeleteType cfg = ACTIVE then RestartDeleteTaskOnStart os dc (fc_fileExistTime cfg) files' s2 else s2)))"

text \<open>
  The files grouped by the configuration their name leads to.  The map of the source is ordered by
  the address of the configuration, the null pointer first, which is the order of the vector.
\<close>

definition known_files :: "FileOs \<Rightarrow> DirectoryConfig \<Rightarrow> (SingleFileConfig \<times> string list) list" where
  "known_files os dc =
    filter (\<lambda>p. snd p \<noteq> []) (map (\<lambda>i. let cfg = dc_singleFileConfigs dc ! i in
      (cfg, filter (\<lambda>f. List.find (\<lambda>j. name_prefix f = fc_fileNamePrefix (dc_singleFileConfigs dc ! j))
        [0..<length (dc_singleFileConfigs dc)] = Some i) (os_files os))) [0..<length (dc_singleFileConfigs dc)])"

definition unknown_files :: "FileOs \<Rightarrow> DirectoryConfig \<Rightarrow> string list" where
  "unknown_files os dc = filter (\<lambda>f. GetTargetFileConfig_path dc f = None) (os_files os)"

fun check_sizes :: "FileOs \<Rightarrow> (SingleFileConfig \<times> string list) list \<Rightarrow> Helper \<Rightarrow> u64 \<times> (SingleFileConfig \<times> string list) list \<times> Helper" where
  "check_sizes os [] s = (0, [], s)"
| "check_sizes os ((cfg, files) # ps) s =
    (case CheckTempFileSize_list os cfg files s of (n, files', s1) \<Rightarrow>
       case check_sizes os ps s1 of (m, ps', s2) \<Rightarrow> (n + m, (cfg, files') # ps', s2))"

definition ScanTempFilesOnStart :: "FileOs \<Rightarrow> DirectoryConfig \<Rightarrow> Helper \<Rightarrow> Helper" where
  "ScanTempFilesOnStart os dc s =
    (let s1 = fold (\<lambda>f s. snd (RemoveTempFile os f s)) (unknown_files os dc) s;
         (filesSize, ps, s2) = check_sizes os (known_files os dc) s1
     in fold (scan_config os dc (dc_maxTempFilesSize dc < filesSize)) ps s2)"

text \<open>
  \<^verbatim>\<open>Init\<close>, with whether the directory exists or can be created, the descriptor of \<^verbatim>\<open>inotify_init\<close> and whether
  the watch can be added.
\<close>

definition InitTempFileWatcher :: "FileOs \<Rightarrow> int \<Rightarrow> bool \<Rightarrow> Helper \<Rightarrow> bool \<times> Helper" where
  "InitTempFileWatcher os watchFd watchOk s =
    (if watchFd < 0 \<or> \<not> watchOk then (False, s)
     else AddListener (Os.truncate os) (EpollListener_new (os_now os) watchFd (- 1) TempFileWatcher) s)"

definition Init_temp_files :: "FileOs \<Rightarrow> DirectoryConfig \<Rightarrow> bool \<Rightarrow> int \<Rightarrow> bool \<Rightarrow> Helper \<Rightarrow> bool \<times> Helper" where
  "Init_temp_files os dc dirOk watchFd watchOk s =
    (if dc_tempFilePath dc = [] \<or> \<not> dirOk then (False, s)
     else InitTempFileWatcher os watchFd watchOk (ScanTempFilesOnStart os dc s))"

section \<open>Records of created files\<close>

definition validTime :: int where "validTime = 8"

definition ClearTimeOutRecords :: "int \<Rightarrow> (int \<times> int) list \<Rightarrow> (int \<times> int) list" where
  "ClearTimeOutRecords currentTime records = remove_if (\<lambda>p. snd p + validTime \<le> currentTime) records"

definition CheckCrashFileRecord :: "int \<Rightarrow> int \<Rightarrow> (int \<times> int) list \<Rightarrow> bool \<times> (int \<times> int) list" where
  "CheckCrashFileRecord currentTime pid records =
    (let rs = ClearTimeOutRecords currentTime records
     in (List.find (\<lambda>p. fst p = pid) rs \<noteq> None, rs))"

definition RecordFileCreation :: "int \<Rightarrow> int \<Rightarrow> int \<Rightarrow> (int \<times> int) list \<Rightarrow> (int \<times> int) list" where
  "RecordFileCreation currentTime type' pid records =
    (let rs = ClearTimeOutRecords currentTime records
     in if type' \<noteq> CPP_CRASH then rs
        else if List.find (\<lambda>p. fst p = pid) rs \<noteq> None
        then update_first (\<lambda>p. fst p = pid) (\<lambda>p. (fst p, currentTime)) rs
        else rs @ [(pid, currentTime)])"

definition MAX_FD_FILE_COUNT :: nat where "MAX_FD_FILE_COUNT = 10"
definition BIG_FILE_SIZE_LIMIT :: u64 where "BIG_FILE_SIZE_LIMIT = 500 * 1024 * 1024"

definition uid_records :: "u32 \<Rightarrow> (string \<times> u32) list \<Rightarrow> nat" where
  "uid_records uid records = length (filter (\<lambda>r. snd r = uid) records)"

text \<open>The loop of \<^verbatim>\<open>ClearOverLimitFdFiles\<close>: the records left and the files it removes.\<close>

fun clear_over_limit :: "nat \<Rightarrow> u32 \<Rightarrow> (string \<times> u32) list \<Rightarrow> (string \<times> u32) list \<times> string list" where
  "clear_over_limit n uid records =
    (if n \<le> MAX_FD_FILE_COUNT then (records, [])
     else
       (case List.find (\<lambda>r. snd r = uid) records of
          None \<Rightarrow> (records, [])
        | Some r \<Rightarrow>
            (case clear_over_limit (n - 1) uid (erase_first (\<lambda>r. snd r = uid) records) of
               (rs, fs) \<Rightarrow> (rs, fst r # fs))))"

declare clear_over_limit.simps [simp del]

definition ClearOverLimitFdFiles :: "u32 \<Rightarrow> (string \<times> u32) list \<Rightarrow> (string \<times> u32) list \<times> string list" where
  "ClearOverLimitFdFiles uid records = clear_over_limit (uid_records uid records) uid records"

definition RecordFdFileCreation ::
    "DirectoryConfig \<Rightarrow> int \<Rightarrow> string \<Rightarrow> u32 \<Rightarrow> (string \<times> u32) list \<Rightarrow> (string \<times> u32) list \<times> string list" where
  "RecordFdFileCreation dc type' filePath uid records =
    (case GetTargetFileConfig_type dc type' of
       None \<Rightarrow> (records, [])
     | Some cfg \<Rightarrow>
         if fc_maxSingleFileSize cfg \<le> BIG_FILE_SIZE_LIMIT then (records, [])
         else (case ClearOverLimitFdFiles uid records of (rs, fs) \<Rightarrow> (rs @ [(filePath, uid)], fs)))"

text \<open>
  \<^verbatim>\<open>CreateFileDescriptor\<close>: the path, and the descriptor from \<^verbatim>\<open>open\<close>, which is a parameter.
\<close>

definition CreateFileDescriptor ::
    "u64 \<Rightarrow> (string \<Rightarrow> int) \<Rightarrow> DirectoryConfig \<Rightarrow> int \<Rightarrow> int \<Rightarrow> int \<Rightarrow> u64 \<Rightarrow> int \<times> string" where
  "CreateFileDescriptor nowMs open' dc type' pid tid time =
    (if type' < 0 then (- 1, [])
     else
       (case GetTargetFileConfig_type dc type' of
          None \<Rightarrow> (- 1, [])
        | Some cfg \<Rightarrow> (let filePath = GenerateFileName nowMs dc cfg pid tid time in (open' filePath, filePath))))"

section \<open>Well-formed configurations\<close>

definition config_ok :: "SingleFileConfig \<Rightarrow> bool" where
  "config_ok c \<longleftrightarrow> (fc_fileExistTime c = - 1 \<or> 0 < fc_fileExistTime c) \<and>
    (fc_overTimeFileDeleteType c = ACTIVE \<longrightarrow> 0 < fc_fileExistTime c) \<and>
    - 1 \<le> fc_keepFileCount c \<and> fc_keepFileCount c \<le> fc_maxFileCount c \<and> fc_maxFileCount c \<le> MAX_NUM_INT32 \<and>
    1024 dvd unat (fc_maxSingleFileSize c) \<and> unat (fc_maxSingleFileSize c) < 2 ^ 41"

text \<open>Two of the shipped configurations, whose prefixes overlap.\<close>

definition sample_config :: "int \<Rightarrow> string \<Rightarrow> SingleFileConfig" where
  "sample_config type' prefix = \<lparr>fc_type = type', fc_fileNamePrefix = prefix, fc_maxSingleFileSize = 2097152,
    fc_overFileSizeAction = CROP, fc_fileExistTime = - 1, fc_overTimeFileDeleteType = PASSIVE,
    fc_keepFileCount = 1, fc_maxFileCount = 2, fc_fileOwnerUid = - 1\<rparr>"

definition sample_dir :: DirectoryConfig where
  "sample_dir = \<lparr>dc_tempFilePath = ''/data/log/faultlog/temp'', dc_maxTempFilesSize = 2147483648, dc_fileClearTimeAfterBoot = 300,
    dc_singleFileConfigs = [sample_config 2 ''cppcrash'', sample_config 101 ''stacktrace'', sample_config (- 1) ''trace'']\<rparr>"

definition sample_helper :: Helper where
  "sample_helper = \<lparr>em_listeners = [], em_eventFd = 4, dq_executor = None, dq_delayTasks = [], dq_delaySequence = 0,
    dq_timers = Map.empty, pq_periodicTasks = [], pq_currentDelayTaskId = 0, pq_periodicSequence = 1,
    tf_files = Map.empty, tf_fileCounts = [], tf_fileSizeMonitorTasks = Map.empty\<rparr>"

definition sample_file_os :: FileOs where
  "sample_file_os = \<lparr>os_now = 1800000000, os_timerfd = 7, os_settime = True, os_ctl = (\<lambda>_. True),
    os_ms = 1700000000000, os_rm = (\<lambda>_. True), os_truncate = (\<lambda>_. True),
    os_files = [''/data/log/faultlog/temp/stacktrace-7-1700000000000'', ''/data/log/faultlog/temp/trace-7'']\<rparr>"

section \<open>Lemmas\<close>

lemma clamp_bounds: "lo \<le> hi \<Longrightarrow> lo \<le> clamp v lo hi \<and> clamp v lo hi \<le> hi"
  by (simp add: clamp_def)

lemma size_in_bytes:
  assumes "0 \<le> k" "k \<le> MAX_NUM_INT32"
  shows "unat (push_bit 10 (word_of_int k) :: u64) = 1024 * nat k"
proof -
  have "unat (word_of_int k :: u64) = nat k"
    using assms by (simp add: MAX_NUM_INT32_def unsigned_of_int take_bit_int_eq_self)
  moreover have "1024 * nat k < 2 ^ 64" using assms by (simp add: MAX_NUM_INT32_def)
  ultimately show ?thesis by (simp add: push_bit_eq_mult unat_word_ariths)
qed

lemma ParseSingleFileConfig_ok:
  assumes "list_all config_ok cs"
  shows "list_all config_ok (ParseSingleFileConfig J t cs)"
proof (cases t)
  case (Some j)
  let ?n = "\<lambda>name. GetInt32ValueFromJson J (js_item J j name)"
  let ?k = "clamp (?n ''keepFileCount'' (- 1)) (- 1) MAX_NUM_INT32"
  have k: "- 1 \<le> ?k" "?k \<le> MAX_NUM_INT32" using clamp_bounds by (auto simp: MAX_NUM_INT32_def)
  moreover have "?k \<le> clamp (?n ''maxFileCount'' (- 1)) ?k MAX_NUM_INT32" "clamp (?n ''maxFileCount'' (- 1)) ?k MAX_NUM_INT32 \<le> MAX_NUM_INT32"
    using clamp_bounds[OF k(2)] by auto
  moreover have "0 \<le> clamp (?n ''maxSingleFileSizeInKB'' 0) 0 MAX_NUM_INT32" "clamp (?n ''maxSingleFileSizeInKB'' 0) 0 MAX_NUM_INT32 \<le> MAX_NUM_INT32"
    using clamp_bounds by (auto simp: MAX_NUM_INT32_def)
  note z = this size_in_bytes[OF this]
  ultimately show ?thesis
    using assms z unfolding ParseSingleFileConfig_def Some
    by (auto simp: Let_def config_ok_def MAX_NUM_INT32_def)
qed (simp add: ParseSingleFileConfig_def assms)

lemma takeWhile_until [simp]: "c \<notin> set xs \<Longrightarrow> takeWhile (\<lambda>x. x \<noteq> c) (xs @ c # ys) = xs"
  by (subst takeWhile_append2) auto

lemma after_last_append: "c \<notin> set ys \<Longrightarrow> after_last c (xs @ c # ys) = ys"
  by (simp add: after_last_def)

lemma of_char_digit: "n < 10 \<Longrightarrow> of_char (char_of (48 + n) :: char) = 48 + n" for n :: nat
  by simp

lemma nat_string_digits: "\<forall>c \<in> set (nat_string n). is_digit c"
proof (induction n rule: nat_string.induct)
  case (1 n)
  then show ?case by (subst nat_string.simps) (auto simp: is_digit_def of_char_digit)
qed

lemma digits_value_snoc: "digits_value (ds @ [c]) = 10 * digits_value ds + (of_char c - 48)"
  by (simp add: digits_value_def)

lemma digits_value_nat_string [simp]: "digits_value (nat_string n) = n"
proof (induction n rule: nat_string.induct)
  case (1 n)
  show ?case
  proof (cases "n < 10")
    case True
    then show ?thesis by (subst nat_string.simps) (simp add: digits_value_def of_char_digit)
  next
    case False
    then show ?thesis using 1 by (subst nat_string.simps) (simp add: digits_value_snoc of_char_digit)
  qed
qed

lemma length_nat_string: "10 ^ k \<le> n \<Longrightarrow> n < 10 ^ Suc k \<Longrightarrow> length (nat_string n) = Suc k"
proof (induction k arbitrary: n)
  case (Suc k)
  then have "10 ^ k \<le> n div 10" "n div 10 < 10 ^ Suc k" by auto
  moreover have "\<not> n < 10" using Suc.prems(1) one_le_power[of "10 :: nat" k] unfolding power_Suc by linarith
  ultimately show ?case using Suc.IH[of "n div 10"] by (subst nat_string.simps) simp
qed (simp add: nat_string.simps)

lemma digit_not: "is_digit c \<Longrightarrow> c \<noteq> CHR ''-'' \<and> c \<noteq> CHR ''/'' \<and> c \<noteq> CHR 0x00 \<and> c \<noteq> CHR ''+'' \<and> \<not> is_space c"
  by (auto simp: is_digit_def is_space_def)

lemma strtoull_digits:
  assumes "\<forall>c \<in> set ds. is_digit c" "ds \<noteq> []"
  shows "strtoull ds = (digits_value ds, True, [])"
proof -
  obtain c r where c: "ds = c # r" using assms(2) by (cases ds) auto
  then have "dropWhile is_space ds = ds" "c \<noteq> CHR ''+''" using assms(1) digit_not by auto
  moreover have "takeWhile is_digit ds = ds" "dropWhile is_digit ds = []" using assms(1) by auto
  ultimately show ?thesis using c by (simp add: strtoull_def Let_def)
qed

lemma nat_string_chars [simp]:
  "CHR ''/'' \<notin> set (nat_string n)" "CHR ''-'' \<notin> set (nat_string n)" "CHR 0x00 \<notin> set (nat_string n)"
  using nat_string_digits[of n] digit_not by blast+

lemma nat_string_cstr [simp]: "takeWhile (\<lambda>c. c \<noteq> CHR 0x00) (nat_string n) = nat_string n"
  unfolding takeWhile_eq_all_conv using nat_string_chars(3)[of n] by metis

lemma int_string_no_slash [simp]: "CHR ''/'' \<notin> set (int_string i)"
  by (simp add: int_string_def)

lemma remove_counted_run:
  assumes "\<And>f. os_rm os f"
  shows "\<exists>s'. remove_if_st (remove_counted os) xs (n, s) = (drop n xs, (n - length xs, s')) \<and>
    tf_files s' = (\<lambda>f. if f \<in> set (take n xs) then None else tf_files s f)"
proof (induction xs arbitrary: n s)
  case (Cons x xs)
  show ?case
  proof (cases n)
    case 0
    have "remove_if_st (remove_counted os) ys (0, u) = (ys, (0, u))" for ys u
      by (induction ys) (simp_all add: remove_counted_def)
    from this[of "x # xs" s] show ?thesis using 0 by (simp del: remove_if_st.simps)
  next
    case (Suc m)
    obtain s' where "remove_if_st (remove_counted os) xs (m, s\<lparr>tf_files := (tf_files s)(x := None)\<rparr>) = (drop m xs, (m - length xs, s'))"
      "tf_files s' = (\<lambda>f. if f \<in> set (take m xs) then None else tf_files (s\<lparr>tf_files := (tf_files s)(x := None)\<rparr>) f)"
      using Cons[of m "s\<lparr>tf_files := (tf_files s)(x := None)\<rparr>"] by blast
    moreover have "remove_counted os x (Suc m, s) = (True, m, s\<lparr>tf_files := (tf_files s)(x := None)\<rparr>)"
      by (simp add: remove_counted_def RemoveTempFile_def assms)
    ultimately show ?thesis using Suc by auto
  qed
qed simp

lemma uid_records_erase:
  "List.find (\<lambda>r. snd r = uid) rs \<noteq> None \<Longrightarrow> uid_records uid (erase_first (\<lambda>r. snd r = uid) rs) = uid_records uid rs - 1"
  by (induction rs) (auto simp: uid_records_def split: if_splits)

lemma uid_records_erase_other:
  "uid' \<noteq> uid \<Longrightarrow> uid_records uid' (erase_first (\<lambda>r. snd r = uid) rs) = uid_records uid' rs"
  by (induction rs) (auto simp: uid_records_def)

lemma clear_over_limit_bound:
  "n = uid_records uid rs \<Longrightarrow> uid_records uid (fst (clear_over_limit n uid rs)) \<le> MAX_FD_FILE_COUNT \<and>
    (\<forall>uid'. uid' \<noteq> uid \<longrightarrow> uid_records uid' (fst (clear_over_limit n uid rs)) = uid_records uid' rs)"
proof (induction n arbitrary: rs)
  case 0
  then show ?case by (simp add: clear_over_limit.simps[of 0])
next
  case (Suc n)
  have f: "List.find (\<lambda>r. snd r = uid) rs \<noteq> None"
  proof
    assume "List.find (\<lambda>r. snd r = uid) rs = None"
    then have "uid_records uid rs = 0" by (auto simp: uid_records_def find_NoneD filter_empty_conv)
    then show False using Suc.prems by simp
  qed
  then obtain r where r: "List.find (\<lambda>r. snd r = uid) rs = Some r" by auto
  have e: "n = uid_records uid (erase_first (\<lambda>r. snd r = uid) rs)" using uid_records_erase[OF f] Suc.prems by simp
  have c: "fst (clear_over_limit (Suc n) uid rs) =
      (if Suc n \<le> MAX_FD_FILE_COUNT then rs else fst (clear_over_limit n uid (erase_first (\<lambda>r. snd r = uid) rs)))"
    by (subst clear_over_limit.simps) (simp add: r split: prod.split)
  show ?case
  proof (cases "Suc n \<le> MAX_FD_FILE_COUNT")
    case True
    then show ?thesis using c Suc.prems[symmetric] by simp
  next
    case False
    then show ?thesis using Suc.IH[OF e] uid_records_erase_other[of _ uid rs] unfolding c by simp
  qed
qed

section \<open>Properties\<close>

text \<open>
  C35. Whatever the configuration file holds, every file configuration the daemon works with is well
  formed: the existence time is positive or -1, files are deleted actively only with a positive
  existence time, the counts satisfy -1 <= keep <= max, and the size limit is a whole number of
  kilobytes below 2 TiB.
\<close>

theorem configs_well_formed:
  "list_all config_ok (dc_singleFileConfigs (ParseDirectoryConfig J json DirectoryConfig_init))"
proof -
  have "list_all config_ok (fold (ParseSingleFileConfig J) xs cs)" if "list_all config_ok cs" for xs cs
    using that by (induction xs arbitrary: cs) (auto intro: ParseSingleFileConfig_ok)
  then show ?thesis
    by (auto simp: ParseDirectoryConfig_def DirectoryConfig_init_def Let_def split: option.split)
qed



text \<open>
  C34. When a type exceeds its maximal count, exactly the newest files up to the keep count remain:
  ForceRemoveFileIfNeed removes all other files from the directory, oldest first by the time in
  the name, provided removing a file succeeds.
\<close>

theorem ForceRemove_keeps_newest:
  assumes "\<And>f. os_rm os f" "0 \<le> fc_keepFileCount cfg" "fc_keepFileCount cfg \<le> fc_maxFileCount cfg"
    and "fc_maxFileCount cfg < int (length files)" "length files < 2 ^ 64"
    and "n = length files - nat (fc_keepFileCount cfg)" "ForceRemoveFileIfNeed os cfg files s = (left, s')"
  shows "mset left = mset (drop n (sort_key GetTimeFromFileName files)) \<and> length left = nat (fc_keepFileCount cfg) \<and>
    tf_files s' = (\<lambda>f. if f \<in> set (take n (sort_key GetTimeFromFileName files)) then None else tf_files s f)"
proof -
  let ?fs = "if fc_keepFileCount cfg \<noteq> 0 then sort_key GetTimeFromFileName files else files"
  have k: "nat (fc_keepFileCount cfg) \<le> length files" using assms(2-4) by linarith
  have "unat (of_nat (length files) - word_of_int (fc_keepFileCount cfg) :: u64) = n"
  proof -
    have "word_of_int (fc_keepFileCount cfg) = (of_nat (nat (fc_keepFileCount cfg)) :: u64)" using assms(2) by simp
    then have "of_nat (length files) - word_of_int (fc_keepFileCount cfg) = (of_nat n :: u64)"
      using k assms(6) by simp
    then show ?thesis using assms(5,6) by (simp add: unat_of_nat)
  qed
  moreover obtain s2 where "remove_if_st (remove_counted os) ?fs (n, s) = (drop n ?fs, (n - length ?fs, s2))"
    "tf_files s2 = (\<lambda>f. if f \<in> set (take n ?fs) then None else tf_files s f)"
    using remove_counted_run[OF assms(1)] by blast
  ultimately have r: "left = drop n ?fs" "tf_files s' = (\<lambda>f. if f \<in> set (take n ?fs) then None else tf_files s f)"
    using assms(2-4,7) by (auto simp: ForceRemoveFileIfNeed_def Let_def)
  show ?thesis
  proof (cases "fc_keepFileCount cfg = 0")
    case True
    then show ?thesis using r assms(6) by simp
  next
    case False
    then show ?thesis using r k assms(6) by simp
  qed
qed

theorem ForceRemove_keeps_newest_witness:
  "\<exists>left s'. ForceRemoveFileIfNeed sample_file_os (sample_config 101 ''stacktrace'')
      [''stacktrace-7-1700000000003'', ''stacktrace-7-1700000000001'', ''stacktrace-8-1700000000002''] sample_helper = (left, s') \<and>
    length left = 1"
proof -
  obtain left s' where l: "ForceRemoveFileIfNeed sample_file_os (sample_config 101 ''stacktrace'')
      [''stacktrace-7-1700000000003'', ''stacktrace-7-1700000000001'', ''stacktrace-8-1700000000002''] sample_helper = (left, s')"
    by fastforce
  then show ?thesis
    using ForceRemove_keeps_newest[OF _ _ _ _ _ refl l] by (simp add: sample_file_os_def sample_config_def)
qed

text \<open>
  At most eleven large files of one user are on record, one more than the limit of ten: the
  limit is enforced before the new file is appended.
\<close>

theorem fd_records_bounded:
  "uid_records uid (fold (\<lambda>(type', filePath, u) rs. fst (RecordFdFileCreation dc type' filePath u rs)) requests [])
    \<le> Suc MAX_FD_FILE_COUNT"
proof -
  have step: "uid_records uid (fst (RecordFdFileCreation dc t f u rs)) \<le> Suc MAX_FD_FILE_COUNT"
    if "uid_records uid rs \<le> Suc MAX_FD_FILE_COUNT" for t f u rs
    using that clear_over_limit_bound[of "uid_records u rs" u rs]
    by (cases "u = uid") (auto simp: RecordFdFileCreation_def ClearOverLimitFdFiles_def uid_records_def split: option.split prod.split)
  have "uid_records uid (fold (\<lambda>(t, f, u) rs. fst (RecordFdFileCreation dc t f u rs)) requests rs) \<le> Suc MAX_FD_FILE_COUNT"
    if "uid_records uid rs \<le> Suc MAX_FD_FILE_COUNT" for rs
    using that by (induction requests arbitrary: rs) (auto intro: step)
  from this[of "[]"] show ?thesis by (simp add: uid_records_def)
qed

text \<open>
  C36. The quota of one type can delete files of another: the files of a configuration are looked
  up by searching its prefix anywhere in the name, so every file whose own prefix contains it, such
  as a stacktrace file for the prefix trace, is collected as well, although the watcher assigns it
  to a different configuration.
\<close>

theorem quota_mixes_types:
  assumes "fc_fileNamePrefix b = u @ fc_fileNamePrefix a @ v" "u \<noteq> []" "CHR ''-'' \<notin> set (fc_fileNamePrefix b)"
    and "CHR ''/'' \<notin> set (fc_fileNamePrefix b)" "CHR ''/'' \<notin> set rest"
    and "f = dc_tempFilePath dc @ ''/'' @ fc_fileNamePrefix b @ ''-'' @ rest" "f \<in> set (os_files os)"
  shows "f \<in> set (GetTempFiles os dc a) \<and> name_prefix f \<noteq> fc_fileNamePrefix a"
proof -
  have "after_last (CHR ''/'') f = fc_fileNamePrefix b @ ''-'' @ rest"
    using after_last_append[of "CHR ''/''" "fc_fileNamePrefix b @ ''-'' @ rest" "dc_tempFilePath dc"] assms(4-6) by simp
  then have "name_prefix f = fc_fileNamePrefix b" using assms(3) by (simp add: name_prefix_def)
  moreover have "length (fc_fileNamePrefix b) \<noteq> length (fc_fileNamePrefix a)" using assms(1,2) by simp
  moreover have "npos_find (fc_fileNamePrefix a) (length (dc_tempFilePath dc)) f"
    unfolding npos_find_def
    by (rule bexI[of _ "length (dc_tempFilePath dc) + 1 + length u"]) (auto simp: assms(1,6))
  ultimately show ?thesis using assms(7) by (auto simp: GetTempFiles_def)
qed

theorem quota_mixes_types_witness:
  "''/data/log/faultlog/temp/stacktrace-7-1700000000000'' \<in> set (GetTempFiles sample_file_os sample_dir (sample_config (- 1) ''trace''))"
  using quota_mixes_types[of "sample_config 101 ''stacktrace''" "''stack''" "sample_config (- 1) ''trace''" "[]" "''7-1700000000000''"
      "''/data/log/faultlog/temp/stacktrace-7-1700000000000''" sample_dir sample_file_os]
  by (simp add: sample_config_def sample_dir_def sample_file_os_def)

end
