(* ===== verification/Services.thy ===== *)
theory Services
  imports Pipes Temp_Files
begin

text \<open>
  The request handlers of the main server (\<^verbatim>\<open>src/services/fault_logger_service.cpp\<close>, with the signal
  helpers of \<^verbatim>\<open>fault_common_util.cpp\<close> and the switches of \<^verbatim>\<open>minidump_manager_service.cpp\<close>): the
  global state of the main thread as one record, one definition per \<^verbatim>\<open>Filter\<close> and \<^verbatim>\<open>OnRequest\<close>, and the
  work functions they schedule.

  What the handlers ask of the kernel during one request is the record \<open>MainOs\<close>; what they send, to
  sockets, processes and the event log, is the list \<open>d_out\<close>.
\<close>

section \<open>Requests and responses\<close>

datatype ResponseCode =
    DEFAULT_ERROR_CODE | REQUEST_SUCCESS | UNKNOWN_CLIENT_TYPE | INVALID_REQUEST_DATA | REQUEST_REJECT
  | ABNORMAL_SERVICE | SDK_DUMP_REPEAT | SDK_DUMP_NOPROC | SDK_PROCESS_CRASHED | CORE_DUMP_REPEAT
  | CORE_PROCESS_CRASHED | CORE_DUMP_NOPROC | RESOURCE_LIMIT | UN_SUPPORTED_FEATURE

definition SERVER_SOCKET_NAME :: string where "SERVER_SOCKET_NAME = ''faultloggerd.server''"
definition SERVER_CRASH_SOCKET_NAME :: string where "SERVER_CRASH_SOCKET_NAME = ''faultloggerd.crash.server''"
definition SERVER_SDKDUMP_SOCKET_NAME :: string where "SERVER_SDKDUMP_SOCKET_NAME = ''faultloggerd.sdkdump.server''"

record ucred =
  cr_pid :: int
  cr_uid :: u32

record siginfo =
  si_signo :: int
  si_code :: int
  si_value :: u64
  si_pid :: int
  si_uid :: u32

record FaultLoggerdRequest =
  fr_pid :: int
  fr_type :: int
  fr_tid :: int
  fr_time :: u64
  fr_minidump :: int

record SdkDumpRequestData =
  sr_pid :: int
  sr_sigCode :: int
  sr_tid :: int
  sr_callerTid :: int
  sr_time :: u64
  sr_endTime :: u64

record PipFdRequestData =
  pr_pid :: int
  pr_pipeType :: int

record LitePerfFdRequestData =
  lr_pid :: int
  lr_uid :: u32
  lr_pipeType :: int
  lr_timeout :: int
  lr_checkLimit :: bool

record LiteDumpFdRequestData =
  dr_pid :: int
  dr_uid :: u32
  dr_pipeType :: int
  dr_processName :: string

record MiniDumpRequestData =
  mr_pid :: int
  mr_uid :: u32
  mr_enableMinidump :: int
  mr_enableMinidumpToCrashLog :: int

record CrashDumpException =
  ce_pid :: int
  ce_uid :: int
  ce_time :: int
  ce_error :: int
  ce_message :: string

datatype FaultLoggerdStatType = DUMP_CATCHER | PROCESS_DUMP | Other_stat

record FaultLoggerdStatsRequest =
  st_type :: FaultLoggerdStatType
  st_pid :: int
  st_requestTime :: u64
  st_signalTime :: u64
  st_processdumpStartTime :: u64
  st_processdumpFinishTime :: u64
  st_dumpCatcherFinishTime :: u64
  st_keyThreadUnwindTimestamp :: u64
  st_result :: int
  st_targetProcessThreadCount :: u32
  st_writeDumpInfoCost :: u32
  st_smoParseTime :: u64
  st_pssMemory :: u32
  st_offset :: u64
  st_summary :: string
  st_callerElf :: "string option"
  st_callerProcess :: string
  st_targetProcess :: string

record DumpStats =
  ds_pid :: int
  ds_requestTime :: u64
  ds_signalTime :: u64
  ds_processdumpStartTime :: u64
  ds_processdumpFinishTime :: u64
  ds_dumpCatcherFinishTime :: u64
  ds_smoParseTime :: u64
  ds_keyThreadUnwindTimestamp :: u64
  ds_pssMemory :: u32
  ds_result :: int
  ds_targetProcessThreadCount :: u32
  ds_writeDumpInfoCost :: u32
  ds_summary :: string
  ds_callerProcessName :: string
  ds_callerElfName :: string
  ds_targetProcessName :: string

definition DumpStats_init :: DumpStats where
  "DumpStats_init = \<lparr>ds_pid = 0, ds_requestTime = 0, ds_signalTime = 0, ds_processdumpStartTime = 0,
    ds_processdumpFinishTime = 0, ds_dumpCatcherFinishTime = 0, ds_smoParseTime = 0, ds_keyThreadUnwindTimestamp = 0,
    ds_pssMemory = 0, ds_result = 0, ds_targetProcessThreadCount = 0, ds_writeDumpInfoCost = 0, ds_summary = [],
    ds_callerProcessName = [], ds_callerElfName = [], ds_targetProcessName = []\<rparr>"

record BinderPidsDumpRequestData =
  br_pid :: int
  br_pids :: "(int \<times> int) list"

section \<open>State\<close>

text \<open>The closures the main thread hands to the delay queue.\<close>

datatype MainTask =
    Report_stats FaultLoggerdStatsRequest
  | Clear_timeout_pairs
  | Clear_lite_dump_map
  | Clear_lite_dump_pipe_map
  | Del_limited_pipe int
  | Restore_dumpable int string u64
  | Remove_session int

datatype Effect =
    Send_code int ResponseCode
  | Send_fds int "int list"
  | Send_result int string int
  | Signal int siginfo
  | Thread_signal int int siginfo
  | Write_exception CrashDumpException
  | Write_stats DumpStats
  | Launch_processdump int
  | Remove_temp_file string
  | Coredump_statistics int int string int

record Daemon = "MainTask DelayTaskQueue" +
  d_sdkDumpPipes :: "FaultLoggerPipePair list"
  d_perfPipes :: "LitePerfPipePair list"
  d_limitedPipes :: "LimitedPipePair list"
  d_limiterReady :: bool
  d_perfCounts :: "int \<Rightarrow> int"
  d_devicePerfCount :: int
  d_launchLiteDumpMap :: "(int \<times> int) list"
  d_launchLiteDumpPipeMap :: "(int \<times> int) list"
  d_stats :: "DumpStats list"
  d_crashFileRecords :: "(int \<times> int) list"
  d_fdFileRecords :: "(string \<times> u32) list"
  d_pdumpFd :: int
  d_enableMinidump :: "(int \<times> int) list"
  d_disableMinidumpToCrashLog :: "int list"
  d_out :: "Effect list"

text \<open>
  Answers during one request: the time in milliseconds and in seconds, the count of the system clock, the peer credentials, the
  pipes \<^verbatim>\<open>pipe2\<close> creates, \<^verbatim>\<open>open\<close>, \<^verbatim>\<open>dup\<close>, the uid and signal mask of a process, its watchdog thread,
  whether queueing a signal succeeds, \<^verbatim>\<open>/proc/pid/cmdline\<close>, the start time in \<^verbatim>\<open>/proc/pid/stat\<close>, the
  no-new-privileges flag, \<^verbatim>\<open>pidfd_open\<close>, the system parameter for the extra directory and
  \<^verbatim>\<open>inotify\<close>, and the text of \<^verbatim>\<open>printf\<close> for an address.
\<close>

record MainOs = Os +
  os_msec :: u64
  os_abs_msec :: u64
  os_sec :: int
  os_clock :: u64
  os_cred :: "ucred option"
  os_pipe_buf :: pipe_fds
  os_pipe_res :: pipe_fds
  os_open :: "string \<Rightarrow> int"
  os_dup :: int
  os_uid_sigblk :: "int \<Rightarrow> (int \<times> bool) option"
  os_watchdog :: "int \<Rightarrow> int"
  os_tgsigqueue :: "int \<Rightarrow> bool"
  os_sigqueue :: "int \<Rightarrow> bool"
  os_cmdline :: "int \<Rightarrow> string"
  os_starttime :: "int \<Rightarrow> u64 option"
  os_no_new_priv :: "int \<Rightarrow> bool"
  os_pidfd :: "int \<Rightarrow> int"
  os_extra_path :: string
  os_inotify :: "int option"
  os_elf_text :: "string \<Rightarrow> u64 \<Rightarrow> string"

definition emit :: "Effect \<Rightarrow> 'm Daemon_scheme \<Rightarrow> 'm Daemon_scheme" where
  "emit e s = s\<lparr>d_out := d_out s @ [e]\<rparr>"

definition delay_task :: "MainOs \<Rightarrow> MainTask \<Rightarrow> u32 \<Rightarrow> 'm Daemon_scheme \<Rightarrow> u64 \<times> 'm Daemon_scheme" where
  "delay_task os w d s = AddDelayTask (Os.truncate os) (Task w) d s"

section \<open>Credentials\<close>

definition ARKWEB_MIN_UID :: int where "ARKWEB_MIN_UID = 1000001"
definition ARKWEB_MAX_UID :: int where "ARKWEB_MAX_UID = 1099999"
definition LITE_DUMP_LIMIT_ONE_DAY :: int where "LITE_DUMP_LIMIT_ONE_DAY = 60"
definition ONE_DAY_SEC :: u32 where "ONE_DAY_SEC = 24 * 60 * 60"

definition GetRealUid :: "int \<Rightarrow> int" where
  "GetRealUid uid = (if ARKWEB_MIN_UID \<le> uid \<and> uid \<le> ARKWEB_MAX_UID then ARKWEB_MIN_UID else uid)"

definition CheckCallerUID :: "u32 \<Rightarrow> bool" where
  "CheckCallerUID callerUid \<longleftrightarrow> callerUid \<in> set [0, 1000, 1201, 1202, 1212, 5523, 7400]"

definition CheckRequestCredential :: "ucred \<Rightarrow> int \<Rightarrow> bool" where
  "CheckRequestCredential creds requestPid \<longleftrightarrow> CheckCallerUID (cr_uid creds) \<or> cr_pid creds = requestPid"

section \<open>Signals\<close>

definition SendSignalToHapWatchdogThread ::
    "MainOs \<Rightarrow> int \<Rightarrow> siginfo \<Rightarrow> 'm Daemon_scheme \<Rightarrow> ResponseCode \<times> 'm Daemon_scheme" where
  "SendSignalToHapWatchdogThread os pid si s =
    (case os_uid_sigblk os pid of
       None \<Rightarrow> (DEFAULT_ERROR_CODE, s)
     | Some (uid, masked) \<Rightarrow>
         if uid < 10000 \<or> masked then (DEFAULT_ERROR_CODE, s)
         else if os_watchdog os pid \<le> 0 then (DEFAULT_ERROR_CODE, s)
         else if \<not> os_tgsigqueue os pid then (SDK_DUMP_NOPROC, s)
         else (REQUEST_SUCCESS, emit (Thread_signal pid (os_watchdog os pid) si) s))"

definition SendSignalToProcess :: "MainOs \<Rightarrow> int \<Rightarrow> siginfo \<Rightarrow> 'm Daemon_scheme \<Rightarrow> ResponseCode \<times> 'm Daemon_scheme" where
  "SendSignalToProcess os pid si s =
    (case SendSignalToHapWatchdogThread os pid si s of (ret, s1) \<Rightarrow>
      if ret = SDK_DUMP_NOPROC \<or> ret = REQUEST_SUCCESS then (ret, s1)
      else if \<not> os_sigqueue os pid then (SDK_DUMP_NOPROC, s1)
      else (REQUEST_SUCCESS, emit (Signal pid si) s1))"

section \<open>Exceptions and statistics\<close>

definition Filter_exception :: "MainOs \<Rightarrow> CrashDumpException \<Rightarrow> bool" where
  "Filter_exception os r \<longleftrightarrow> ce_message r \<noteq> [] \<and>
    (case os_cred os of None \<Rightarrow> False | Some c \<Rightarrow> cr_uid c = word_of_int (ce_uid r))"

definition OnRequest_exception :: "MainOs \<Rightarrow> CrashDumpException \<Rightarrow> 'm Daemon_scheme \<Rightarrow> ResponseCode \<times> 'm Daemon_scheme" where
  "OnRequest_exception os r s =
    (if Filter_exception os r then (REQUEST_SUCCESS, emit (Write_exception r) s) else (REQUEST_REJECT, s))"

definition RemoveTimeoutDumpStats :: "u64 \<Rightarrow> DumpStats list \<Rightarrow> DumpStats list" where
  "RemoveTimeoutDumpStats now stats =
    remove_if (\<lambda>x. (ds_signalTime x < now \<and> 10000 < now - ds_signalTime x) \<or> now \<le> ds_signalTime x) stats"

definition Filter_stats :: "MainOs \<Rightarrow> string \<Rightarrow> FaultLoggerdStatsRequest \<Rightarrow> bool" where
  "Filter_stats os socketName r =
    (case st_type r of
       PROCESS_DUMP \<Rightarrow> socketName = SERVER_CRASH_SOCKET_NAME
     | DUMP_CATCHER \<Rightarrow> (case os_cred os of None \<Rightarrow> False | Some c \<Rightarrow> CheckCallerUID (cr_uid c))
     | Other_stat \<Rightarrow> False)"

text \<open>\<^verbatim>\<open>callerElf\<close> is \<^term>\<open>None\<close> when the array is not terminated.\<close>

definition GetElfName :: "MainOs \<Rightarrow> FaultLoggerdStatsRequest \<Rightarrow> string" where
  "GetElfName os r = (case st_callerElf r of None \<Rightarrow> [] | Some e \<Rightarrow> os_elf_text os e (st_offset r))"

definition run_report_stats :: "MainOs \<Rightarrow> FaultLoggerdStatsRequest \<Rightarrow> 'm Daemon_scheme \<Rightarrow> 'm Daemon_scheme" where
  "run_report_stats os r s =
    (let found = List.find (\<lambda>x. ds_pid x = st_pid r) (d_stats s);
         base = (case found of None \<Rightarrow> DumpStats_init | Some x \<Rightarrow> x);
         s1 = s\<lparr>d_stats := erase_first (\<lambda>x. ds_pid x = st_pid r) (d_stats s)\<rparr>;
         stats = base\<lparr>ds_pid := st_pid r, ds_requestTime := st_requestTime r, ds_dumpCatcherFinishTime := st_dumpCatcherFinishTime r,
           ds_callerElfName := GetElfName os r, ds_result := st_result r, ds_callerProcessName := st_callerProcess r,
           ds_summary := st_summary r, ds_targetProcessName := st_targetProcess r,
           ds_targetProcessThreadCount := st_targetProcessThreadCount r\<rparr>;
         s2 = emit (Write_stats stats) s1
     in s2\<lparr>d_stats := RemoveTimeoutDumpStats (os_msec os) (d_stats s2)\<rparr>)"

definition OnRequest_stats ::
    "MainOs \<Rightarrow> string \<Rightarrow> FaultLoggerdStatsRequest \<Rightarrow> 'm Daemon_scheme \<Rightarrow> ResponseCode \<times> 'm Daemon_scheme" where
  "OnRequest_stats os socketName r s =
    (if \<not> Filter_stats os socketName r then (REQUEST_REJECT, s)
     else
       (let s1 =
          (if st_type r = PROCESS_DUMP \<and> List.find (\<lambda>x. ds_pid x = st_pid r) (d_stats s) = None then
             s\<lparr>d_stats := d_stats s @ [DumpStats_init\<lparr>ds_pid := st_pid r, ds_signalTime := st_signalTime r,
               ds_processdumpStartTime := st_processdumpStartTime r, ds_processdumpFinishTime := st_processdumpFinishTime r,
               ds_targetProcessName := st_targetProcess r, ds_writeDumpInfoCost := st_writeDumpInfoCost r,
               ds_smoParseTime := st_smoParseTime r, ds_pssMemory := st_pssMemory r,
               ds_keyThreadUnwindTimestamp := st_keyThreadUnwindTimestamp r\<rparr>]\<rparr>
           else if st_type r = DUMP_CATCHER then snd (delay_task os (Report_stats r) 7 s)
           else s)
        in (REQUEST_SUCCESS, s1\<lparr>d_stats := RemoveTimeoutDumpStats (os_msec os) (d_stats s1)\<rparr>)))"

section \<open>Files\<close>

definition Filter_file :: "string \<Rightarrow> ucred \<Rightarrow> FaultLoggerdRequest \<Rightarrow> bool" where
  "Filter_file socketName creds r =
    (if fr_type r \<in> set [CPP_CRASH, CPP_STACKTRACE, LEAK_STACKTRACE, JIT_CODE_LOG]
     then socketName = SERVER_CRASH_SOCKET_NAME
     else CheckRequestCredential creds (fr_pid r))"

definition RestoreDumpable :: "MainOs \<Rightarrow> int \<Rightarrow> 'm Daemon_scheme \<Rightarrow> bool \<times> 'm Daemon_scheme" where
  "RestoreDumpable os pid s =
    (if pid \<le> 0 \<or> os_cmdline os pid = [] then (False, s)
     else
       (case os_starttime os pid of
          None \<Rightarrow> (False, s)
        | Some startTime \<Rightarrow> (True, snd (delay_task os (Restore_dumpable pid (os_cmdline os pid) startTime) 30 s))))"

definition unlinks_minidump :: "DirectoryConfig \<Rightarrow> FaultLoggerdRequest \<Rightarrow> string \<Rightarrow> bool" where
  "unlinks_minidump dc r filePath \<longleftrightarrow> fr_minidump r = 0 \<and> fr_type r = MINIDUMP \<and>
    take (length (dc_tempFilePath dc)) filePath = dc_tempFilePath dc \<and> npos_find ''.dmp'' 0 filePath"

definition OnRequest_file ::
    "MainOs \<Rightarrow> DirectoryConfig \<Rightarrow> string \<Rightarrow> int \<Rightarrow> FaultLoggerdRequest \<Rightarrow> 'm Daemon_scheme \<Rightarrow> ResponseCode \<times> 'm Daemon_scheme" where
  "OnRequest_file os dc socketName conn r s =
    (case os_cred os of
       None \<Rightarrow> (REQUEST_REJECT, s)
     | Some creds \<Rightarrow>
         if \<not> Filter_file socketName creds r then (REQUEST_REJECT, s)
         else
           (case CreateFileDescriptor (os_msec os) (os_open os) dc (fr_type r) (fr_pid r) (fr_tid r) (fr_time r) of
              (fd, filePath) \<Rightarrow>
                if fd < 0 then (ABNORMAL_SERVICE, s)
                else
                  (let s1 = (if fr_minidump r = 1 then snd (RestoreDumpable os (fr_pid r) s) else s);
                       s2 = (if unlinks_minidump dc r filePath then emit (Remove_temp_file filePath) s1 else s1);
                       s3 = s2\<lparr>d_crashFileRecords := RecordFileCreation (os_sec os) (fr_type r) (fr_pid r) (d_crashFileRecords s2)\<rparr>;
                       (records, removed) = RecordFdFileCreation dc (fr_type r) filePath (cr_uid creds) (d_fdFileRecords s3);
                       s4 = fold (\<lambda>f. emit (Remove_temp_file f)) removed (s3\<lparr>d_fdFileRecords := records\<rparr>)
                   in (REQUEST_SUCCESS, emit (Send_fds conn [fd]) (emit (Send_code conn REQUEST_SUCCESS) s4)))))"

section \<open>Dumping a process\<close>

definition Filter_sdk_dump ::
    "MainOs \<Rightarrow> string \<Rightarrow> SdkDumpRequestData \<Rightarrow> u32 \<Rightarrow> 'm Daemon_scheme \<Rightarrow> ResponseCode \<times> 'm Daemon_scheme" where
  "Filter_sdk_dump os socketName r uid s =
    (if sr_pid r \<le> 0 \<or> socketName \<noteq> SERVER_SDKDUMP_SOCKET_NAME \<or> \<not> CheckCallerUID uid then (REQUEST_REJECT, s)
     else
       (case CheckCrashFileRecord (os_sec os) (sr_pid r) (d_crashFileRecords s) of (crashed, records) \<Rightarrow>
         (let s1 = s\<lparr>d_crashFileRecords := records\<rparr>
          in if crashed then (SDK_PROCESS_CRASHED, s1)
             else
               (case CheckSdkDumpRecord (sr_pid r) (sr_time r) (d_sdkDumpPipes s1) of (dumping, pipes) \<Rightarrow>
                 (if dumping then SDK_DUMP_REPEAT else REQUEST_SUCCESS, s1\<lparr>d_sdkDumpPipes := pipes\<rparr>)))))"

definition SIGDUMP :: int where "SIGDUMP = 35"

definition sdk_siginfo :: "SdkDumpRequestData \<Rightarrow> ucred \<Rightarrow> siginfo" where
  "sdk_siginfo r creds =
    \<lparr>si_signo = SIGDUMP, si_code = sr_sigCode r,
     si_value = (if sr_tid r = 0 then sr_endTime r OR push_bit 63 1 else ucast (word_of_int (sr_tid r) :: u32)),
     si_pid = cr_pid creds, si_uid = word_of_int (sr_callerTid r)\<rparr>"

definition OnRequest_sdk_dump ::
    "MainOs \<Rightarrow> string \<Rightarrow> int \<Rightarrow> SdkDumpRequestData \<Rightarrow> 'm Daemon_scheme \<Rightarrow> ResponseCode \<times> 'm Daemon_scheme" where
  "OnRequest_sdk_dump os socketName conn r s =
    (case os_cred os of
       None \<Rightarrow> (REQUEST_REJECT, s)
     | Some creds \<Rightarrow>
         (case Filter_sdk_dump os socketName r (cr_uid creds) s of (code, s1) \<Rightarrow>
           if code \<noteq> REQUEST_SUCCESS then (code, s1)
           else
             (let s2 = s1\<lparr>d_sdkDumpPipes :=
                    CreateSdkDumpPipePair ((os_pipe_buf os, os_pipe_res os), sr_time r) (sr_pid r) (d_sdkDumpPipes s1)\<rparr>
              in case SendSignalToProcess os (sr_pid r) (sdk_siginfo r creds) s2 of (res, s3) \<Rightarrow>
                   (let del = s3\<lparr>d_sdkDumpPipes := DelSdkDumpPipePair (sr_pid r) (d_sdkDumpPipes s3)\<rparr>
                    in if res \<noteq> REQUEST_SUCCESS then (res, del)
                       else
                         (case GetSdkDumpPipePair (sr_pid r) (d_sdkDumpPipes s3) of
                            None \<Rightarrow> (ABNORMAL_SERVICE, del)
                          | Some p \<Rightarrow>
                              (let fds = [fst (GetPipeFd BUFFER_FD PIPE_FD_READ p), fst (GetPipeFd RESULT_FD PIPE_FD_READ p)]
                               in if \<exists>fd \<in> set fds. fd < 0 then (ABNORMAL_SERVICE, del)
                                  else (res, emit (Send_fds conn fds) (emit (Send_code conn res) s3))))))))"

definition Filter_pipe :: "string \<Rightarrow> ucred \<Rightarrow> PipFdRequestData \<Rightarrow> bool" where
  "Filter_pipe socketName creds r =
    (if PIPE_FD_DELETE < pr_pipeType r \<or> pr_pipeType r < PIPE_FD_READ then False
     else socketName = SERVER_CRASH_SOCKET_NAME \<or> CheckCallerUID (cr_uid creds))"

definition take_write_ends :: "'m PipePair_scheme \<Rightarrow> int list \<times> 'm PipePair_scheme" where
  "take_write_ends p =
    (let (b, p1) = GetPipeFd BUFFER_FD PIPE_FD_WRITE p; (r, p2) = GetPipeFd RESULT_FD PIPE_FD_WRITE p1 in ([b, r], p2))"

definition OnRequest_pipe ::
    "MainOs \<Rightarrow> string \<Rightarrow> int \<Rightarrow> PipFdRequestData \<Rightarrow> 'm Daemon_scheme \<Rightarrow> ResponseCode \<times> 'm Daemon_scheme" where
  "OnRequest_pipe os socketName conn r s =
    (case os_cred os of
       None \<Rightarrow> (REQUEST_REJECT, s)
     | Some creds \<Rightarrow>
         if \<not> Filter_pipe socketName creds r then (REQUEST_REJECT, s)
         else if pr_pipeType r = PIPE_FD_DELETE then
           (REQUEST_SUCCESS, emit (Send_code conn REQUEST_SUCCESS)
              (s\<lparr>d_sdkDumpPipes := DelSdkDumpPipePair (pr_pid r) (d_sdkDumpPipes s)\<rparr>))
         else
           (case GetSdkDumpPipePair (pr_pid r) (d_sdkDumpPipes s) of
              None \<Rightarrow> (ABNORMAL_SERVICE, s)
            | Some p \<Rightarrow>
                (let (fds, _) = take_write_ends p;
                     s1 = s\<lparr>d_sdkDumpPipes := update_first (\<lambda>p. sp_pid p = pr_pid r) (\<lambda>p. snd (take_write_ends p)) (d_sdkDumpPipes s)\<rparr>
                 in if \<exists>fd \<in> set fds. fd < 0 then (ABNORMAL_SERVICE, s1)
                    else (REQUEST_SUCCESS, emit (Send_fds conn fds) (emit (Send_code conn REQUEST_SUCCESS) s1)))))"

section \<open>Light profiling\<close>

definition Filter_perf :: "MainOs \<Rightarrow> LitePerfFdRequestData \<Rightarrow> bool" where
  "Filter_perf os r =
    (if PIPE_FD_DELETE < lr_pipeType r \<or> lr_pipeType r < PIPE_FD_READ then False
     else (case os_cred os of None \<Rightarrow> False | Some c \<Rightarrow> cr_uid c = lr_uid r))"

definition deviceLimit :: int where "deviceLimit = 50"
definition uidPerfLimit :: int where "uidPerfLimit = 20"

definition CheckPerfLimit_limiter :: "int \<Rightarrow> (int \<Rightarrow> int) \<times> int \<Rightarrow> bool \<times> (int \<Rightarrow> int) \<times> int" where
  "CheckPerfLimit_limiter uid c =
    (case c of (perfCounts, devicePerfCount) \<Rightarrow>
      if deviceLimit \<le> devicePerfCount then (False, c)
      else if uidPerfLimit \<le> perfCounts uid then (False, c)
      else (True, perfCounts(uid := perfCounts uid + 1), devicePerfCount + 1))"

text \<open>The constructor of the limiter registers a daily timer that clears the counters.\<close>

definition resetDuration :: int where "resetDuration = 24 * 60 * 60"

definition PerfResourceLimiter_new :: "MainOs \<Rightarrow> 'm Daemon_scheme \<Rightarrow> 'm Daemon_scheme" where
  "PerfResourceLimiter_new os s =
    (let (ok, s1) = SetTimeOptionForTimeFd (Os.truncate os) (os_timerfd os)
           (word_of_int resetDuration * NS_PER_S) (word_of_int resetDuration * NS_PER_S) s;
         s2 = (if ok then snd (AddListener (Os.truncate os) (EpollListener_new (os_now os) (os_timerfd os) (- 1) TimerTaskAdapter) s1) else s1)
     in s2\<lparr>d_limiterReady := True\<rparr>)"

definition perf_reset :: "'m Daemon_scheme \<Rightarrow> 'm Daemon_scheme" where
  "perf_reset s = s\<lparr>d_perfCounts := (\<lambda>_. 0), d_devicePerfCount := 0\<rparr>"

definition CheckPerfLimit :: "MainOs \<Rightarrow> int \<Rightarrow> bool \<Rightarrow> 'm Daemon_scheme \<Rightarrow> ResponseCode \<times> 'm Daemon_scheme" where
  "CheckPerfLimit os uid checkLimit s =
    (if CheckDumpMax (d_perfPipes s) then (RESOURCE_LIMIT, s)
     else if CheckPerfDumpRecord uid (d_perfPipes s) then (SDK_DUMP_REPEAT, s)
     else if \<not> checkLimit then (REQUEST_SUCCESS, s)
     else
       (let s1 = (if d_limiterReady s then s else PerfResourceLimiter_new os s)
        in case CheckPerfLimit_limiter uid (d_perfCounts s1, d_devicePerfCount s1) of
             (ok, counts, device) \<Rightarrow>
               (if ok then REQUEST_SUCCESS else RESOURCE_LIMIT, s1\<lparr>d_perfCounts := counts, d_devicePerfCount := device\<rparr>)))"

definition maxPerfTimeout :: int where "maxPerfTimeout = (10000 + 5000) div 1000"

definition send_pair :: "int \<Rightarrow> int list \<Rightarrow> 'm Daemon_scheme \<Rightarrow> ResponseCode \<times> 'm Daemon_scheme" where
  "send_pair conn fds s =
    (if \<exists>fd \<in> set fds. fd < 0 then (ABNORMAL_SERVICE, s)
     else (REQUEST_SUCCESS, emit (Send_fds conn fds) (emit (Send_code conn REQUEST_SUCCESS) s)))"

definition OnRequest_perf ::
    "MainOs \<Rightarrow> int \<Rightarrow> LitePerfFdRequestData \<Rightarrow> 'm Daemon_scheme \<Rightarrow> ResponseCode \<times> 'm Daemon_scheme" where
  "OnRequest_perf os conn r s =
    (if \<not> Filter_perf os r then (REQUEST_REJECT, s)
     else
       (let uid = sint (lr_uid r)
        in if lr_pipeType r = PIPE_FD_DELETE then
             (REQUEST_SUCCESS, emit (Send_code conn REQUEST_SUCCESS) (s\<lparr>d_perfPipes := DelPerfPipePair uid (d_perfPipes s)\<rparr>))
           else if lr_pipeType r = PIPE_FD_READ then
             (case CheckPerfLimit os uid (lr_checkLimit r) s of (code, s1) \<Rightarrow>
               if code \<noteq> REQUEST_SUCCESS then (code, s1)
               else if lr_timeout r < 0 then (ABNORMAL_SERVICE, s1)
               else
                 (let delayTime = min (lr_timeout r) maxPerfTimeout;
                      timeOutTime = os_now os + word_of_int delayTime * (MS_PER_S * US_PER_MS);
                      pipes = CreatePerfPipePair ((os_pipe_buf os, os_pipe_res os), timeOutTime) uid (d_perfPipes s1);
                      fds = (case GetPerfPipePair uid pipes of
                               None \<Rightarrow> [- 1, - 1]
                             | Some p \<Rightarrow> [fst (GetPipeFd BUFFER_FD PIPE_FD_READ p), fst (GetPipeFd RESULT_FD PIPE_FD_READ p)]);
                      s2 = snd (delay_task os Clear_timeout_pairs (word_of_int delayTime) (s1\<lparr>d_perfPipes := pipes\<rparr>))
                  in send_pair conn fds s2))
           else
             (case GetPerfPipePair uid (d_perfPipes s) of
                None \<Rightarrow> (ABNORMAL_SERVICE, s)
              | Some p \<Rightarrow>
                  send_pair conn (fst (take_write_ends p))
                    (s\<lparr>d_perfPipes := update_first (\<lambda>p. lp_uid p = uid) (\<lambda>p. snd (take_write_ends p)) (d_perfPipes s)\<rparr>))))"

section \<open>Limited processes\<close>

text \<open>
  The per-day counters are maps from users to counts: a request counts even when it is refused.
\<close>

definition count_request :: "int \<Rightarrow> int \<Rightarrow> (int \<times> int) list \<Rightarrow> bool \<times> (int \<times> int) list" where
  "count_request limit uid m =
    (let cnt = (case map_of m uid of None \<Rightarrow> 0 | Some n \<Rightarrow> n) in (cnt < limit, (uid, cnt + 1) # filter (\<lambda>p. fst p \<noteq> uid) m))"

definition CheckProcessName :: "MainOs \<Rightarrow> int \<Rightarrow> string \<Rightarrow> bool" where
  "CheckProcessName os pid procName \<longleftrightarrow> procName \<noteq> [] \<and> os_cmdline os pid = procName"

definition Filter_limited_pipe ::
    "MainOs \<Rightarrow> LiteDumpFdRequestData \<Rightarrow> 'm Daemon_scheme \<Rightarrow> bool \<times> 'm Daemon_scheme" where
  "Filter_limited_pipe os r s =
    (case os_cred os of
       None \<Rightarrow> (False, s)
     | Some creds \<Rightarrow>
         if cr_pid creds \<noteq> dr_pid r \<and> \<not> CheckCallerUID (cr_uid creds) then (False, s)
         else
           (case count_request (LITE_DUMP_LIMIT_ONE_DAY * 3) (GetRealUid (sint (cr_uid creds))) (d_launchLiteDumpPipeMap s) of
              (ok, m) \<Rightarrow>
                (ok \<and> (dr_pipeType r = PIPE_FD_DELETE \<or> dr_pipeType r = PIPE_FD_READ \<or>
                  (dr_pipeType r = PIPE_FD_WRITE \<and> CheckProcessName os (dr_pid r) (dr_processName r))),
                 s\<lparr>d_launchLiteDumpPipeMap := m\<rparr>)))"

definition OnRequest_limited_pipe ::
    "MainOs \<Rightarrow> int \<Rightarrow> LiteDumpFdRequestData \<Rightarrow> 'm Daemon_scheme \<Rightarrow> ResponseCode \<times> 'm Daemon_scheme" where
  "OnRequest_limited_pipe os conn r s =
    (let s1 = (if d_launchLiteDumpPipeMap s = [] then snd (delay_task os Clear_lite_dump_pipe_map ONE_DAY_SEC s) else s);
         (ok, s2) = Filter_limited_pipe os r s1;
         pid = dr_pid r
     in if \<not> ok then (REQUEST_REJECT, s2)
        else if dr_pipeType r = PIPE_FD_DELETE then
          (REQUEST_SUCCESS, emit (Send_code conn REQUEST_SUCCESS) (s2\<lparr>d_limitedPipes := DelLimitedPipePair pid (d_limitedPipes s2)\<rparr>))
        else if dr_pipeType r = PIPE_FD_WRITE \<and> CheckLimitedDumpRecord pid (d_limitedPipes s2) then (SDK_DUMP_REPEAT, s2)
        else if dr_pipeType r = PIPE_FD_READ \<and> GetLimitedPipePair pid (d_limitedPipes s2) = None then (REQUEST_REJECT, s2)
        else
          (let pipes = (if dr_pipeType r = PIPE_FD_WRITE then CreateLimitedPipePair (os_pipe_buf os) pid (d_limitedPipes s2) else d_limitedPipes s2);
               fd = (case GetLimitedPipePair pid pipes of None \<Rightarrow> 0 | Some p \<Rightarrow> fst (GetLimitedPipeFd (dr_pipeType r) p));
               pipes1 = update_first (\<lambda>p. li_pid p = pid) (\<lambda>p. snd (GetLimitedPipeFd (dr_pipeType r) p)) pipes
           in if fd < 0 then (ABNORMAL_SERVICE, s2\<lparr>d_limitedPipes := DelLimitedPipePair pid pipes1\<rparr>)
              else
                (REQUEST_SUCCESS, emit (Send_fds conn [fd]) (emit (Send_code conn REQUEST_SUCCESS)
                  (snd (delay_task os (Del_limited_pipe pid) 10 (s2\<lparr>d_limitedPipes := pipes1\<rparr>)))))))"

definition Filter_limited_dump :: "MainOs \<Rightarrow> FaultLoggerdRequest \<Rightarrow> 'm Daemon_scheme \<Rightarrow> bool \<times> 'm Daemon_scheme" where
  "Filter_limited_dump os r s =
    (case os_cred os of
       None \<Rightarrow> (False, s)
     | Some creds \<Rightarrow>
         if cr_pid creds \<noteq> fr_pid r \<and> \<not> CheckCallerUID (cr_uid creds) then (False, s)
         else
           (let s1 = (if d_launchLiteDumpMap s = [] then snd (delay_task os Clear_lite_dump_map ONE_DAY_SEC s) else s)
            in case count_request LITE_DUMP_LIMIT_ONE_DAY (GetRealUid (sint (cr_uid creds))) (d_launchLiteDumpMap s1) of
                 (ok, m) \<Rightarrow> (ok \<and> os_no_new_priv os (fr_pid r), s1\<lparr>d_launchLiteDumpMap := m\<rparr>)))"

definition OnRequest_limited_dump ::
    "MainOs \<Rightarrow> int \<Rightarrow> FaultLoggerdRequest \<Rightarrow> 'm Daemon_scheme \<Rightarrow> ResponseCode \<times> 'm Daemon_scheme" where
  "OnRequest_limited_dump os conn r s =
    (case Filter_limited_dump os r s of (ok, s1) \<Rightarrow>
      if ok then (REQUEST_SUCCESS, emit (Send_code conn REQUEST_SUCCESS) (emit (Launch_processdump (fr_pid r)) s1))
      else (REQUEST_REJECT, s1))"

section \<open>Minidumps\<close>

definition SetEnableMinidump :: "MainOs \<Rightarrow> int \<Rightarrow> bool \<Rightarrow> bool \<Rightarrow> 'm Daemon_scheme \<Rightarrow> bool \<times> 'm Daemon_scheme" where
  "SetEnableMinidump os pid enable clearListener s =
    (if enable then
       (let pfd = os_pidfd os pid
        in if pfd = - 1 then (False, s)
           else
             (case AddListener (Os.truncate os) (EpollListener_new (os_now os) pfd (- 1) (PidFdListener pid)) s of
                (False, s1) \<Rightarrow> (False, s1)
              | (True, s1) \<Rightarrow>
                  (True, if map_of (d_enableMinidump s1) pid = None then s1\<lparr>d_enableMinidump := (pid, pfd) # d_enableMinidump s1\<rparr> else s1)))
     else
       (case map_of (d_enableMinidump s) pid of
          None \<Rightarrow> (True, s)
        | Some pfd \<Rightarrow>
            (let s1 = (if clearListener then snd (RemoveListener (Os.truncate os) pfd s) else s)
             in (True, s1\<lparr>d_enableMinidump := filter (\<lambda>p. fst p \<noteq> pid) (d_enableMinidump s1)\<rparr>))))"

definition SetDisableMinidumpToCrashLog :: "int \<Rightarrow> bool \<Rightarrow> 'm Daemon_scheme \<Rightarrow> 'm Daemon_scheme" where
  "SetDisableMinidumpToCrashLog pid disable s =
    s\<lparr>d_disableMinidumpToCrashLog :=
      (if disable then List.insert pid (d_disableMinidumpToCrashLog s) else removeAll pid (d_disableMinidumpToCrashLog s))\<rparr>"

definition SetMiniDump :: "MainOs \<Rightarrow> int \<Rightarrow> int \<Rightarrow> int \<Rightarrow> 'm Daemon_scheme \<Rightarrow> bool \<times> 'm Daemon_scheme" where
  "SetMiniDump os pid enableMinidump enableMinidumpToCrashLog s =
    (if d_pdumpFd s < 0 then (False, s)
     else
       (let (ok, s1) =
          (if enableMinidump = 1 \<and> map_of (d_enableMinidump s) pid = None then SetEnableMinidump os pid True True s
           else if enableMinidump = 0 then (True, snd (SetEnableMinidump os pid False True s))
           else (True, s))
        in if \<not> ok then (False, s1)
           else
             (True,
              if enableMinidumpToCrashLog = 0 then SetDisableMinidumpToCrashLog pid True s1
              else if enableMinidumpToCrashLog = 1 then SetDisableMinidumpToCrashLog pid False s1
              else s1)))"

definition OnEventPoll_pidfd :: "MainOs \<Rightarrow> int \<Rightarrow> 'm Daemon_scheme \<Rightarrow> EventResult \<times> 'm Daemon_scheme" where
  "OnEventPoll_pidfd os pid s =
    (REMOVE, SetDisableMinidumpToCrashLog pid False (snd (SetEnableMinidump os pid False False s)))"

definition Filter_minidump :: "MainOs \<Rightarrow> MiniDumpRequestData \<Rightarrow> bool" where
  "Filter_minidump os r = (case os_cred os of None \<Rightarrow> False | Some c \<Rightarrow> mr_pid r = cr_pid c \<and> mr_uid r = cr_uid c)"

definition OnRequest_minidump ::
    "MainOs \<Rightarrow> int \<Rightarrow> MiniDumpRequestData \<Rightarrow> 'm Daemon_scheme \<Rightarrow> ResponseCode \<times> 'm Daemon_scheme" where
  "OnRequest_minidump os conn r s =
    (if \<not> Filter_minidump os r then (REQUEST_REJECT, s)
     else
       (case SetMiniDump os (mr_pid r) (mr_enableMinidump r) (mr_enableMinidumpToCrashLog r) s of (ok, s1) \<Rightarrow>
         (let res = (if ok then REQUEST_SUCCESS else DEFAULT_ERROR_CODE) in (res, emit (Send_code conn res) s1))))"

definition run_restore_dumpable :: "MainOs \<Rightarrow> int \<Rightarrow> string \<Rightarrow> u64 \<Rightarrow> 'm Daemon_scheme \<Rightarrow> 'm Daemon_scheme" where
  "run_restore_dumpable os pid cmdLine startTime s =
    (if os_starttime os pid = Some startTime \<and> cmdLine = os_cmdline os pid \<and> os_sigqueue os pid
     then emit (Signal pid \<lparr>si_signo = SIGDUMP, si_code = - 7, si_value = 0, si_pid = 0, si_uid = 0\<rparr>) s
     else s)"

section \<open>Peers of a binder call\<close>

fun SendSignalToBinderPid :: "MainOs \<Rightarrow> (int \<times> int) list \<Rightarrow> 'm Daemon_scheme \<Rightarrow> int list \<times> 'm Daemon_scheme" where
  "SendSignalToBinderPid os [] s = ([], s)"
| "SendSignalToBinderPid os ((pid, nsPid) # ps) s =
    (if pid \<le> 0 \<or> nsPid \<le> 0 then SendSignalToBinderPid os ps s
     else
       (case SendSignalToProcess os pid \<lparr>si_signo = 3, si_code = 0, si_value = 0, si_pid = 0, si_uid = 0\<rparr> s of (res, s1) \<Rightarrow>
         case SendSignalToBinderPid os ps s1 of (ns, s2) \<Rightarrow>
           (if res = REQUEST_SUCCESS then List.insert nsPid ns else ns, s2)))"

definition tempFileWaitOutOfTime :: int where "tempFileWaitOutOfTime = 10000"

definition binder_info_path :: "MainOs \<Rightarrow> DirectoryConfig \<Rightarrow> int \<Rightarrow> string" where
  "binder_info_path os dc pid =
    dc_tempFilePath dc @ ''/peer_binder_stack-'' @ int_string pid @ ''-'' @ nat_string (unat (os_clock os))"

definition OnRequest_binder ::
    "MainOs \<Rightarrow> DirectoryConfig \<Rightarrow> string \<Rightarrow> int \<Rightarrow> BinderPidsDumpRequestData \<Rightarrow> 'm Daemon_scheme \<Rightarrow> ResponseCode \<times> 'm Daemon_scheme" where
  "OnRequest_binder os dc socketName conn r s =
    (if socketName \<noteq> SERVER_CRASH_SOCKET_NAME then (REQUEST_REJECT, s)
     else
       (case SendSignalToBinderPid os (br_pids r) s of (nsPids, s1) \<Rightarrow>
         if nsPids = [] then (INVALID_REQUEST_DATA, s1)
         else if os_extra_path os = [] then (UN_SUPPORTED_FEATURE, s1)
         else
           (case os_inotify os of
              None \<Rightarrow> (ABNORMAL_SERVICE, s1)
            | Some w \<Rightarrow>
                (let s2 = snd (AddListener (Os.truncate os) (EpollListener_new (os_now os) w tempFileWaitOutOfTime TempFileListener) s1);
                     fd = os_open os (binder_info_path os dc (br_pid r))
                 in if fd < 0 then (ABNORMAL_SERVICE, s2)
                    else (REQUEST_SUCCESS, emit (Send_fds conn [fd]) (emit (Send_code conn REQUEST_SUCCESS) s2))))))"

section \<open>Dispatch\<close>

datatype ServiceRequest =
    File_request FaultLoggerdRequest
  | Exception_request CrashDumpException
  | Stats_request FaultLoggerdStatsRequest
  | Sdk_dump_request SdkDumpRequestData
  | Pipe_request PipFdRequestData
  | Perf_request LitePerfFdRequestData
  | Limited_dump_request FaultLoggerdRequest
  | Limited_pipe_request LiteDumpFdRequestData
  | Minidump_request MiniDumpRequestData
  | Binder_request BinderPidsDumpRequestData

fun serve ::
    "MainOs \<Rightarrow> DirectoryConfig \<Rightarrow> string \<Rightarrow> int \<Rightarrow> ServiceRequest \<Rightarrow> 'm Daemon_scheme \<Rightarrow> ResponseCode \<times> 'm Daemon_scheme" where
  "serve os dc socketName conn (File_request r) s = OnRequest_file os dc socketName conn r s"
| "serve os dc socketName conn (Exception_request r) s = OnRequest_exception os r s"
| "serve os dc socketName conn (Stats_request r) s = OnRequest_stats os socketName r s"
| "serve os dc socketName conn (Sdk_dump_request r) s = OnRequest_sdk_dump os socketName conn r s"
| "serve os dc socketName conn (Pipe_request r) s = OnRequest_pipe os socketName conn r s"
| "serve os dc socketName conn (Perf_request r) s = OnRequest_perf os conn r s"
| "serve os dc socketName conn (Limited_dump_request r) s = OnRequest_limited_dump os conn r s"
| "serve os dc socketName conn (Limited_pipe_request r) s = OnRequest_limited_pipe os conn r s"
| "serve os dc socketName conn (Minidump_request r) s = OnRequest_minidump os conn r s"
| "serve os dc socketName conn (Binder_request r) s = OnRequest_binder os dc socketName conn r s"

fun run_service_task :: "MainOs \<Rightarrow> MainTask \<Rightarrow> 'm Daemon_scheme \<Rightarrow> 'm Daemon_scheme" where
  "run_service_task os (Report_stats r) s = run_report_stats os r s"
| "run_service_task os Clear_timeout_pairs s = s\<lparr>d_perfPipes := ClearTimeOutPairs (os_now os) (d_perfPipes s)\<rparr>"
| "run_service_task os Clear_lite_dump_map s = s\<lparr>d_launchLiteDumpMap := []\<rparr>"
| "run_service_task os Clear_lite_dump_pipe_map s = s\<lparr>d_launchLiteDumpPipeMap := []\<rparr>"
| "run_service_task os (Del_limited_pipe pid) s = s\<lparr>d_limitedPipes := DelLimitedPipePair pid (d_limitedPipes s)\<rparr>"
| "run_service_task os (Restore_dumpable pid cmdLine startTime) s = run_restore_dumpable os pid cmdLine startTime s"
| "run_service_task os (Remove_session k) s = s"

section \<open>Invariant\<close>

definition registries_ok :: "'m Daemon_scheme \<Rightarrow> bool" where
  "registries_ok s \<longleftrightarrow> distinct (map sp_pid (d_sdkDumpPipes s)) \<and> distinct (map lp_uid (d_perfPipes s)) \<and>
    length (d_perfPipes s) \<le> Suc MAX_LITE_PERF_PIPE_SIZE \<and> distinct (map li_pid (d_limitedPipes s))"

inductive service_step :: "'m Daemon_scheme \<Rightarrow> 'm Daemon_scheme \<Rightarrow> bool" where
  request: "serve os dc socketName conn r s = (code, t) \<Longrightarrow> service_step s t"
| task: "t = run_service_task os w s \<Longrightarrow> service_step s t"
| reset: "t = perf_reset s \<Longrightarrow> service_step s t"

text \<open>Both write ends of the pair of a process have been handed out.\<close>

definition spent :: "int \<Rightarrow> 'm Daemon_scheme \<Rightarrow> bool" where
  "spent pid s \<longleftrightarrow> (\<exists>p. GetSdkDumpPipePair pid (d_sdkDumpPipes s) = Some p \<and> fp_write (pp_Buf p) \<and> fp_write (pp_Res p))"

text \<open>A request that may end or replace the pair of a process.\<close>

fun touches_pair :: "int \<Rightarrow> ServiceRequest \<Rightarrow> bool" where
  "touches_pair pid (Sdk_dump_request r) = (sr_pid r = pid)"
| "touches_pair pid (Pipe_request r) = (pr_pid r = pid \<and> pr_pipeType r = PIPE_FD_DELETE)"
| "touches_pair pid _ = False"

inductive quiet_step :: "int \<Rightarrow> 'm Daemon_scheme \<Rightarrow> 'm Daemon_scheme \<Rightarrow> bool" for pid where
  request: "serve os dc socketName conn r s = (code, t) \<Longrightarrow> \<not> touches_pair pid r \<Longrightarrow> quiet_step pid s t"
| task: "t = run_service_task os w s \<Longrightarrow> quiet_step pid s t"

section \<open>Vocabulary of the properties\<close>

text \<open>The three registries of a state.\<close>

definition registries :: "'m Daemon_scheme \<Rightarrow> FaultLoggerPipePair list \<times> LitePerfPipePair list \<times> LimitedPipePair list" where
  "registries s = (d_sdkDumpPipes s, d_perfPipes s, d_limitedPipes s)"

text \<open>A change of the list of dump pipes that concerns at most the pair of \<open>k\<close>.\<close>

definition concerns :: "int \<Rightarrow> FaultLoggerPipePair list \<Rightarrow> FaultLoggerPipePair list \<Rightarrow> bool" where
  "concerns k P P' \<longleftrightarrow> (distinct (map sp_pid P) \<longrightarrow> distinct (map sp_pid P')) \<and>
    (\<forall>k'. k' \<noteq> k \<longrightarrow> GetSdkDumpPipePair k' P' = GetSdkDumpPipePair k' P)"

text \<open>A series of requests against a counter, with the granted ones.\<close>

fun run_quota :: "('k \<Rightarrow> 'c \<Rightarrow> bool \<times> 'c) \<Rightarrow> 'k list \<Rightarrow> 'c \<Rightarrow> 'k list \<times> 'c" where
  "run_quota req [] c = ([], c)"
| "run_quota req (k # ks) c = (let (ok, c') = req k c; (ks', c'') = run_quota req ks c' in (if ok then k # ks' else ks', c''))"

type_synonym Call = "MainOs \<times> DirectoryConfig \<times> string \<times> int \<times> ServiceRequest"

text \<open>Serving a call, with whether it is granted a request of the given kind.\<close>

fun serve_call :: "(ServiceRequest \<Rightarrow> bool) \<Rightarrow> Call \<Rightarrow> 'm Daemon_scheme \<Rightarrow> bool \<times> 'm Daemon_scheme" where
  "serve_call kind (os, dc, n, conn, r) s = (let (code, t) = serve os dc n conn r s in (kind r \<and> code = REQUEST_SUCCESS, t))"

fun dumps_limited :: "ServiceRequest \<Rightarrow> bool" where
  "dumps_limited (Limited_dump_request r) = True"
| "dumps_limited _ = False"

fun opens_limited_pipe :: "ServiceRequest \<Rightarrow> bool" where
  "opens_limited_pipe (Limited_pipe_request r) = True"
| "opens_limited_pipe _ = False"

fun starts_perf :: "ServiceRequest \<Rightarrow> bool" where
  "starts_perf (Perf_request r) \<longleftrightarrow> lr_pipeType r = PIPE_FD_READ \<and> lr_checkLimit r"
| "starts_perf _ \<longleftrightarrow> False"

fun caller_uid :: "Call \<Rightarrow> int" where
  "caller_uid (os, _) = (case os_cred os of None \<Rightarrow> 0 | Some c \<Rightarrow> GetRealUid (sint (cr_uid c)))"

fun perf_uid :: "Call \<Rightarrow> int" where
  "perf_uid (_, _, _, _, Perf_request r) = sint (lr_uid r)"
| "perf_uid _ = 0"

text \<open>The daily counters.\<close>

definition requests_of :: "(int \<times> int) list \<Rightarrow> int \<Rightarrow> int" where
  "requests_of m uid = (case map_of m uid of None \<Rightarrow> 0 | Some n \<Rightarrow> n)"

definition counters :: "'m Daemon_scheme \<Rightarrow> (int \<times> int) list \<times> (int \<times> int) list \<times> (int \<Rightarrow> int) \<times> int" where
  "counters s = (d_launchLiteDumpMap s, d_launchLiteDumpPipeMap s, d_perfCounts s, d_devicePerfCount s)"

text \<open>Who may be sent descriptors for a request.\<close>

fun may_receive :: "MainOs \<Rightarrow> string \<Rightarrow> ServiceRequest \<Rightarrow> bool" where
  "may_receive os n (File_request r) \<longleftrightarrow>
    (if fr_type r \<in> {CPP_CRASH, CPP_STACKTRACE, LEAK_STACKTRACE, JIT_CODE_LOG} then n = SERVER_CRASH_SOCKET_NAME
     else \<exists>c. os_cred os = Some c \<and> (CheckCallerUID (cr_uid c) \<or> cr_pid c = fr_pid r))"
| "may_receive os n (Sdk_dump_request r) \<longleftrightarrow>
    n = SERVER_SDKDUMP_SOCKET_NAME \<and> (\<exists>c. os_cred os = Some c \<and> CheckCallerUID (cr_uid c))"
| "may_receive os n (Pipe_request r) \<longleftrightarrow>
    n = SERVER_CRASH_SOCKET_NAME \<or> (\<exists>c. os_cred os = Some c \<and> CheckCallerUID (cr_uid c))"
| "may_receive os n (Perf_request r) \<longleftrightarrow> (\<exists>c. os_cred os = Some c \<and> cr_uid c = lr_uid r)"
| "may_receive os n (Limited_pipe_request r) \<longleftrightarrow>
    (\<exists>c. os_cred os = Some c \<and> (CheckCallerUID (cr_uid c) \<or> cr_pid c = dr_pid r))"
| "may_receive os n (Binder_request r) \<longleftrightarrow> n = SERVER_CRASH_SOCKET_NAME"
| "may_receive os n _ \<longleftrightarrow> False"

text \<open>An effect of the services, which sends descriptors only as it should and no core dump results, and a growing list of such effects.\<close>

definition proper_send :: "int \<Rightarrow> ResponseCode \<Rightarrow> bool \<Rightarrow> Effect \<Rightarrow> bool" where
  "proper_send conn code allowed e =
    (case e of Send_fds c fds \<Rightarrow> c = conn \<and> code = REQUEST_SUCCESS \<and> allowed \<and> list_all (\<lambda>fd. 0 \<le> fd) fds
     | Send_result _ _ _ \<Rightarrow> False | _ \<Rightarrow> True)"

definition grows :: "('e \<Rightarrow> bool) \<Rightarrow> 'e list \<Rightarrow> 'e list \<Rightarrow> bool" where
  "grows P xs ys \<longleftrightarrow> (\<exists>out. ys = xs @ out \<and> list_all P out)"

text \<open>A sample state.\<close>

definition sample_main_os :: MainOs where
  "sample_main_os =
    \<lparr>os_now = 1800000000, os_timerfd = 7, os_settime = True, os_ctl = (\<lambda>_. True), os_msec = 1700000000000,
     os_abs_msec = 1800000, os_sec = 1700000000, os_clock = 1700000000000, os_cred = Some \<lparr>cr_pid = 300, cr_uid = 20010001\<rparr>,
     os_pipe_buf = Some (20, 21), os_pipe_res = Some (22, 23), os_open = (\<lambda>_. 30), os_dup = 31,
     os_uid_sigblk = (\<lambda>_. None), os_watchdog = (\<lambda>_. 0), os_tgsigqueue = (\<lambda>_. False), os_sigqueue = (\<lambda>_. True),
     os_cmdline = (\<lambda>_. ''app''), os_starttime = (\<lambda>_. Some 1), os_no_new_priv = (\<lambda>_. True), os_pidfd = (\<lambda>_. 40),
     os_extra_path = [], os_inotify = None, os_elf_text = (\<lambda>_ _. [])\<rparr>"

definition sample_daemon :: Daemon where
  "sample_daemon =
    \<lparr>em_listeners = [EpollListener_new 0 7 (- 1) Executor], em_eventFd = 4, dq_executor = Some 7, dq_delayTasks = [], dq_delaySequence = 0, dq_timers = (\<lambda>_. None),
     d_sdkDumpPipes = [], d_perfPipes = [], d_limitedPipes = [], d_limiterReady = False, d_perfCounts = (\<lambda>_. 0),
     d_devicePerfCount = 0, d_launchLiteDumpMap = [], d_launchLiteDumpPipeMap = [], d_stats = [], d_crashFileRecords = [],
     d_fdFileRecords = [], d_pdumpFd = 9, d_enableMinidump = [], d_disableMinidumpToCrashLog = [], d_out = []\<rparr>"

definition sample_limited_request :: LiteDumpFdRequestData where
  "sample_limited_request = \<lparr>dr_pid = 300, dr_uid = 20010001, dr_pipeType = PIPE_FD_WRITE, dr_processName = ''app''\<rparr>"

definition sample_pipe_request :: PipFdRequestData where
  "sample_pipe_request = \<lparr>pr_pid = 300, pr_pipeType = PIPE_FD_WRITE\<rparr>"

definition sample_dumping :: Daemon where
  "sample_dumping = sample_daemon\<lparr>d_sdkDumpPipes := CreateSdkDumpPipePair ((Some (20, 21), Some (22, 23)), 1) 300 []\<rparr>"

section \<open>Frame lemmas\<close>

lemma emit_frame [simp]:
  "d_sdkDumpPipes (emit e s) = d_sdkDumpPipes s" "d_perfPipes (emit e s) = d_perfPipes s"
  "d_limitedPipes (emit e s) = d_limitedPipes s" "d_launchLiteDumpPipeMap (emit e s) = d_launchLiteDumpPipeMap s"
  "d_stats (emit e s) = d_stats s" "dq_delayTasks (emit e s) = dq_delayTasks s"
  "d_out (emit e s) = d_out s @ [e]"
  by (simp_all add: emit_def)

lemma more_frame:
  assumes "DelayTaskQueue.more s = DelayTaskQueue.more t"
  shows "d_sdkDumpPipes s = d_sdkDumpPipes t" "d_perfPipes s = d_perfPipes t" "d_limitedPipes s = d_limitedPipes t"
    "d_launchLiteDumpPipeMap s = d_launchLiteDumpPipeMap t" "d_launchLiteDumpMap s = d_launchLiteDumpMap t"
    "d_perfCounts s = d_perfCounts t" "d_devicePerfCount s = d_devicePerfCount t" "d_out s = d_out t"
  using assms by (cases s; cases t; simp)+

lemma delay_task_more: "DelayTaskQueue.more (snd (delay_task os w d s)) = DelayTaskQueue.more s"
proof -
  obtain k t where "AddDelayTask (Os.truncate os) (Task w) d s = (k, t)" by fastforce
  then show ?thesis by (auto simp: delay_task_def elim!: AddDelayTask_cases)
qed

lemmas delay_task_frame [simp] = more_frame[OF delay_task_more]

lemma listener_frame [simp]:
  "d_sdkDumpPipes (snd (AddListener os l s)) = d_sdkDumpPipes s" "d_perfPipes (snd (AddListener os l s)) = d_perfPipes s"
  "d_limitedPipes (snd (AddListener os l s)) = d_limitedPipes s"
  "d_sdkDumpPipes (snd (RemoveListener os fd s)) = d_sdkDumpPipes s" "d_perfPipes (snd (RemoveListener os fd s)) = d_perfPipes s"
  "d_limitedPipes (snd (RemoveListener os fd s)) = d_limitedPipes s"
  "d_sdkDumpPipes (snd (SetTimeOptionForTimeFd os fd a b s)) = d_sdkDumpPipes s"
  "d_perfPipes (snd (SetTimeOptionForTimeFd os fd a b s)) = d_perfPipes s"
  "d_limitedPipes (snd (SetTimeOptionForTimeFd os fd a b s)) = d_limitedPipes s"
  by (simp_all add: AddListener_def RemoveListener_def SetTimeOptionForTimeFd_def)

lemma signal_registries [simp]: "registries (snd (SendSignalToProcess os pid si s)) = registries s"
  by (auto simp: SendSignalToProcess_def SendSignalToHapWatchdogThread_def registries_def split: option.splits)

lemma binder_signal_registries [simp]: "registries (snd (SendSignalToBinderPid os ps s)) = registries s"
proof (induction os ps s rule: SendSignalToBinderPid.induct)
  case (2 os pid nsPid ps s)
  then show ?case
    using signal_registries[of os pid "\<lparr>si_signo = 3, si_code = 0, si_value = 0, si_pid = 0, si_uid = 0\<rparr>" s]
    by (auto simp: registries_def split: prod.splits)
qed simp

lemma emit_registries [simp]: "registries (emit e s) = registries s"
  by (simp add: registries_def)

lemma fold_emit_registries [simp]: "registries (fold (\<lambda>f. emit (Remove_temp_file f)) fs s) = registries s"
  by (induction fs arbitrary: s) auto

lemma exception_registries [simp]: "registries (snd (OnRequest_exception os r s)) = registries s"
  by (simp add: OnRequest_exception_def)

lemma stats_registries [simp]: "registries (snd (OnRequest_stats os n r s)) = registries s"
  by (simp add: OnRequest_stats_def registries_def Let_def)

lemma restore_registries [simp]: "registries (snd (RestoreDumpable os pid s)) = registries s"
  by (simp add: RestoreDumpable_def registries_def split: option.split)

lemma file_registries [simp]: "registries (snd (OnRequest_file os dc n conn r s)) = registries s"
proof -
  have u: "registries (u\<lparr>d_crashFileRecords := a\<rparr>) = registries u" "registries (u\<lparr>d_fdFileRecords := b\<rparr>) = registries u"
    for u :: "'a Daemon_scheme" and a b by (simp_all add: registries_def)
  show ?thesis by (auto simp: OnRequest_file_def Let_def u split: option.split prod.split)
qed

lemma limited_dump_registries [simp]: "registries (snd (OnRequest_limited_dump os conn r s)) = registries s"
  by (auto simp: OnRequest_limited_dump_def Filter_limited_dump_def Let_def registries_def split: option.split prod.split)

lemma minidump_registries [simp]: "registries (snd (OnRequest_minidump os conn r s)) = registries s"
  by (auto simp: OnRequest_minidump_def SetMiniDump_def SetEnableMinidump_def SetDisableMinidumpToCrashLog_def
      AddListener_def Let_def registries_def split: option.split prod.split)

lemma binder_registries [simp]: "registries (snd (OnRequest_binder os dc n conn r s)) = registries s"
  using binder_signal_registries[of os "br_pids r" s]
  by (auto simp: OnRequest_binder_def Let_def registries_def split: option.split prod.split)

section \<open>The handlers that work on the registries\<close>

lemma concerns_refl [simp]: "concerns k P P"
  by (simp add: concerns_def)

lemma concerns_trans: "concerns k P P' \<Longrightarrow> concerns k P' P'' \<Longrightarrow> concerns k P P''"
  by (simp add: concerns_def)

lemma concerns_create: "concerns k P (CreateSdkDumpPipePair i k P)"
  using sdk.distinct_create sdk.create_other by (simp add: concerns_def)

lemma concerns_del: "concerns k P (DelSdkDumpPipePair k P)"
  using sdk.distinct_del sdk.get_del by (simp add: concerns_def)

lemma find_erase_first: "k' \<noteq> k \<Longrightarrow> List.find (\<lambda>p. key p = k') (erase_first (\<lambda>p. key p = k) P) = List.find (\<lambda>p. key p = k') P"
  by (induction P) auto

lemma concerns_check: "CheckSdkDumpRecord k t P = (b, P') \<Longrightarrow> concerns k P P'"
  by (auto simp: concerns_def CheckSdkDumpRecord_def GetSdkDumpPipePair_def distinct_key_erase_first find_erase_first
      split: option.splits if_splits)

lemma concerns_update:
  "(\<And>p. sp_pid (f p) = sp_pid p) \<Longrightarrow> concerns k P (update_first (\<lambda>p. sp_pid p = k) f P)"
  by (simp add: concerns_def map_key_update_first GetSdkDumpPipePair_def find_update_first)

lemma Filter_sdk_dump_concerns:
  assumes "Filter_sdk_dump os n r uid s = (code, t)"
  shows "concerns (sr_pid r) (d_sdkDumpPipes s) (d_sdkDumpPipes t) \<and> d_perfPipes t = d_perfPipes s \<and> d_limitedPipes t = d_limitedPipes s"
  using assms concerns_check by (auto simp: Filter_sdk_dump_def Let_def split: if_splits prod.splits)

lemma OnRequest_sdk_dump_concerns:
  assumes "OnRequest_sdk_dump os n conn r s = (code, t)"
  shows "concerns (sr_pid r) (d_sdkDumpPipes s) (d_sdkDumpPipes t) \<and> d_perfPipes t = d_perfPipes s \<and> d_limitedPipes t = d_limitedPipes s"
proof (cases "os_cred os")
  case None
  then show ?thesis using assms by (simp add: OnRequest_sdk_dump_def)
next
  case (Some creds)
  obtain c s1 where f: "Filter_sdk_dump os n r (cr_uid creds) s = (c, s1)" by fastforce
  note f' = Filter_sdk_dump_concerns[OF f]
  show ?thesis
  proof (cases "c = REQUEST_SUCCESS")
    case False
    then show ?thesis using assms Some f f' by (simp add: OnRequest_sdk_dump_def)
  next
    case True
    define s2 where "s2 = s1\<lparr>d_sdkDumpPipes := CreateSdkDumpPipePair ((os_pipe_buf os, os_pipe_res os), sr_time r) (sr_pid r) (d_sdkDumpPipes s1)\<rparr>"
    obtain res s3 where g: "SendSignalToProcess os (sr_pid r) (sdk_siginfo r creds) s2 = (res, s3)" by fastforce
    have s3: "registries s3 = registries s2" using signal_registries[of os "sr_pid r" "sdk_siginfo r creds" s2] g by simp
    have c2: "concerns (sr_pid r) (d_sdkDumpPipes s) (d_sdkDumpPipes s3)"
      using f' s3 concerns_trans concerns_create by (fastforce simp: registries_def s2_def)
    have "registries t = registries s3 \<or> registries t = (DelSdkDumpPipePair (sr_pid r) (d_sdkDumpPipes s3), d_perfPipes s3, d_limitedPipes s3)"
      using assms Some f True g
      by (auto simp: OnRequest_sdk_dump_def Let_def s2_def[symmetric] registries_def split: option.splits if_splits)
    then show ?thesis
      using c2 f' s3 concerns_trans[OF c2 concerns_del] by (auto simp: registries_def s2_def)
  qed
qed

lemma take_write_ends_key [simp]: "sp_pid (snd (take_write_ends p)) = sp_pid p" "lp_uid (snd (take_write_ends q)) = lp_uid q"
  by (simp_all add: take_write_ends_def GetPipeFd_def Let_def split: prod.split)

lemma OnRequest_pipe_concerns:
  assumes "OnRequest_pipe os n conn r s = (code, t)"
  shows "concerns (pr_pid r) (d_sdkDumpPipes s) (d_sdkDumpPipes t) \<and> d_perfPipes t = d_perfPipes s \<and> d_limitedPipes t = d_limitedPipes s"
  using assms concerns_del concerns_update[of "\<lambda>p. snd (take_write_ends p)"]
  by (auto simp: OnRequest_pipe_def Let_def split: option.splits if_splits prod.splits)

lemma send_pair_registries [simp]: "registries (snd (send_pair conn fds s)) = registries s"
  by (simp add: send_pair_def)

lemma PerfResourceLimiter_registries [simp]: "registries (PerfResourceLimiter_new os s) = registries s"
proof -
  obtain ok s1 where a: "SetTimeOptionForTimeFd (Os.truncate os) (os_timerfd os)
           (word_of_int resetDuration * NS_PER_S) (word_of_int resetDuration * NS_PER_S) s = (ok, s1)" by fastforce
  have "registries s1 = registries s" using a by (auto simp: SetTimeOptionForTimeFd_def registries_def split: if_splits)
  then show ?thesis using a by (simp add: PerfResourceLimiter_new_def registries_def Let_def)
qed

lemma CheckPerfLimit_registries: "CheckPerfLimit os uid b s = (code, t) \<Longrightarrow> registries t = registries s \<and>
    (code = REQUEST_SUCCESS \<longrightarrow> length (d_perfPipes s) \<le> MAX_LITE_PERF_PIPE_SIZE)"
  using PerfResourceLimiter_registries[of os s]
  by (auto simp: CheckPerfLimit_def CheckDumpMax_def registries_def Let_def split: if_splits prod.splits)

lemma send_pair_D: "send_pair conn fds s = (code, t) \<Longrightarrow> registries t = registries s"
  using send_pair_registries[of conn fds s] by simp

lemma OnRequest_perf_cases:
  assumes "OnRequest_perf os conn r s = (code, t)"
  obtains "registries t = registries s"
    | "registries t = (d_sdkDumpPipes s, DelPerfPipePair (sint (lr_uid r)) (d_perfPipes s), d_limitedPipes s)"
    | i where "registries t = (d_sdkDumpPipes s, CreatePerfPipePair i (sint (lr_uid r)) (d_perfPipes s), d_limitedPipes s)"
        "length (d_perfPipes s) \<le> MAX_LITE_PERF_PIPE_SIZE"
    | "registries t = (d_sdkDumpPipes s,
         update_first (\<lambda>p. lp_uid p = sint (lr_uid r)) (\<lambda>p. snd (take_write_ends p)) (d_perfPipes s), d_limitedPipes s)"
proof -
  consider "\<not> Filter_perf os r" | "Filter_perf os r" "lr_pipeType r = PIPE_FD_DELETE"
    | "Filter_perf os r" "lr_pipeType r \<noteq> PIPE_FD_DELETE" "lr_pipeType r = PIPE_FD_READ"
    | "Filter_perf os r" "lr_pipeType r \<noteq> PIPE_FD_DELETE" "lr_pipeType r \<noteq> PIPE_FD_READ" by blast
  then show thesis
  proof cases
    case 1
    then show thesis using assms that(1) by (simp add: OnRequest_perf_def)
  next
    case 2
    then show thesis using assms that(2) by (auto simp: OnRequest_perf_def Let_def registries_def)
  next
    case 3
    obtain c s1 where f: "CheckPerfLimit os (sint (lr_uid r)) (lr_checkLimit r) s = (c, s1)" by fastforce
    note f' = CheckPerfLimit_registries[OF f]
    show thesis
    proof (cases "c = REQUEST_SUCCESS \<and> \<not> lr_timeout r < 0")
      case False
      then have "registries t = registries s1" using assms 3 f by (auto simp: OnRequest_perf_def Let_def split: if_splits)
      then show thesis using f' that(1) by simp
    next
      case True
      then obtain i where "registries t = (d_sdkDumpPipes s1, CreatePerfPipePair i (sint (lr_uid r)) (d_perfPipes s1), d_limitedPipes s1)"
        using assms 3 f by (auto simp: OnRequest_perf_def Let_def dest!: send_pair_D) (auto simp: registries_def)
      then show thesis using f' True that(3) by (simp add: registries_def)
    qed
  next
    case 4
    then have "registries t = registries s \<or> registries t = (d_sdkDumpPipes s,
         update_first (\<lambda>p. lp_uid p = sint (lr_uid r)) (\<lambda>p. snd (take_write_ends p)) (d_perfPipes s), d_limitedPipes s)"
      using assms by (auto simp: OnRequest_perf_def Let_def dest!: send_pair_D split: option.splits) (auto simp: registries_def)
    then show thesis using that(1,4) by blast
  qed
qed

lemma OnRequest_perf_ok:
  assumes "OnRequest_perf os conn r s = (code, t)" "registries_ok s"
  shows "registries_ok t \<and> d_sdkDumpPipes t = d_sdkDumpPipes s"
proof -
  let ?uid = "sint (lr_uid r)"
  consider "registries t = registries s" | "registries t = (d_sdkDumpPipes s, DelPerfPipePair ?uid (d_perfPipes s), d_limitedPipes s)"
    | i where "registries t = (d_sdkDumpPipes s, CreatePerfPipePair i ?uid (d_perfPipes s), d_limitedPipes s)"
        "length (d_perfPipes s) \<le> MAX_LITE_PERF_PIPE_SIZE"
    | "registries t = (d_sdkDumpPipes s, update_first (\<lambda>p. lp_uid p = ?uid) (\<lambda>p. snd (take_write_ends p)) (d_perfPipes s), d_limitedPipes s)"
    using assms(1) by (rule OnRequest_perf_cases)
  then show ?thesis
  proof cases
    case 1
    then show ?thesis using assms(2) by (simp add: registries_ok_def registries_def)
  next
    case 2
    then show ?thesis using assms(2) perf.distinct_del length_remove_if[of _ "d_perfPipes s"]
      by (auto simp: registries_ok_def registries_def DelPerfPipePair_def intro: order_trans distinct_key_remove_if)
  next
    case 3
    then show ?thesis using assms(2) perf.distinct_create perf.length_create[of _ _ "d_perfPipes s"]
      by (auto simp: registries_ok_def registries_def)
  next
    case 4
    then show ?thesis using assms(2) by (auto simp: registries_ok_def registries_def map_key_update_first)
  qed
qed

lemma GetLimitedPipeFd_key [simp]: "li_pid (snd (GetLimitedPipeFd ty p)) = li_pid p"
  by (simp add: GetLimitedPipeFd_def split: prod.split)

lemma OnRequest_limited_pipe_ok:
  assumes "OnRequest_limited_pipe os conn r s = (code, t)" "registries_ok s"
  shows "registries_ok t \<and> d_sdkDumpPipes t = d_sdkDumpPipes s"
proof -
  define s1 where "s1 = (if d_launchLiteDumpPipeMap s = [] then snd (delay_task os Clear_lite_dump_pipe_map ONE_DAY_SEC s) else s)"
  obtain ok s2 where f: "Filter_limited_pipe os r s1 = (ok, s2)" by fastforce
  have "registries s2 = registries s1"
    using f by (auto simp: Filter_limited_pipe_def registries_def split: option.splits if_splits prod.splits)
  moreover have "registries s1 = registries s" by (simp add: s1_def registries_def)
  ultimately have s2: "registries s2 = registries s" by simp
  have d: "distinct (map li_pid (CreateLimitedPipePair i k (d_limitedPipes s)))" "distinct (map li_pid (DelLimitedPipePair k (CreateLimitedPipePair i k (d_limitedPipes s))))"
     "distinct (map li_pid (DelLimitedPipePair k (d_limitedPipes s)))" for i k
    using assms(2) limited.distinct_create limited.distinct_del by (simp_all add: registries_ok_def)
  show ?thesis
    using assms s2 d unfolding OnRequest_limited_pipe_def s1_def[symmetric] Let_def f prod.case
    by (auto simp: registries_ok_def registries_def map_key_update_first limited.distinct_del split: if_splits)
qed


section \<open>The invariant of the registries\<close>

lemma report_stats_registries [simp]: "registries (run_report_stats os r s) = registries s"
  by (simp add: run_report_stats_def Let_def registries_def)

lemma restore_task_registries [simp]: "registries (run_restore_dumpable os pid c st s) = registries s"
  by (simp add: run_restore_dumpable_def)

lemma counter_registries [simp]:
  "registries (s\<lparr>d_launchLiteDumpMap := m\<rparr>) = registries s" "registries (s\<lparr>d_launchLiteDumpPipeMap := m\<rparr>) = registries s"
  by (simp_all add: registries_def)

lemma registries_ok_cong: "registries t = registries s \<Longrightarrow> registries_ok t = registries_ok s"
  by (simp add: registries_ok_def registries_def)

lemma serve_registries:
  assumes "serve os dc n conn r s = (code, t)"
  shows "(registries_ok s \<longrightarrow> registries_ok t) \<and>
    (case r of Sdk_dump_request q \<Rightarrow> concerns (sr_pid q) (d_sdkDumpPipes s) (d_sdkDumpPipes t)
     | Pipe_request q \<Rightarrow> concerns (pr_pid q) (d_sdkDumpPipes s) (d_sdkDumpPipes t)
     | _ \<Rightarrow> registries_ok s \<longrightarrow> d_sdkDumpPipes t = d_sdkDumpPipes s)"
proof -
  have same: "registries t = registries s \<Longrightarrow> (registries_ok s \<longrightarrow> registries_ok t) \<and> d_sdkDumpPipes t = d_sdkDumpPipes s"
    by (simp add: registries_ok_def registries_def)
  have t: "t = snd (serve os dc n conn r s)" using assms by simp
  show ?thesis
  proof (cases r)
    case (Sdk_dump_request q)
    then show ?thesis using assms OnRequest_sdk_dump_concerns[of os n conn q s code t]
      by (auto simp: registries_ok_def concerns_def)
  next
    case (Pipe_request q)
    then show ?thesis using assms OnRequest_pipe_concerns[of os n conn q s code t]
      by (auto simp: registries_ok_def concerns_def)
  next
    case (Perf_request q)
    then show ?thesis using assms OnRequest_perf_ok[of os conn q s code t] by auto
  next
    case (Limited_pipe_request q)
    then show ?thesis using assms OnRequest_limited_pipe_ok[of os conn q s code t] by auto
  qed (use t same in simp_all)
qed

lemma task_registries:
  fixes s :: "'a Daemon_scheme"
  shows "registries_ok s \<Longrightarrow> registries_ok (run_service_task os w s)"
  "d_sdkDumpPipes (run_service_task os w s) = d_sdkDumpPipes s"
proof -
  have same: "registries t = registries s \<Longrightarrow> registries_ok s \<Longrightarrow> registries_ok t"
     "registries t = registries s \<Longrightarrow> d_sdkDumpPipes t = d_sdkDumpPipes s" for t :: "'a Daemon_scheme"
    by (simp_all add: registries_ok_def registries_def)
  show "registries_ok s \<Longrightarrow> registries_ok (run_service_task os w s)"
  proof (cases w)
    case Clear_timeout_pairs
    assume "registries_ok s"
    then show ?thesis using Clear_timeout_pairs length_remove_if[of _ "d_perfPipes s"]
      by (auto simp: registries_ok_def ClearTimeOutPairs_def intro: distinct_key_remove_if order_trans)
  next
    case (Del_limited_pipe pid)
    assume "registries_ok s"
    then show ?thesis using Del_limited_pipe by (simp add: registries_ok_def limited.distinct_del)
  qed (use same in simp_all)
  show "d_sdkDumpPipes (run_service_task os w s) = d_sdkDumpPipes s"
    by (cases w) (simp_all add: run_report_stats_def Let_def run_restore_dumpable_def)
qed

lemma service_step_ok: "service_step s t \<Longrightarrow> registries_ok s \<Longrightarrow> registries_ok t"
proof (induction rule: service_step.induct)
  case (request os dc socketName conn r s code t)
  then show ?case using serve_registries by blast
next
  case (reset t s)
  then show ?case by (simp add: perf_reset_def registries_ok_def)
qed (simp add: task_registries(1))

lemma service_star_ok: "service_step\<^sup>*\<^sup>* s t \<Longrightarrow> registries_ok s \<Longrightarrow> registries_ok t"
  by (induction rule: rtranclp_induct) (auto intro: service_step_ok)

section \<open>Write ends are handed out once\<close>

lemma take_write_ends_spent:
  "take_write_ends p = (fds, q) \<Longrightarrow> fp_write (pp_Buf q) \<and> fp_write (pp_Res q)"
  by (auto simp: take_write_ends_def GetPipeFd_def pipe_fd_def PIPE_FD_defs GetWriteFd_def Let_def split: if_splits)

lemma take_spent_ends: "fp_write (pp_Buf p) \<Longrightarrow> hd (fst (take_write_ends p)) = - 1 \<and> fst (take_write_ends p) \<noteq> []"
  by (simp add: take_write_ends_def GetPipeFd_def pipe_fd_def PIPE_FD_defs GetWriteFd_def Let_def split: prod.split)

lemma spent_pipe:
  assumes "OnRequest_pipe os n conn r s = (code, t)" "pr_pipeType r \<noteq> PIPE_FD_DELETE" "code = REQUEST_SUCCESS \<or> spent (pr_pid r) s"
  shows "spent (pr_pid r) t"
  using assms
  by (auto simp: OnRequest_pipe_def spent_def GetSdkDumpPipePair_def find_update_first Let_def
      dest: take_write_ends_spent split: option.splits if_splits prod.splits)

lemma quiet_step_spent:
  assumes "quiet_step pid s t" "registries_ok s" "spent pid s"
  shows "registries_ok t \<and> spent pid t"
  using assms
proof cases
  case (request os dc n conn r code)
  note f = serve_registries[OF request(1)]
  have "spent pid t"
  proof (cases r)
    case (Sdk_dump_request q)
    then show ?thesis using f request(2) assms(3) by (auto simp: concerns_def spent_def)
  next
    case (Pipe_request q)
    show ?thesis
    proof (cases "pr_pid q = pid")
      case True
      then show ?thesis using request Pipe_request assms(3) spent_pipe[of os n conn q s code t] by auto
    next
      case False
      then show ?thesis using f Pipe_request assms(3) by (auto simp: concerns_def spent_def)
    qed
  qed (use f assms in \<open>auto simp: spent_def\<close>)
  then show ?thesis using f assms(2) by blast
next
  case (task os w)
  then show ?thesis using assms task_registries(1)[of s os w] task_registries(2)[of os w s] by (simp add: spent_def)
qed

lemma quiet_star_spent:
  "(quiet_step pid)\<^sup>*\<^sup>* s t \<Longrightarrow> registries_ok s \<Longrightarrow> spent pid s \<Longrightarrow> registries_ok t \<and> spent pid t"
  by (induction rule: rtranclp_induct) (use quiet_step_spent in blast)+

lemma spent_refused:
  assumes "spent (pr_pid r) s" "pr_pipeType r \<noteq> PIPE_FD_DELETE"
  shows "fst (OnRequest_pipe os n conn r s) \<noteq> REQUEST_SUCCESS \<and> d_out (snd (OnRequest_pipe os n conn r s)) = d_out s"
proof -
  obtain p where p: "GetSdkDumpPipePair (pr_pid r) (d_sdkDumpPipes s) = Some p" "fp_write (pp_Buf p)"
    using assms(1) by (auto simp: spent_def)
  obtain b fds q where w: "take_write_ends p = (b # fds, q)" "b = - 1"
    using take_spent_ends[OF p(2)] by (cases "take_write_ends p"; cases "fst (take_write_ends p)") auto
  show ?thesis using p w assms(2) by (auto simp: OnRequest_pipe_def Let_def split: option.splits)
qed


section \<open>Who receives descriptors\<close>

lemma grows_simps [simp]: "grows P xs xs" "grows P xs (xs @ ys) \<longleftrightarrow> list_all P ys"
  by (auto simp: grows_def)

lemma grows_append: "grows P xs ys \<Longrightarrow> list_all P zs \<Longrightarrow> grows P xs (ys @ zs)"
  by (auto simp: grows_def)

lemma grows_trans: "grows P xs ys \<Longrightarrow> grows P ys zs \<Longrightarrow> grows P xs zs"
  by (auto simp: grows_def)

lemma proper_send_simps [simp]:
  "proper_send conn code a (Send_fds c fds) \<longleftrightarrow> c = conn \<and> code = REQUEST_SUCCESS \<and> a \<and> list_all (\<lambda>fd. 0 \<le> fd) fds"
  "proper_send conn code a (Send_code c x)" "proper_send conn code a (Signal p si)" "proper_send conn code a (Thread_signal p q si)"
  "proper_send conn code a (Write_exception ce)" "proper_send conn code a (Launch_processdump p)"
  "proper_send conn code a (Remove_temp_file f)" "proper_send conn code a (Write_stats st)"
  by (simp_all add: proper_send_def)

lemma emits_out [simp]: "d_out (fold (\<lambda>f. emit (h f)) fs s) = d_out s @ map h fs"
  by (induction fs arbitrary: s) auto

lemma listener_out [simp]:
  "d_out (snd (AddListener os l s)) = d_out s" "d_out (snd (RemoveListener os fd s)) = d_out s"
  "d_out (snd (SetTimeOptionForTimeFd os fd a b s)) = d_out s"
  by (simp_all add: AddListener_def RemoveListener_def SetTimeOptionForTimeFd_def)

lemma signal_grows: "SendSignalToProcess os pid si s = (res, t) \<Longrightarrow> grows (proper_send conn code a) (d_out s) (d_out t)"
  by (auto simp: SendSignalToProcess_def SendSignalToHapWatchdogThread_def split: option.splits if_splits prod.splits)

lemma binder_signal_grows: "SendSignalToBinderPid os ps s = (res, t) \<Longrightarrow> grows (proper_send conn code a) (d_out s) (d_out t)"
  by (induction os ps s arbitrary: res t rule: SendSignalToBinderPid.induct)
    (force intro: grows_trans signal_grows split: if_splits prod.splits)+

lemma file_grows:
  assumes "OnRequest_file os dc n conn r s = (code, t)"
  shows "grows (proper_send conn code (may_receive os n (File_request r))) (d_out s) (d_out t)"
proof -
  have r: "d_out (snd (RestoreDumpable os (fr_pid r) s)) = d_out s"
    by (simp add: RestoreDumpable_def split: option.split)
  have m: "os_cred os = Some c \<Longrightarrow> Filter_file n c r \<Longrightarrow> may_receive os n (File_request r)" for c
    by (auto simp: Filter_file_def CheckRequestCredential_def split: if_splits)
  show ?thesis
    using assms r
    by (auto simp: OnRequest_file_def Let_def list_all_iff simp del: may_receive.simps dest: m split: option.splits if_splits prod.splits)
qed

lemma sdk_dump_grows:
  assumes "OnRequest_sdk_dump os n conn r s = (code, t)"
  shows "grows (proper_send conn code (may_receive os n (Sdk_dump_request r))) (d_out s) (d_out t)"
proof (cases "os_cred os")
  case None
  then show ?thesis using assms by (simp add: OnRequest_sdk_dump_def)
next
  case (Some creds)
  obtain c s1 where f: "Filter_sdk_dump os n r (cr_uid creds) s = (c, s1)" by fastforce
  have o: "d_out s1 = d_out s" and
    a: "c = REQUEST_SUCCESS \<Longrightarrow> n = SERVER_SDKDUMP_SOCKET_NAME \<and> CheckCallerUID (cr_uid creds)"
    using f by (auto simp: Filter_sdk_dump_def Let_def split: if_splits prod.splits)
  define s2 where "s2 = s1\<lparr>d_sdkDumpPipes := CreateSdkDumpPipePair ((os_pipe_buf os, os_pipe_res os), sr_time r) (sr_pid r) (d_sdkDumpPipes s1)\<rparr>"
  obtain res s3 where g: "SendSignalToProcess os (sr_pid r) (sdk_siginfo r creds) s2 = (res, s3)" by fastforce
  have "grows (proper_send conn code (may_receive os n (Sdk_dump_request r))) (d_out s) (d_out s2)" using o by (simp add: s2_def)
  then have s3: "grows (proper_send conn code (may_receive os n (Sdk_dump_request r))) (d_out s) (d_out s3)"
    using signal_grows[OF g] by (rule grows_trans)
  show ?thesis
    using assms Some f g a s3 o
    by (auto simp: OnRequest_sdk_dump_def Let_def s2_def[symmetric] intro!: grows_append split: option.splits if_splits)
qed

lemma pipe_grows:
  assumes "OnRequest_pipe os n conn r s = (code, t)"
  shows "grows (proper_send conn code (may_receive os n (Pipe_request r))) (d_out s) (d_out t)"
  using assms by (auto simp: OnRequest_pipe_def Filter_pipe_def Let_def list_all_iff not_less split: option.splits if_splits prod.splits)

lemma PerfResourceLimiter_out: "d_out (PerfResourceLimiter_new os s) = d_out s"
  by (simp add: PerfResourceLimiter_new_def Let_def split: prod.split) (metis listener_out(3) snd_conv)

lemma perf_grows:
  assumes "OnRequest_perf os conn r s = (code, t)"
  shows "grows (proper_send conn code (may_receive os n (Perf_request r))) (d_out s) (d_out t)"
proof -
  have c: "d_out s1 = d_out s" if "CheckPerfLimit os uid b s = (c, s1)" for uid b c s1
    using that by (auto simp: CheckPerfLimit_def PerfResourceLimiter_out Let_def split: if_splits prod.splits)
  have s: "send_pair conn fds u = (code, t) \<Longrightarrow> may_receive os n (Perf_request r) \<Longrightarrow>
      grows (proper_send conn code (may_receive os n (Perf_request r))) (d_out u) (d_out t)" for fds u
    by (auto simp: send_pair_def list_all_iff not_less split: if_splits)
  show ?thesis
  proof (cases "Filter_perf os r")
    case False
    then show ?thesis using assms by (simp add: OnRequest_perf_def)
  next
    case True
    then have m: "may_receive os n (Perf_request r)" by (auto simp: Filter_perf_def split: if_splits option.splits)
    show ?thesis
      using assms True
      by (auto simp: OnRequest_perf_def Let_def simp del: may_receive.simps dest!: c s[OF _ m] split: option.splits if_splits prod.splits)
  qed
qed

lemma limited_pipe_grows:
  assumes "OnRequest_limited_pipe os conn r s = (code, t)"
  shows "grows (proper_send conn code (may_receive os n (Limited_pipe_request r))) (d_out s) (d_out t)"
  using assms by (auto simp: OnRequest_limited_pipe_def Filter_limited_pipe_def Let_def split: option.splits if_splits prod.splits)

lemma binder_grows:
  assumes "OnRequest_binder os dc n conn r s = (code, t)"
  shows "grows (proper_send conn code (may_receive os n (Binder_request r))) (d_out s) (d_out t)"
  using assms
  by (auto simp: OnRequest_binder_def Let_def dest!: binder_signal_grows intro!: grows_append split: option.splits if_splits prod.splits)


lemma serve_grows:
  assumes "serve os dc n conn r s = (code, t)"
  shows "grows (proper_send conn code (may_receive os n r)) (d_out s) (d_out t)"
proof (cases r)
  case (Stats_request q)
  then show ?thesis using assms by (auto simp: OnRequest_stats_def Let_def split: if_splits)
next
  case (Minidump_request q)
  have "d_out u = d_out s" if "SetMiniDump os (mr_pid q) x y s = (b, u)" for x y b u
    using that by (auto simp: SetMiniDump_def SetEnableMinidump_def SetDisableMinidumpToCrashLog_def AddListener_def Let_def split: prod.splits option.splits if_splits)
  then show ?thesis using Minidump_request assms
    by (cases "SetMiniDump os (mr_pid q) (mr_enableMinidump q) (mr_enableMinidumpToCrashLog q) s")
      (auto simp: OnRequest_minidump_def Let_def split: if_splits)
next
  case (Limited_dump_request q)
  then show ?thesis using assms
    by (auto simp: OnRequest_limited_dump_def Filter_limited_dump_def Let_def split: if_splits option.splits prod.splits)
qed (use assms file_grows sdk_dump_grows pipe_grows perf_grows limited_pipe_grows binder_grows in
    \<open>auto simp: OnRequest_exception_def simp del: may_receive.simps split: if_splits\<close>)


section \<open>Daily quotas\<close>

text \<open>
  The contract of a counter: a granted request had room in its bucket and fills it, and no request takes
  anything out of a bucket.
\<close>

locale quota =
  fixes req :: "'k \<Rightarrow> 'c \<Rightarrow> bool \<times> 'c" and bucket :: "'k \<Rightarrow> 'b" and used :: "'c \<Rightarrow> 'b \<Rightarrow> int" and limit :: int
  assumes granted: "req k c = (True, c') \<Longrightarrow> used c (bucket k) < limit \<and> used c (bucket k) < used c' (bucket k)"
    and kept: "req k c = (ok, c') \<Longrightarrow> used c b \<le> used c' b"
begin

lemma granted_bound: "length (filter (\<lambda>k. bucket k = b) (fst (run_quota req ks c))) \<le> nat (limit - used c b)"
proof (induction ks arbitrary: c)
  case (Cons k ks)
  obtain ok c' where r: "req k c = (ok, c')" by fastforce
  obtain acc c'' where q: "run_quota req ks c' = (acc, c'')" by fastforce
  have "length (filter (\<lambda>k. bucket k = b) acc) \<le> nat (limit - used c' b)" using Cons.IH[of c'] q by simp
  moreover have "used c b \<le> used c' b" by (rule kept[OF r])
  ultimately show ?case using r q granted[of k c c'] by (cases ok) auto
qed simp

end

lemma count_request_granted:
  assumes "count_request limit uid m = (ok, m')"
  shows "ok \<longleftrightarrow> requests_of m uid < limit" "requests_of m' u = requests_of m u + (if u = uid then 1 else 0)"
proof -
  have "map_of (filter (\<lambda>p. fst p \<noteq> uid) m) u = (if u = uid then None else map_of m u)"
    by (induction m) auto
  then show "ok \<longleftrightarrow> requests_of m uid < limit" "requests_of m' u = requests_of m u + (if u = uid then 1 else 0)"
    using assms by (auto simp: count_request_def requests_of_def Let_def)
qed

lemma CheckPerfLimit_limiter_granted:
  assumes "CheckPerfLimit_limiter uid c = (ok, c')"
  shows "if ok then fst c uid < uidPerfLimit \<and> snd c < deviceLimit \<and> c' = ((fst c)(uid := fst c uid + 1), snd c + 1) else c' = c"
  using assms by (auto simp: CheckPerfLimit_limiter_def split: prod.splits if_splits)

lemma counters_frame [simp]:
  "counters (emit e s) = counters s" "counters (snd (delay_task os w d s)) = counters s"
  "counters (s\<lparr>d_sdkDumpPipes := a\<rparr>) = counters s" "counters (s\<lparr>d_perfPipes := b\<rparr>) = counters s" "counters (s\<lparr>d_limitedPipes := c\<rparr>) = counters s"
  "counters (s\<lparr>d_crashFileRecords := e'\<rparr>) = counters s" "counters (s\<lparr>d_fdFileRecords := f\<rparr>) = counters s" "counters (s\<lparr>d_stats := g\<rparr>) = counters s"
  "counters (snd (AddListener o1 l s)) = counters s" "counters (snd (RemoveListener o1 fd s)) = counters s"
  "counters (s\<lparr>d_launchLiteDumpMap := m\<rparr>) = (m, snd (counters s))"
  "counters (s\<lparr>d_launchLiteDumpPipeMap := m\<rparr>) = (fst (counters s), m, snd (snd (counters s)))"
  by (simp_all add: counters_def emit_def AddListener_def RemoveListener_def)


lemma signal_counters: "SendSignalToProcess os pid si s = (res, t) \<Longrightarrow> counters t = counters s"
  by (auto simp: SendSignalToProcess_def SendSignalToHapWatchdogThread_def split: option.splits if_splits prod.splits)

lemma binder_signal_counters: "SendSignalToBinderPid os ps s = (res, t) \<Longrightarrow> counters t = counters s"
  by (induction os ps s arbitrary: res t rule: SendSignalToBinderPid.induct)
    (force dest: signal_counters split: if_splits prod.splits)+

lemma emits_counters [simp]: "counters (fold (\<lambda>f. emit (h f)) fs s) = counters s"
  by (induction fs arbitrary: s) auto

lemma minidump_counters:
  assumes "SetMiniDump os pid x y s = (b, t)"
  shows "counters t = counters s"
proof -
  have u: "counters (u\<lparr>d_enableMinidump := m\<rparr>) = counters u" "counters (u\<lparr>d_disableMinidumpToCrashLog := l\<rparr>) = counters u"
    for u :: "'a Daemon_scheme" and m l by (simp_all add: counters_def)
  have "counters v = counters s" if "AddListener (Os.truncate os) l s = (ok, v)" for l ok v
    using that counters_frame(9)[of "Os.truncate os" l s] by simp
  then show ?thesis
    using assms by (auto simp: SetMiniDump_def SetEnableMinidump_def SetDisableMinidumpToCrashLog_def u Let_def
        split: prod.splits option.splits if_splits bool.splits)
qed

lemma sdk_dump_counters: "OnRequest_sdk_dump os n conn r s = (code, t) \<Longrightarrow> counters t = counters s"
  by (auto simp: OnRequest_sdk_dump_def Filter_sdk_dump_def Let_def dest!: signal_counters split: option.splits if_splits prod.splits)

lemma file_counters: "OnRequest_file os dc n conn r s = (code, t) \<Longrightarrow> counters t = counters s"
  by (auto simp: OnRequest_file_def RestoreDumpable_def Let_def split: option.splits if_splits prod.splits)

lemma other_counters:
  assumes "serve os dc n conn r s = (code, t)" "\<not> dumps_limited r" "\<not> opens_limited_pipe r" "\<And>q. r \<noteq> Perf_request q"
  shows "counters t = counters s"
proof (cases r)
  case (Pipe_request q)
  then show ?thesis using assms(1) by (auto simp: OnRequest_pipe_def Let_def split: option.splits if_splits prod.splits)
next
  case (Stats_request q)
  then show ?thesis using assms(1) by (auto simp: OnRequest_stats_def Let_def split: if_splits)
next
  case (Minidump_request q)
  then show ?thesis using assms(1) by (auto simp: OnRequest_minidump_def Let_def dest!: minidump_counters split: if_splits prod.splits)
next
  case (Binder_request q)
  then show ?thesis using assms(1)
    by (auto simp: OnRequest_binder_def Let_def dest!: binder_signal_counters split: option.splits if_splits prod.splits)
qed (use assms in \<open>auto simp: OnRequest_exception_def dest: file_counters sdk_dump_counters split: if_splits\<close>)

lemma limited_dump_counters:
  assumes "OnRequest_limited_dump os conn r s = (code, t)"
  obtains "counters t = counters s" "code \<noteq> REQUEST_SUCCESS"
  | c ok m where "os_cred os = Some c" "count_request LITE_DUMP_LIMIT_ONE_DAY (GetRealUid (sint (cr_uid c))) (d_launchLiteDumpMap s) = (ok, m)"
      "counters t = (m, snd (counters s))" "code = REQUEST_SUCCESS \<longrightarrow> ok"
  using assms
  by (auto simp: OnRequest_limited_dump_def Filter_limited_dump_def Let_def split: option.splits if_splits prod.splits)

lemma limited_pipe_counters:
  assumes "OnRequest_limited_pipe os conn r s = (code, t)"
  obtains "counters t = counters s" "code \<noteq> REQUEST_SUCCESS"
  | c ok m where "os_cred os = Some c" "count_request (LITE_DUMP_LIMIT_ONE_DAY * 3) (GetRealUid (sint (cr_uid c))) (d_launchLiteDumpPipeMap s) = (ok, m)"
      "counters t = (fst (counters s), m, snd (snd (counters s)))" "code = REQUEST_SUCCESS \<longrightarrow> ok"
proof -
  define s1 where "s1 = (if d_launchLiteDumpPipeMap s = [] then snd (delay_task os Clear_lite_dump_pipe_map ONE_DAY_SEC s) else s)"
  have s1: "counters s1 = counters s" "d_launchLiteDumpPipeMap s1 = d_launchLiteDumpPipeMap s" by (simp_all add: s1_def)
  obtain ok s2 where f: "Filter_limited_pipe os r s1 = (ok, s2)" by fastforce
  have t: "counters t = counters s2" "code = REQUEST_SUCCESS \<longrightarrow> ok"
    using assms unfolding OnRequest_limited_pipe_def s1_def[symmetric] f Let_def by (auto split: if_splits)
  have "counters s2 = counters s1 \<and> \<not> ok \<or> (\<exists>c b m. os_cred os = Some c \<and>
      count_request (LITE_DUMP_LIMIT_ONE_DAY * 3) (GetRealUid (sint (cr_uid c))) (d_launchLiteDumpPipeMap s1) = (b, m) \<and>
      counters s2 = (fst (counters s1), m, snd (snd (counters s1))) \<and> (ok \<longrightarrow> b))"
    using f by (auto simp: Filter_limited_pipe_def split: option.splits if_splits prod.splits)
  then show thesis using t s1 that by (metis (no_types))
qed

lemma send_pair_counters: "send_pair conn fds s = (code, t) \<Longrightarrow> counters t = counters s"
  by (auto simp: send_pair_def split: if_splits)

lemma PerfResourceLimiter_counters:
  "d_launchLiteDumpMap (PerfResourceLimiter_new os s) = d_launchLiteDumpMap s" "d_launchLiteDumpPipeMap (PerfResourceLimiter_new os s) = d_launchLiteDumpPipeMap s"
  "d_perfCounts (PerfResourceLimiter_new os s) = d_perfCounts s" "d_devicePerfCount (PerfResourceLimiter_new os s) = d_devicePerfCount s"
  by (simp_all add: PerfResourceLimiter_new_def SetTimeOptionForTimeFd_def AddListener_def Let_def)

lemma perf_counters:
  assumes "OnRequest_perf os conn r s = (code, t)"
  obtains "counters t = counters s" "code = REQUEST_SUCCESS \<longrightarrow> \<not> starts_perf (Perf_request r)"
  | ok c where "CheckPerfLimit_limiter (sint (lr_uid r)) (d_perfCounts s, d_devicePerfCount s) = (ok, c)"
      "counters t = (d_launchLiteDumpMap s, d_launchLiteDumpPipeMap s, c)" "code = REQUEST_SUCCESS \<longrightarrow> ok"
proof (cases "Filter_perf os r \<and> lr_pipeType r = PIPE_FD_READ")
  case False
  then have "counters t = counters s" "code = REQUEST_SUCCESS \<longrightarrow> \<not> starts_perf (Perf_request r)"
    using assms by (auto simp: OnRequest_perf_def Let_def PIPE_FD_defs dest!: send_pair_counters split: option.splits if_splits)
  then show thesis using that(1) by blast
next
  case True
  obtain c s1 where f: "CheckPerfLimit os (sint (lr_uid r)) (lr_checkLimit r) s = (c, s1)" by fastforce
  have t: "counters t = counters s1" "code = REQUEST_SUCCESS \<longrightarrow> c = REQUEST_SUCCESS"
    using assms True f by (auto simp: OnRequest_perf_def Let_def PIPE_FD_defs dest!: send_pair_counters split: if_splits)
  show thesis
    using f t that
    by (auto simp: CheckPerfLimit_def Let_def PerfResourceLimiter_counters counters_def split: if_splits prod.splits)
qed

lemma counters_D: "counters t = counters s \<Longrightarrow> d_launchLiteDumpMap t = d_launchLiteDumpMap s \<and>
    d_launchLiteDumpPipeMap t = d_launchLiteDumpPipeMap s \<and> d_perfCounts t = d_perfCounts s \<and> d_devicePerfCount t = d_devicePerfCount s"
  by (simp add: counters_def)

lemma serve_counters:
  assumes "serve os dc n conn r s = (code, t)"
  obtains "counters t = counters s" "code = REQUEST_SUCCESS \<longrightarrow> \<not> starts_perf r \<and> \<not> dumps_limited r \<and> \<not> opens_limited_pipe r"
  | c ok m where "dumps_limited r" "os_cred os = Some c" "count_request LITE_DUMP_LIMIT_ONE_DAY (GetRealUid (sint (cr_uid c))) (d_launchLiteDumpMap s) = (ok, m)"
      "counters t = (m, snd (counters s))" "code = REQUEST_SUCCESS \<longrightarrow> ok"
  | c ok m where "opens_limited_pipe r" "os_cred os = Some c" "count_request (LITE_DUMP_LIMIT_ONE_DAY * 3) (GetRealUid (sint (cr_uid c))) (d_launchLiteDumpPipeMap s) = (ok, m)"
      "counters t = (fst (counters s), m, snd (snd (counters s)))" "code = REQUEST_SUCCESS \<longrightarrow> ok"
  | q ok c where "r = Perf_request q" "CheckPerfLimit_limiter (sint (lr_uid q)) (d_perfCounts s, d_devicePerfCount s) = (ok, c)"
      "counters t = (d_launchLiteDumpMap s, d_launchLiteDumpPipeMap s, c)" "code = REQUEST_SUCCESS \<longrightarrow> ok"
proof (cases r)
  case (Limited_dump_request q)
  then show ?thesis using assms that(1,2) by (auto elim!: limited_dump_counters)
next
  case (Limited_pipe_request q)
  then show ?thesis using assms that(1,3) by (auto elim!: limited_pipe_counters)
next
  case (Perf_request q)
  then show ?thesis using assms that(1,4) by (auto elim!: perf_counters)
qed (use assms other_counters[OF assms] that(1) in auto)

lemma kinds: "dumps_limited r \<Longrightarrow> \<not> opens_limited_pipe r" "dumps_limited r \<Longrightarrow> \<not> starts_perf r" "opens_limited_pipe r \<Longrightarrow> \<not> starts_perf r"
  by (cases r; simp)+

lemma serve_quota:
  assumes granted: "\<And>os dc n conn r s t. serve os dc n conn r s = (REQUEST_SUCCESS, t) \<Longrightarrow> kind r \<Longrightarrow>
      used s (bucket (os, dc, n, conn, r)) < limit \<and> used s (bucket (os, dc, n, conn, r)) < used t (bucket (os, dc, n, conn, r))"
    and kept: "\<And>os dc n conn r s code t b. serve os dc n conn r s = (code, t) \<Longrightarrow> used s b \<le> used t b"
  shows "quota (serve_call kind) bucket used limit"
proof
  fix k :: Call and ok b and s t :: "'a Daemon_scheme"
  obtain os dc n conn r where k: "k = (os, dc, n, conn, r)" by (cases k)
  show "serve_call kind k s = (True, t) \<Longrightarrow> used s (bucket k) < limit \<and> used s (bucket k) < used t (bucket k)"
    using granted[of os dc n conn r s t] k by (auto split: prod.splits)
  show "serve_call kind k s = (ok, t) \<Longrightarrow> used s b \<le> used t b"
    using kept[of os dc n conn r s _ t] k by (auto split: prod.splits)
qed

lemmas quota_simps = counters_def count_request_granted(2)

interpretation dump_quota: quota "serve_call dumps_limited" caller_uid "\<lambda>s. requests_of (d_launchLiteDumpMap s)" LITE_DUMP_LIMIT_ONE_DAY
proof (rule serve_quota)
  fix os dc n conn r code b and s t :: "'a Daemon_scheme"
  show "requests_of (d_launchLiteDumpMap s) (caller_uid (os, dc, n, conn, r)) < LITE_DUMP_LIMIT_ONE_DAY \<and>
      requests_of (d_launchLiteDumpMap s) (caller_uid (os, dc, n, conn, r)) < requests_of (d_launchLiteDumpMap t) (caller_uid (os, dc, n, conn, r))"
    if "serve os dc n conn r s = (REQUEST_SUCCESS, t)" "dumps_limited r"
    using that(1) by (cases rule: serve_counters) (use that(2) kinds in \<open>auto simp: quota_simps dest: count_request_granted(1)\<close>)
  show "requests_of (d_launchLiteDumpMap s) b \<le> requests_of (d_launchLiteDumpMap t) b" if "serve os dc n conn r s = (code, t)"
    using that by (cases rule: serve_counters) (auto simp: quota_simps)
qed

interpretation pipe_quota: quota "serve_call opens_limited_pipe" caller_uid "\<lambda>s. requests_of (d_launchLiteDumpPipeMap s)" "LITE_DUMP_LIMIT_ONE_DAY * 3"
proof (rule serve_quota)
  fix os dc n conn r code b and s t :: "'a Daemon_scheme"
  show "requests_of (d_launchLiteDumpPipeMap s) (caller_uid (os, dc, n, conn, r)) < LITE_DUMP_LIMIT_ONE_DAY * 3 \<and>
      requests_of (d_launchLiteDumpPipeMap s) (caller_uid (os, dc, n, conn, r)) < requests_of (d_launchLiteDumpPipeMap t) (caller_uid (os, dc, n, conn, r))"
    if "serve os dc n conn r s = (REQUEST_SUCCESS, t)" "opens_limited_pipe r"
    using that(1) by (cases rule: serve_counters) (use that(2) kinds in \<open>auto simp: quota_simps dest: count_request_granted(1)\<close>)
  show "requests_of (d_launchLiteDumpPipeMap s) b \<le> requests_of (d_launchLiteDumpPipeMap t) b" if "serve os dc n conn r s = (code, t)"
    using that by (cases rule: serve_counters) (auto simp: quota_simps)
qed

interpretation uid_quota: quota "serve_call starts_perf" perf_uid d_perfCounts uidPerfLimit
proof (rule serve_quota)
  fix os dc n conn r code b and s t :: "'a Daemon_scheme"
  show "d_perfCounts s (perf_uid (os, dc, n, conn, r)) < uidPerfLimit \<and>
      d_perfCounts s (perf_uid (os, dc, n, conn, r)) < d_perfCounts t (perf_uid (os, dc, n, conn, r))"
    if "serve os dc n conn r s = (REQUEST_SUCCESS, t)" "starts_perf r"
    using that(1) by (cases rule: serve_counters) (use that(2) kinds in \<open>auto simp: quota_simps dest: CheckPerfLimit_limiter_granted\<close>)
  show "d_perfCounts s b \<le> d_perfCounts t b" if "serve os dc n conn r s = (code, t)"
    using that by (cases rule: serve_counters) (auto simp: quota_simps dest!: CheckPerfLimit_limiter_granted split: if_splits)
qed

interpretation device_quota: quota "serve_call starts_perf" "\<lambda>_. ()" "\<lambda>s _. d_devicePerfCount s" deviceLimit
proof (rule serve_quota)
  fix os dc n conn r code and s t :: "'a Daemon_scheme"
  show "d_devicePerfCount s < deviceLimit \<and> d_devicePerfCount s < d_devicePerfCount t"
    if "serve os dc n conn r s = (REQUEST_SUCCESS, t)" "starts_perf r"
    using that(1) by (cases rule: serve_counters) (use that(2) kinds in \<open>auto simp: quota_simps dest: CheckPerfLimit_limiter_granted\<close>)
  show "d_devicePerfCount s \<le> d_devicePerfCount t" if "serve os dc n conn r s = (code, t)"
    using that by (cases rule: serve_counters) (auto simp: quota_simps dest!: CheckPerfLimit_limiter_granted split: if_splits)
qed

section \<open>Rejected requests pile up\<close>

lemma AddDelayTask_grows:
  assumes "d \<noteq> 0" "os_now os \<noteq> 0" "dq_executor s \<noteq> None"
  shows "length (dq_delayTasks (snd (AddDelayTask os w d s))) = Suc (length (dq_delayTasks s)) \<and>
    dq_executor (snd (AddDelayTask os w d s)) = dq_executor s"
  using assms by (auto simp: AddDelayTask_def SetTimeOptionForTimeFd_def Let_def split: list.splits)

lemma rejected_pipe_request:
  assumes "os_cred os = Some c" "cr_pid c \<noteq> dr_pid r" "\<not> CheckCallerUID (cr_uid c)" "os_now os \<noteq> 0"
    and "d_launchLiteDumpPipeMap s = []" "dq_executor s \<noteq> None"
  shows "OnRequest_limited_pipe os conn r s = (REQUEST_REJECT, snd (delay_task os Clear_lite_dump_pipe_map ONE_DAY_SEC s))"
    and "length (dq_delayTasks (snd (delay_task os Clear_lite_dump_pipe_map ONE_DAY_SEC s))) = Suc (length (dq_delayTasks s))"
    and "dq_executor (snd (delay_task os Clear_lite_dump_pipe_map ONE_DAY_SEC s)) = dq_executor s"
  using assms AddDelayTask_grows[of ONE_DAY_SEC "Os.truncate os" s "Task Clear_lite_dump_pipe_map"]
  by (auto simp: OnRequest_limited_pipe_def Filter_limited_pipe_def Let_def delay_task_def ONE_DAY_SEC_def Os.truncate_def)


lemma sample_daemon_ok: "registries_ok sample_daemon"
  by (simp add: registries_ok_def sample_daemon_def)

section \<open>Properties\<close>

text \<open>
  C25.  In every state the main server reaches by requests and timer tasks, a process has at most one dump pipe
  pair and one limited pipe, a user at most one profiling pair, and there are at most 101 profiling pairs.
\<close>

theorem registries_invariant:
  assumes "service_step\<^sup>*\<^sup>* s t" "registries_ok s"
  shows "registries_ok t"
  using assms by (rule service_star_ok)

theorem registries_invariant_witness:
  "registries_ok (snd (OnRequest_limited_pipe sample_main_os 5 sample_limited_request sample_daemon))"
proof -
  have "service_step sample_daemon (snd (OnRequest_limited_pipe sample_main_os 5 sample_limited_request sample_daemon))"
    by (rule service_step.request[of sample_main_os DirectoryConfig_init "[]" 5 "Limited_pipe_request sample_limited_request" _
        "fst (OnRequest_limited_pipe sample_main_os 5 sample_limited_request sample_daemon)"]) simp
  then show ?thesis by (intro registries_invariant[OF _ sample_daemon_ok] r_into_rtranclp)
qed

text \<open>
  C23.  The write ends of a dump pipe pair are handed out once: after a request for them has succeeded, every
  later request for the same process fails and sends nothing, until the pair is deleted or a new dump of the
  process is requested, whatever other requests and timer tasks come in between.
\<close>

theorem write_ends_once:
  assumes "OnRequest_pipe os n conn r s = (REQUEST_SUCCESS, t)" "pr_pipeType r \<noteq> PIPE_FD_DELETE" "registries_ok s"
    and "(quiet_step (pr_pid r))\<^sup>*\<^sup>* t u" "pr_pid r' = pr_pid r" "pr_pipeType r' \<noteq> PIPE_FD_DELETE"
  shows "fst (OnRequest_pipe os' n' conn' r' u) \<noteq> REQUEST_SUCCESS \<and> d_out (snd (OnRequest_pipe os' n' conn' r' u)) = d_out u"
proof -
  have "service_step s t" using service_step.request[of os DirectoryConfig_init n conn "Pipe_request r" s] assms(1) by simp
  then have "registries_ok t" using assms(3) by (rule service_step_ok)
  moreover have "spent (pr_pid r) t" using spent_pipe[OF assms(1,2)] by simp
  ultimately have "spent (pr_pid r) u" using quiet_star_spent[OF assms(4)] by blast
  then show ?thesis using spent_refused[of r' u] assms(5,6) by simp
qed

theorem write_ends_once_witness:
  "fst (OnRequest_pipe sample_main_os SERVER_CRASH_SOCKET_NAME 6 sample_pipe_request
     (snd (OnRequest_pipe sample_main_os SERVER_CRASH_SOCKET_NAME 5 sample_pipe_request sample_dumping))) \<noteq> REQUEST_SUCCESS"
proof -
  note defs = sample_pipe_request_def sample_dumping_def sample_main_os_def PIPE_FD_defs sample_daemon_def
  have "fst (OnRequest_pipe sample_main_os SERVER_CRASH_SOCKET_NAME 5 sample_pipe_request sample_dumping) = REQUEST_SUCCESS"
    by (simp add: defs OnRequest_pipe_def Filter_pipe_def GetSdkDumpPipePair_def CreateSdkDumpPipePair_def take_write_ends_def
        GetPipeFd_def pipe_fd_def GetWriteFd_def FaultLoggerPipe_new_def Let_def)
  then have "OnRequest_pipe sample_main_os SERVER_CRASH_SOCKET_NAME 5 sample_pipe_request sample_dumping =
      (REQUEST_SUCCESS, snd (OnRequest_pipe sample_main_os SERVER_CRASH_SOCKET_NAME 5 sample_pipe_request sample_dumping))"
    by (metis prod.collapse)
  moreover have "pr_pipeType sample_pipe_request \<noteq> PIPE_FD_DELETE" by (simp add: defs)
  moreover have "registries_ok sample_dumping"
    by (simp add: registries_ok_def defs CreateSdkDumpPipePair_def GetSdkDumpPipePair_def)
  ultimately show ?thesis using write_ends_once[OF _ _ _ rtranclp.rtrancl_refl] by blast
qed

text \<open>
  C24.  Descriptors only go to callers who may have them: when serving a request sends descriptors, they go to the
  connection of the request, are valid, the request succeeds, and the caller is entitled to the request by
  socket, user or process id.
\<close>

theorem descriptors_to_entitled:
  assumes "serve os dc n conn r s = (code, t)"
  shows "\<exists>out. d_out t = d_out s @ out \<and> (\<forall>c fds. Send_fds c fds \<in> set out \<longrightarrow>
    c = conn \<and> code = REQUEST_SUCCESS \<and> may_receive os n r \<and> list_all (\<lambda>fd. 0 \<le> fd) fds)"
proof -
  obtain out where "d_out t = d_out s @ out" "list_all (proper_send conn code (may_receive os n r)) out"
    using serve_grows[OF assms] by (auto simp: grows_def)
  moreover have "c = conn \<and> code = REQUEST_SUCCESS \<and> may_receive os n r \<and> list_all (\<lambda>fd. 0 \<le> fd) fds"
    if "Send_fds c fds \<in> set out" for c fds
    using calculation(2) that unfolding list_all_iff[of _ out] by (metis proper_send_simps(1))
  ultimately show ?thesis by blast
qed

theorem descriptors_to_entitled_witness:
  "\<exists>out. d_out (snd (serve sample_main_os DirectoryConfig_init [] 5 (Limited_pipe_request sample_limited_request) sample_daemon)) = out \<and>
    Send_fds 5 [21] \<in> set out \<and> may_receive sample_main_os [] (Limited_pipe_request sample_limited_request)"
proof -
  let ?r = "Limited_pipe_request sample_limited_request"
  obtain code t where s: "serve sample_main_os DirectoryConfig_init [] 5 ?r sample_daemon = (code, t)" by fastforce
  obtain out where o: "d_out t = d_out sample_daemon @ out" "\<forall>c fds. Send_fds c fds \<in> set out \<longrightarrow>
    c = 5 \<and> code = REQUEST_SUCCESS \<and> may_receive sample_main_os [] ?r \<and> list_all (\<lambda>fd. 0 \<le> fd) fds"
    using descriptors_to_entitled[OF s] by blast
  have "Send_fds 5 [21] \<in> set (d_out (snd (serve sample_main_os DirectoryConfig_init [] 5 ?r sample_daemon)))"
    by (simp add: sample_limited_request_def sample_main_os_def sample_daemon_def OnRequest_limited_pipe_def Filter_limited_pipe_def
      count_request_def CheckProcessName_def LITE_DUMP_LIMIT_ONE_DAY_def PIPE_FD_defs CheckLimitedDumpRecord_def GetLimitedPipePair_def
      CreateLimitedPipePair_def GetLimitedPipeFd_def GetWriteFd_def FaultLoggerPipe_new_def GetRealUid_def pipe_fd_def Let_def)
  moreover have "d_out sample_daemon = []" by (simp add: sample_daemon_def)
  ultimately show ?thesis using o s by (metis append_Nil snd_conv)
qed




end
