(* ===== verification/Coredump.thy ===== *)
theory Coredump
  imports Services
begin

text \<open>
  The full core dump of a process on request (\<^verbatim>\<open>src/services/coredump\<close>): the table of sessions, the state
  machine of a session, the task that ends it, and the two services that drive it, one for the client and one
  for the dumping worker.  The table extends the state of the main thread.

  A session is removed by its result or by its task, and a client gets at most one result.
\<close>

section \<open>Sessions\<close>

datatype CoredumpStatus =
  PENDING | RUNNING | SUCCESS | FAILED | CANCEL_PENDING | CANCELED | CANCEL_TIMEOUT | INVALID_STATUS

datatype CoredumpEvent =
  UPDATE_DUMPER | CANCEL | REPORT_SUCCESS | REPORT_FAIL | TIMEOUT | INVALID_EVENT

record CreateCoredumpRequest =
  cq_targetPid :: int
  cq_clientFd :: int
  cq_endTime :: u64

record CoredumpCallbackReport =
  rp_status :: CoredumpStatus
  rp_filePath :: string
  rp_errorCode :: int

record CoredumpSession =
  cs_sessionId :: int
  cs_workerPid :: int
  cs_cancelRequest :: bool
  cs_status :: CoredumpStatus
  cs_filePath :: string
  cs_errorCode :: int
  cs_clientFd :: int
  cs_startTime :: u64
  cs_endTime :: u64
  cs_delayTaskId :: u64

record CoreDumpRequestData =
  rd_pid :: int
  rd_endTime :: u64
  rd_coredumpAction :: int

text \<open>\<open>sd_fileName\<close> holds the characters of \<^verbatim>\<open>fileName[256]\<close> before the first zero.\<close>

record CoreDumpStatusData =
  sd_pid :: int
  sd_processDumpPid :: int
  sd_coredumpStatus :: int
  sd_fileName :: string
  sd_retCode :: int

record Dumper = Daemon +
  d_sessions :: "int \<Rightarrow> CoredumpSession option"

section \<open>Session manager\<close>

definition CreateSession :: "MainOs \<Rightarrow> CreateCoredumpRequest \<Rightarrow> 'm Dumper_scheme \<Rightarrow> 'm Dumper_scheme" where
  "CreateSession os r s =
    (if d_sessions s (cq_targetPid r) \<noteq> None then s
     else s\<lparr>d_sessions := (d_sessions s)(cq_targetPid r \<mapsto>
       \<lparr>cs_sessionId = cq_targetPid r, cs_workerPid = 0, cs_cancelRequest = False, cs_status = PENDING, cs_filePath = [],
        cs_errorCode = 0, cs_clientFd = cq_clientFd r, cs_startTime = os_msec os, cs_endTime = cq_endTime r,
        cs_delayTaskId = 0\<rparr>)\<rparr>)"

definition CancelTimeout :: "MainOs \<Rightarrow> int \<Rightarrow> 'm Dumper_scheme \<Rightarrow> 'm Dumper_scheme" where
  "CancelTimeout os k s =
    (case d_sessions s k of
       None \<Rightarrow> s
     | Some x \<Rightarrow> snd (RemoveDelayTask (Os.truncate os) (cs_delayTaskId x) s))"

definition RemoveSession :: "MainOs \<Rightarrow> int \<Rightarrow> 'm Dumper_scheme \<Rightarrow> 'm Dumper_scheme" where
  "RemoveSession os k s =
    (if d_sessions s k = None then s
     else (let s1 = CancelTimeout os k s in s1\<lparr>d_sessions := (d_sessions s1)(k := None)\<rparr>))"

definition modify_session :: "int \<Rightarrow> (CoredumpSession \<Rightarrow> CoredumpSession) \<Rightarrow> 'm Dumper_scheme \<Rightarrow> 'm Dumper_scheme" where
  "modify_session k f s = s\<lparr>d_sessions := (d_sessions s)(k := map_option f (d_sessions s k))\<rparr>"

section \<open>Session service\<close>

definition CancelSession :: "int \<Rightarrow> 'm Dumper_scheme \<Rightarrow> bool \<times> 'm Dumper_scheme" where
  "CancelSession k s =
    (if d_sessions s k = None then (False, s) else (True, modify_session k (\<lambda>x. x\<lparr>cs_cancelRequest := True\<rparr>) s))"

definition UpdateWorkerPid :: "int \<Rightarrow> int \<Rightarrow> 'm Dumper_scheme \<Rightarrow> bool \<times> 'm Dumper_scheme" where
  "UpdateWorkerPid k workerPid s =
    (if d_sessions s k = None then (False, s) else (True, modify_session k (\<lambda>x. x\<lparr>cs_workerPid := workerPid\<rparr>) s))"

definition UpdateReport :: "int \<Rightarrow> CoredumpCallbackReport \<Rightarrow> 'm Dumper_scheme \<Rightarrow> 'm Dumper_scheme" where
  "UpdateReport k rpt s =
    (if d_sessions s k = None then s
     else modify_session k (\<lambda>x. x\<lparr>cs_filePath := rp_filePath rpt, cs_errorCode := rp_errorCode rpt\<rparr>) s)"

text \<open>The statistics event: worker, result and path of the session.\<close>

definition ReportCoredumpStatistics :: "int \<Rightarrow> 'm Dumper_scheme \<Rightarrow> 'm Dumper_scheme" where
  "ReportCoredumpStatistics k s =
    (case d_sessions s k of
       None \<Rightarrow> s
     | Some x \<Rightarrow> emit (Coredump_statistics (cs_sessionId x) (cs_workerPid x) (cs_filePath x) (cs_errorCode x)) s)"

definition WriteResult_msg :: "MainOs \<Rightarrow> int \<Rightarrow> string \<times> int \<Rightarrow> 'm Dumper_scheme \<Rightarrow> bool \<times> 'm Dumper_scheme" where
  "WriteResult_msg os k res s =
    (case d_sessions s k of
       None \<Rightarrow> (False, s)
     | Some x \<Rightarrow>
         (True, RemoveSession os k (ReportCoredumpStatistics k (emit (Send_result (cs_clientFd x) (fst res) (snd res)) s))))"

text \<open>\<^verbatim>\<open>strncpy_s\<close> of a whole string fails unless it fits with its terminator.\<close>

definition strncpy_s_fits :: "nat \<Rightarrow> string \<Rightarrow> bool" where
  "strncpy_s_fits destMax src \<longleftrightarrow> length src < destMax"

definition WriteResult :: "MainOs \<Rightarrow> int \<Rightarrow> 'm Dumper_scheme \<Rightarrow> bool \<times> 'm Dumper_scheme" where
  "WriteResult os k s =
    (case d_sessions s k of
       None \<Rightarrow> (False, s)
     | Some x \<Rightarrow>
         if \<not> strncpy_s_fits 256 (cs_filePath x) then (False, s)
         else WriteResult_msg os k (cs_filePath x, cs_errorCode x) s)"

definition WriteTimeout :: "MainOs \<Rightarrow> int \<Rightarrow> 'm Dumper_scheme \<Rightarrow> bool \<times> 'm Dumper_scheme" where
  "WriteTimeout os k s = WriteResult_msg os k ([], - 1) s"

section \<open>Signals\<close>

definition SIGLEAK_STACK :: int where "SIGLEAK_STACK = 42"
definition SIGTERM :: int where "SIGTERM = 15"
definition SIGLEAK_STACK_COREDUMP :: int where "SIGLEAK_STACK_COREDUMP = 3"

definition coredump_siginfo :: "int \<Rightarrow> siginfo" where
  "coredump_siginfo signo = \<lparr>si_signo = signo, si_code = - SIGLEAK_STACK_COREDUMP, si_value = 0, si_pid = 0, si_uid = 0\<rparr>"

definition SendStartSignal :: "MainOs \<Rightarrow> int \<Rightarrow> 'm Dumper_scheme \<Rightarrow> ResponseCode \<times> 'm Dumper_scheme" where
  "SendStartSignal os targetPid s = SendSignalToProcess os targetPid (coredump_siginfo SIGLEAK_STACK) s"

definition SendCancelSignal :: "MainOs \<Rightarrow> int \<Rightarrow> 'm Dumper_scheme \<Rightarrow> ResponseCode \<times> 'm Dumper_scheme" where
  "SendCancelSignal os workerPid s =
    (if \<not> os_sigqueue os workerPid then (CORE_DUMP_NOPROC, s)
     else (REQUEST_SUCCESS, emit (Signal workerPid (coredump_siginfo SIGTERM)) s))"

section \<open>State machine\<close>

definition set_status :: "int \<Rightarrow> CoredumpStatus \<Rightarrow> 'm Dumper_scheme \<Rightarrow> 'm Dumper_scheme" where
  "set_status k st s = modify_session k (\<lambda>x. x\<lparr>cs_status := st\<rparr>) s"

definition PendingState_OnEvent :: "MainOs \<Rightarrow> CoredumpEvent \<Rightarrow> int \<Rightarrow> 'm Dumper_scheme \<Rightarrow> 'm Dumper_scheme" where
  "PendingState_OnEvent os e k s =
    (case e of
       UPDATE_DUMPER \<Rightarrow> set_status k RUNNING s
     | CANCEL \<Rightarrow> set_status k CANCEL_PENDING (modify_session k (\<lambda>x. x\<lparr>cs_cancelRequest := True\<rparr>) s)
     | TIMEOUT \<Rightarrow> snd (WriteTimeout os k (set_status k CANCEL_TIMEOUT s))
     | _ \<Rightarrow> s)"

definition worker_of :: "int \<Rightarrow> 'm Dumper_scheme \<Rightarrow> int" where
  "worker_of k s = (case d_sessions s k of None \<Rightarrow> 0 | Some x \<Rightarrow> cs_workerPid x)"

definition RunningState_OnEvent :: "MainOs \<Rightarrow> CoredumpEvent \<Rightarrow> int \<Rightarrow> 'm Dumper_scheme \<Rightarrow> 'm Dumper_scheme" where
  "RunningState_OnEvent os e k s =
    (case e of
       REPORT_SUCCESS \<Rightarrow> snd (WriteResult os k (set_status k SUCCESS s))
     | REPORT_FAIL \<Rightarrow> snd (WriteResult os k (set_status k FAILED s))
     | CANCEL \<Rightarrow> snd (WriteResult os k (set_status k CANCELED (snd (SendCancelSignal os (worker_of k s) s))))
     | _ \<Rightarrow> s)"

definition CancelPendingState_OnEvent :: "MainOs \<Rightarrow> CoredumpEvent \<Rightarrow> int \<Rightarrow> 'm Dumper_scheme \<Rightarrow> 'm Dumper_scheme" where
  "CancelPendingState_OnEvent os e k s =
    (case e of
       UPDATE_DUMPER \<Rightarrow> snd (WriteResult os k (set_status k CANCELED (snd (SendCancelSignal os (worker_of k s) s))))
     | TIMEOUT \<Rightarrow> snd (WriteTimeout os k (set_status k CANCEL_TIMEOUT s))
     | _ \<Rightarrow> s)"

definition HandleEvent_session :: "MainOs \<Rightarrow> int \<Rightarrow> CoredumpEvent \<Rightarrow> 'm Dumper_scheme \<Rightarrow> 'm Dumper_scheme" where
  "HandleEvent_session os k e s =
    (case d_sessions s k of
       None \<Rightarrow> s
     | Some x \<Rightarrow>
         (case cs_status x of
            PENDING \<Rightarrow> PendingState_OnEvent os e k s
          | RUNNING \<Rightarrow> RunningState_OnEvent os e k s
          | CANCEL_PENDING \<Rightarrow> CancelPendingState_OnEvent os e k s
          | _ \<Rightarrow> s))"

section \<open>Task scheduler\<close>

definition ScheduleCancelTime :: "MainOs \<Rightarrow> int \<Rightarrow> int \<Rightarrow> 'm Dumper_scheme \<Rightarrow> 'm Dumper_scheme" where
  "ScheduleCancelTime os k timeoutMs s =
    (case d_sessions s k of
       None \<Rightarrow> s
     | Some x \<Rightarrow>
         (let curTime = os_abs_msec os;
              delaySec = (if curTime < cs_endTime x then sint (ucast ((cs_endTime x - curTime) div 1000) :: u32) else 0);
              (taskId, s1) = delay_task os (Remove_session k) (word_of_int (min delaySec (timeoutMs div 1000))) s
          in if taskId = 0 then RemoveSession os k s1
             else modify_session k (\<lambda>x. x\<lparr>cs_delayTaskId := taskId\<rparr>) s1))"

section \<open>Facade\<close>

definition maxCoredumpDelayTime :: int where "maxCoredumpDelayTime = 30 * 1000"

definition CreateCoredump :: "MainOs \<Rightarrow> CreateCoredumpRequest \<Rightarrow> 'm Dumper_scheme \<Rightarrow> bool \<times> 'm Dumper_scheme" where
  "CreateCoredump os r s =
    (let s1 = CreateSession os r s; s2 = snd (SendStartSignal os (cq_targetPid r) s1)
     in (True, ScheduleCancelTime os (cq_targetPid r) maxCoredumpDelayTime s2))"

definition CancelCoredump :: "MainOs \<Rightarrow> int \<Rightarrow> 'm Dumper_scheme \<Rightarrow> 'm Dumper_scheme" where
  "CancelCoredump os k s = HandleEvent_session os k CANCEL (snd (CancelSession k s))"

definition UpdateWorkerPid_facade :: "MainOs \<Rightarrow> int \<Rightarrow> int \<Rightarrow> 'm Dumper_scheme \<Rightarrow> bool \<times> 'm Dumper_scheme" where
  "UpdateWorkerPid_facade os k workerPid s =
    (let s1 = snd (UpdateWorkerPid k workerPid s)
     in if d_sessions s1 k = None then (False, s1) else (True, HandleEvent_session os k UPDATE_DUMPER s1))"

definition ReportResult :: "MainOs \<Rightarrow> int \<Rightarrow> CoredumpCallbackReport \<Rightarrow> 'm Dumper_scheme \<Rightarrow> 'm Dumper_scheme" where
  "ReportResult os k rpt s =
    HandleEvent_session os k (if rp_status rpt = SUCCESS then REPORT_SUCCESS else REPORT_FAIL) (UpdateReport k rpt s)"

definition OnTimeout :: "MainOs \<Rightarrow> int \<Rightarrow> 'm Dumper_scheme \<Rightarrow> 'm Dumper_scheme" where
  "OnTimeout os k s = HandleEvent_session os k TIMEOUT s"

section \<open>Requests of a client\<close>

definition DO_CORE_DUMP :: int where "DO_CORE_DUMP = 0"
definition CANCEL_CORE_DUMP :: int where "CANCEL_CORE_DUMP = 1"
definition CORE_DUMP_START :: int where "CORE_DUMP_START = 1"

definition CheckCoredumpUID :: "u32 \<Rightarrow> bool" where
  "CheckCoredumpUID callerUid \<longleftrightarrow> callerUid \<in> set [0, 1202, 7005]"

definition IsAuthorizedUid :: "MainOs \<Rightarrow> bool" where
  "IsAuthorizedUid os = (case os_cred os of None \<Rightarrow> False | Some c \<Rightarrow> CheckCoredumpUID (cr_uid c))"

definition ValidateRequest :: "MainOs \<Rightarrow> string \<Rightarrow> CoreDumpRequestData \<Rightarrow> 'm Dumper_scheme \<Rightarrow> ResponseCode \<times> 'm Dumper_scheme" where
  "ValidateRequest os socketName r s =
    (if \<not> 0 < rd_pid r \<or> socketName \<noteq> SERVER_SOCKET_NAME \<or> \<not> IsAuthorizedUid os then (REQUEST_REJECT, s)
     else
       (case CheckCrashFileRecord (os_sec os) (rd_pid r) (d_crashFileRecords s) of (crashed, records) \<Rightarrow>
         (if crashed then CORE_PROCESS_CRASHED else REQUEST_SUCCESS, s\<lparr>d_crashFileRecords := records\<rparr>)))"

definition HandleCreateEvent :: "MainOs \<Rightarrow> CoreDumpRequestData \<Rightarrow> 'm Dumper_scheme \<Rightarrow> ResponseCode \<times> 'm Dumper_scheme" where
  "HandleCreateEvent os r s =
    (if d_sessions s (rd_pid r) \<noteq> None then (CORE_DUMP_REPEAT, s)
     else if os_dup os = - 1 then (DEFAULT_ERROR_CODE, s)
     else
       (case CreateCoredump os \<lparr>cq_targetPid = rd_pid r, cq_clientFd = os_dup os, cq_endTime = rd_endTime r\<rparr> s of
          (ok, s1) \<Rightarrow> (if ok then REQUEST_SUCCESS else DEFAULT_ERROR_CODE, s1)))"

definition HandleCancelEvent :: "MainOs \<Rightarrow> CoreDumpRequestData \<Rightarrow> 'm Dumper_scheme \<Rightarrow> ResponseCode \<times> 'm Dumper_scheme" where
  "HandleCancelEvent os r s =
    (if d_sessions s (rd_pid r) = None then (DEFAULT_ERROR_CODE, s) else (REQUEST_SUCCESS, CancelCoredump os (rd_pid r) s))"

definition OnRequest_coredump ::
    "MainOs \<Rightarrow> string \<Rightarrow> int \<Rightarrow> CoreDumpRequestData \<Rightarrow> 'm Dumper_scheme \<Rightarrow> ResponseCode \<times> 'm Dumper_scheme" where
  "OnRequest_coredump os socketName conn r s =
    (case ValidateRequest os socketName r s of (res, s1) \<Rightarrow>
      if res \<noteq> REQUEST_SUCCESS then (res, emit (Send_code conn res) s1)
      else
        (let (res', s2) =
           (if rd_coredumpAction r = DO_CORE_DUMP then HandleCreateEvent os r s1
            else if rd_coredumpAction r = CANCEL_CORE_DUMP then HandleCancelEvent os r s1
            else (REQUEST_REJECT, s1))
         in (res', emit (Send_code conn res') s2)))"

section \<open>Reports of the worker\<close>

definition IsReporterWorker :: "MainOs \<Rightarrow> int \<Rightarrow> bool" where
  "IsReporterWorker os workerPid = (case os_cred os of None \<Rightarrow> False | Some c \<Rightarrow> cr_pid c = workerPid)"

definition ValidateRequest_callback :: "MainOs \<Rightarrow> string \<Rightarrow> CoreDumpStatusData \<Rightarrow> bool" where
  "ValidateRequest_callback os socketName r \<longleftrightarrow> 0 < sd_pid r \<and> socketName = SERVER_CRASH_SOCKET_NAME \<and>
    (sd_coredumpStatus r = CORE_DUMP_START \<longrightarrow> IsReporterWorker os (sd_processDumpPid r))"

definition HandleUpdateWorkerPid :: "MainOs \<Rightarrow> CoreDumpStatusData \<Rightarrow> 'm Dumper_scheme \<Rightarrow> ResponseCode \<times> 'm Dumper_scheme" where
  "HandleUpdateWorkerPid os r s =
    (if sd_processDumpPid r \<le> 0 then (ABNORMAL_SERVICE, s)
     else
       (case UpdateWorkerPid_facade os (sd_pid r) (sd_processDumpPid r) s of (ok, s1) \<Rightarrow>
         (if ok then REQUEST_SUCCESS else ABNORMAL_SERVICE, s1)))"

definition HandleReport :: "MainOs \<Rightarrow> CoreDumpStatusData \<Rightarrow> 'm Dumper_scheme \<Rightarrow> ResponseCode \<times> 'm Dumper_scheme" where
  "HandleReport os r s =
    (REQUEST_SUCCESS, ReportResult os (sd_pid r)
       \<lparr>rp_status = (if sd_retCode r = 0 then SUCCESS else FAILED), rp_filePath = sd_fileName r, rp_errorCode = 0\<rparr> s)"

definition OnRequest_callback ::
    "MainOs \<Rightarrow> string \<Rightarrow> int \<Rightarrow> CoreDumpStatusData \<Rightarrow> 'm Dumper_scheme \<Rightarrow> ResponseCode \<times> 'm Dumper_scheme" where
  "OnRequest_callback os socketName conn r s =
    (if \<not> ValidateRequest_callback os socketName r then (REQUEST_REJECT, emit (Send_code conn REQUEST_REJECT) s)
     else
       (let (res, s1) =
          (if sd_coredumpStatus r = CORE_DUMP_START then HandleUpdateWorkerPid os r s else HandleReport os r s)
        in (res, emit (Send_code conn res) s1)))"

section \<open>The tasks of the main thread\<close>

fun run_main_task :: "MainOs \<Rightarrow> MainTask \<Rightarrow> 'm Dumper_scheme \<Rightarrow> 'm Dumper_scheme" where
  "run_main_task os (Remove_session k) s = RemoveSession os k s"
| "run_main_task os w s = run_service_task os w s"

section \<open>Vocabulary of the properties\<close>

text \<open>The results among the effects, and the steps of the main thread.\<close>

fun is_result :: "Effect \<Rightarrow> bool" where
  "is_result (Send_result _ _ _) = True"
| "is_result _ = False"

definition results :: "'m Daemon_scheme \<Rightarrow> Effect list" where
  "results s = filter is_result (d_out s)"

inductive dumper_step :: "'m Dumper_scheme \<Rightarrow> 'm Dumper_scheme \<Rightarrow> bool" where
  request: "serve os dc socketName conn r s = (code, t) \<Longrightarrow> dumper_step s t"
| coredump: "OnRequest_coredump os socketName conn q s = (code, t) \<Longrightarrow> dumper_step s t"
| callback: "OnRequest_callback os socketName conn d s = (code, t) \<Longrightarrow> dumper_step s t"
| task: "t = run_main_task os w s \<Longrightarrow> dumper_step s t"

text \<open>
  The listeners of client connections, and what the services do not touch: the connections and the
  sessions.  The switches of minidumps may remove listeners by descriptor.
\<close>

definition is_client :: "EpollListener \<Rightarrow> bool" where
  "is_client l = (case el_kind l of ClientRequestListener _ _ \<Rightarrow> True | _ \<Rightarrow> False)"

definition clients :: "'m EpollManager_scheme \<Rightarrow> EpollListener list" where
  "clients s = filter is_client (em_listeners s)"

definition shell :: "'m Daemon_scheme \<Rightarrow> EpollListener list \<times> 'm" where
  "shell s = (clients s, Daemon.more s)"

definition loses :: "'m Daemon_scheme \<Rightarrow> 'm Daemon_scheme \<Rightarrow> bool" where
  "loses s t \<longleftrightarrow> Daemon.more t = Daemon.more s \<and> (\<exists>D. clients t = filter (\<lambda>l. el_fd l \<notin> D) (clients s))"

text \<open>Session \<open>k\<close> ends with a result, and nothing else happens to the sessions.\<close>

definition ends :: "int \<Rightarrow> 'm Dumper_scheme \<Rightarrow> 'm Dumper_scheme \<Rightarrow> bool" where
  "ends k s t \<longleftrightarrow> (\<exists>x path code. d_sessions s k = Some x \<and> results t = results s @ [Send_result (cs_clientFd x) path code] \<and>
    d_sessions t = (d_sessions s)(k := None))"

definition live :: "CoredumpStatus \<Rightarrow> bool" where
  "live st \<longleftrightarrow> st \<in> {PENDING, RUNNING, CANCEL_PENDING}"

text \<open>A sample session.\<close>

definition sample_session :: CoredumpSession where
  "sample_session = \<lparr>cs_sessionId = 300, cs_workerPid = 301, cs_cancelRequest = False, cs_status = RUNNING, cs_filePath = [],
    cs_errorCode = 0, cs_clientFd = 31, cs_startTime = 1, cs_endTime = 2000000, cs_delayTaskId = 0\<rparr>"

definition sample_dumper :: Dumper where
  "sample_dumper = Daemon.extend sample_daemon \<lparr>d_sessions = [300 \<mapsto> sample_session]\<rparr>"

definition sample_report :: CoreDumpStatusData where
  "sample_report = \<lparr>sd_pid = 300, sd_processDumpPid = 301, sd_coredumpStatus = 3, sd_fileName = [], sd_retCode = 22\<rparr>"

section \<open>The services keep the sessions and the connections\<close>

lemma shell_D: "shell t = shell s \<Longrightarrow> Daemon.more t = Daemon.more s" "shell t = shell s \<Longrightarrow> clients t = clients s"
  by (simp_all add: shell_def)

lemma sessions_of_more: "Daemon.more t = Daemon.more s \<Longrightarrow> d_sessions t = d_sessions s"
  by (cases s; cases t) simp

lemma daemon_of_queue_more: "DelayTaskQueue.more t = DelayTaskQueue.more s \<Longrightarrow> Daemon.more t = Daemon.more s"
  by (cases s; cases t) simp

lemma clients_insert: "\<not> is_client l \<Longrightarrow> filter is_client (insert_before P l ls) = filter is_client ls"
proof -
  have "filter is_client ls = filter is_client (takeWhile Q ls) @ filter is_client (dropWhile Q ls)" for Q
    by (metis filter_append takeWhile_dropWhile_id)
  then show "\<not> is_client l \<Longrightarrow> ?thesis" by (simp add: insert_before_def)
qed

lemma AddDelayTask_clients: "clients (snd (AddDelayTask os w d s)) = clients s"
  by (auto simp: AddDelayTask_def InitExecutor_def SetTimeOptionForTimeFd_def AddListener_def clients_def EpollListener_new_def
      clients_insert is_client_def Let_def split: list.split)

lemma shell_frame [simp]:
  "shell (emit e s) = shell s" "shell (s\<lparr>d_sdkDumpPipes := p1\<rparr>) = shell s" "shell (s\<lparr>d_perfPipes := p2\<rparr>) = shell s"
  "shell (s\<lparr>d_limitedPipes := p3\<rparr>) = shell s" "shell (s\<lparr>d_limiterReady := b\<rparr>) = shell s" "shell (s\<lparr>d_perfCounts := c1\<rparr>) = shell s"
  "shell (s\<lparr>d_devicePerfCount := c2\<rparr>) = shell s" "shell (s\<lparr>d_launchLiteDumpMap := m\<rparr>) = shell s"
  "shell (s\<lparr>d_launchLiteDumpPipeMap := m\<rparr>) = shell s" "shell (s\<lparr>d_stats := st\<rparr>) = shell s"
  "shell (s\<lparr>d_crashFileRecords := r1\<rparr>) = shell s" "shell (s\<lparr>d_fdFileRecords := r2\<rparr>) = shell s"
  "shell (snd (SetTimeOptionForTimeFd o1 fd x y s)) = shell s"
  by (simp_all add: shell_def clients_def emit_def SetTimeOptionForTimeFd_def)

lemma delay_task_shell [simp]: "shell (snd (delay_task os w d s)) = shell s"
  using daemon_of_queue_more[OF delay_task_more[of os w d s]] AddDelayTask_clients[of "Os.truncate os" "Task w" d s]
  by (simp add: shell_def delay_task_def)

lemma AddListener_shell: "\<not> is_client l \<Longrightarrow> shell (snd (AddListener os l s)) = shell s"
  by (simp add: shell_def clients_def AddListener_def clients_insert)

lemma new_listener_shell [simp]: "(\<And>n u. k \<noteq> ClientRequestListener n u) \<Longrightarrow> shell (snd (AddListener os (EpollListener_new now fd ms k) s)) = shell s"
  by (rule AddListener_shell) (auto simp: is_client_def EpollListener_new_def split: ListenerKind.split)

lemma emits_shell [simp]: "shell (fold (\<lambda>f. emit (h f)) fs s) = shell s"
  by (induction fs arbitrary: s) auto

lemma signal_shell: "SendSignalToProcess os pid si s = (res, t) \<Longrightarrow> shell t = shell s"
  by (auto simp: SendSignalToProcess_def SendSignalToHapWatchdogThread_def split: option.splits if_splits prod.splits)

lemma binder_signal_shell: "SendSignalToBinderPid os ps s = (res, t) \<Longrightarrow> shell t = shell s"
  by (induction os ps s arbitrary: res t rule: SendSignalToBinderPid.induct)
    (force dest: signal_shell split: if_splits prod.splits)+

lemma send_pair_shell: "send_pair conn fds s = (code, t) \<Longrightarrow> shell t = shell s"
  by (auto simp: send_pair_def split: if_splits)

lemma PerfResourceLimiter_shell [simp]: "shell (PerfResourceLimiter_new os s) = shell s"
proof -
  obtain ok s1 where a: "SetTimeOptionForTimeFd (Os.truncate os) (os_timerfd os)
      (word_of_int resetDuration * NS_PER_S) (word_of_int resetDuration * NS_PER_S) s = (ok, s1)" by fastforce
  then have "shell s1 = shell s" using shell_frame(13)[of "Os.truncate os" "os_timerfd os"] by (metis snd_conv)
  then show ?thesis using a by (simp add: PerfResourceLimiter_new_def Let_def)
qed

lemma CheckPerfLimit_shell: "CheckPerfLimit os uid b s = (code, t) \<Longrightarrow> shell t = shell s"
  by (auto simp: CheckPerfLimit_def Let_def split: if_splits prod.splits)

lemma perf_shell: "OnRequest_perf os conn r s = (code, t) \<Longrightarrow> shell t = shell s"
  by (auto simp: OnRequest_perf_def Let_def dest!: send_pair_shell CheckPerfLimit_shell split: option.splits if_splits prod.splits)

lemma limited_pipe_shell: "OnRequest_limited_pipe os conn r s = (code, t) \<Longrightarrow> shell t = shell s"
  by (auto simp: OnRequest_limited_pipe_def Filter_limited_pipe_def Let_def split: option.splits if_splits prod.splits)

lemma other_shell:
  assumes "serve os dc n conn r s = (code, t)" "\<And>q. r \<noteq> Minidump_request q"
  shows "shell t = shell s"
proof (cases r)
  case (File_request q)
  then show ?thesis using assms(1)
    by (auto simp: OnRequest_file_def RestoreDumpable_def Let_def split: option.splits if_splits prod.splits)
next
  case (Sdk_dump_request q)
  then show ?thesis using assms(1)
    by (auto simp: OnRequest_sdk_dump_def Filter_sdk_dump_def Let_def dest!: signal_shell split: option.splits if_splits prod.splits)
next
  case (Pipe_request q)
  then show ?thesis using assms(1) by (auto simp: OnRequest_pipe_def Let_def split: option.splits if_splits prod.splits)
next
  case (Limited_dump_request q)
  then show ?thesis using assms(1)
    by (auto simp: OnRequest_limited_dump_def Filter_limited_dump_def Let_def split: option.splits if_splits prod.splits)
next
  case (Binder_request q)
  then show ?thesis using assms(1)
    by (auto simp: OnRequest_binder_def Let_def dest!: binder_signal_shell split: option.splits if_splits prod.splits)
qed (use assms perf_shell limited_pipe_shell in \<open>auto simp: OnRequest_exception_def OnRequest_stats_def Let_def split: if_splits\<close>)

text \<open>Only the switches of minidumps remove listeners.\<close>

lemma loses_refl: "shell t = shell s \<Longrightarrow> loses s t"
  by (auto simp: loses_def shell_def intro: exI[of _ "{}"])

lemma loses_RemoveListener: "loses s (snd (RemoveListener os fd s))"
proof (cases "fd < 0 \<or> \<not> DelEpollEvent os fd s")
  case False
  then have "clients (snd (RemoveListener os fd s)) = filter (\<lambda>l. el_fd l \<notin> {fd}) (clients s)"
    by (simp add: RemoveListener_def clients_def remove_if_def conj_commute)
  moreover have "Daemon.more (snd (RemoveListener os fd s)) = Daemon.more s" by (simp add: RemoveListener_def)
  ultimately show ?thesis unfolding loses_def by blast
qed (simp add: RemoveListener_def loses_refl)

lemma loses_cong:
  "loses s t \<Longrightarrow> loses s (emit e t)" "loses s t \<Longrightarrow> loses s (t\<lparr>d_enableMinidump := m\<rparr>)"
  "loses s t \<Longrightarrow> loses s (t\<lparr>d_disableMinidumpToCrashLog := l\<rparr>)"
  by (simp_all add: loses_def clients_def emit_def)

lemma SetEnableMinidump_loses:
  assumes "SetEnableMinidump os pid b c s = (ok, t)"
  shows "loses s t"
proof (cases b)
  case True
  obtain ok' u where u: "AddListener (Os.truncate os) (EpollListener_new (os_now os) (os_pidfd os pid) (- 1) (PidFdListener pid)) s = (ok', u)"
    by fastforce
  have "shell u = shell s"
    using new_listener_shell[of "PidFdListener pid" "Os.truncate os" "os_now os" "os_pidfd os pid" "- 1" s] u by simp
  then have "loses s u" "loses s s" by (auto intro: loses_refl)
  then show ?thesis using assms True u by (auto simp: SetEnableMinidump_def Let_def intro: loses_cong split: if_splits bool.splits)
next
  case False
  then show ?thesis using assms
    by (auto simp: SetEnableMinidump_def Let_def intro: loses_cong(2)[OF loses_RemoveListener] loses_cong(2) loses_refl split: option.splits if_splits)
qed

lemma SetMiniDump_loses:
  assumes "SetMiniDump os pid x y s = (b, t)"
  shows "loses s t"
proof -
  have "loses s s" by (simp add: loses_refl)
  moreover have "loses s (snd (SetEnableMinidump os pid b c s))" for b c
    by (rule SetEnableMinidump_loses[of os pid b c s "fst (SetEnableMinidump os pid b c s)"]) simp
  ultimately show ?thesis
    using assms by (auto simp: SetMiniDump_def SetDisableMinidumpToCrashLog_def Let_def
        intro!: loses_cong(3) dest!: SetEnableMinidump_loses split: prod.splits if_splits)
qed

lemma serve_loses:
  assumes "serve os dc n conn r s = (code, t)"
  shows "loses s t"
proof (cases "\<exists>q. r = Minidump_request q")
  case True
  then show ?thesis using assms
    by (auto simp: OnRequest_minidump_def Let_def intro!: loses_cong(1) loses_refl[OF refl] elim!: SetMiniDump_loses split: if_splits prod.splits)
qed (use other_shell[OF assms] loses_refl in blast)

lemma service_task_shell: "shell (run_service_task os w s) = shell s"
  by (cases w) (simp_all add: run_report_stats_def run_restore_dumpable_def Let_def)

section \<open>One result\<close>

lemma RemoveDelayTask_daemon [simp]:
  "Daemon.more (snd (RemoveDelayTask os i s)) = Daemon.more s" "d_out (snd (RemoveDelayTask os i s)) = d_out s"
  by (simp_all add: RemoveDelayTask_def SetTimeOptionForTimeFd_def Let_def split: option.split)

lemma RemoveDelayTask_sessions [simp]: "d_sessions (snd (RemoveDelayTask os i s)) = d_sessions s"
  by (rule sessions_of_more) simp

lemma emit_sessions [simp]: "d_sessions (emit e s) = d_sessions s"
  by (simp add: emit_def)

lemma delay_task_sessions [simp]: "d_sessions (snd (delay_task os w d s)) = d_sessions s"
  by (rule sessions_of_more[OF shell_D(1)]) simp

lemma results_simps [simp]:
  "results (emit e s) = results s @ (if is_result e then [e] else [])" "results (s\<lparr>d_sessions := m\<rparr>) = results s"
  "results (snd (RemoveDelayTask os i s)) = results s" "results (snd (delay_task mos w d s)) = results s"
  "results (s\<lparr>d_crashFileRecords := c\<rparr>) = results s"
  by (simp_all add: results_def)

lemma RemoveSession_simps [simp]:
  "d_sessions (RemoveSession os k s) = (d_sessions s)(k := None)" "results (RemoveSession os k s) = results s"
  by (auto simp: RemoveSession_def CancelTimeout_def Let_def split: option.split)

lemma modify_session_simps [simp]:
  "d_sessions (modify_session k f s) = (d_sessions s)(k := map_option f (d_sessions s k))" "results (modify_session k f s) = results s"
  by (simp_all add: modify_session_def)

lemma WriteResult_msg_ends: "d_sessions s k = Some x \<Longrightarrow> ends k s (snd (WriteResult_msg os k res s))"
  by (auto simp: WriteResult_msg_def ReportCoredumpStatistics_def ends_def)

lemma WriteResult_cases:
  "d_sessions s k = Some x \<Longrightarrow> snd (WriteResult os k s) = s \<or> ends k s (snd (WriteResult os k s))"
  by (auto simp: WriteResult_def WriteResult_msg_ends)

lemma ends_modify: "ends k (modify_session k f s) t \<Longrightarrow> (\<And>x. cs_clientFd (f x) = cs_clientFd x) \<Longrightarrow> ends k s t"
  by (auto simp: ends_def)

lemma SendCancelSignal_simps [simp]:
  "d_sessions (snd (SendCancelSignal os p s)) = d_sessions s" "results (snd (SendCancelSignal os p s)) = results s"
  by (simp_all add: SendCancelSignal_def)

lemma ends_signal: "ends k (snd (SendCancelSignal os p s)) t \<Longrightarrow> ends k s t"
  by (simp add: ends_def)

lemma WriteResult_status:
  assumes "d_sessions s k = Some x"
  shows "results (snd (WriteResult os k (set_status k st s))) = results s \<or> ends k s (snd (WriteResult os k (set_status k st s)))"
proof -
  have "d_sessions (set_status k st s) k = Some (x\<lparr>cs_status := st\<rparr>)" using assms by (simp add: set_status_def)
  from WriteResult_cases[OF this, of os] show ?thesis by (auto simp: set_status_def dest: ends_modify)
qed

lemma WriteTimeout_status:
  assumes "d_sessions s k = Some x"
  shows "ends k s (snd (WriteTimeout os k (set_status k st s)))"
proof -
  have "d_sessions (set_status k st s) k = Some (x\<lparr>cs_status := st\<rparr>)" using assms by (simp add: set_status_def)
  from WriteResult_msg_ends[OF this, of os "([], - 1)"] show ?thesis by (auto simp: set_status_def WriteTimeout_def dest: ends_modify)
qed

lemma set_status_results [simp]: "results (set_status k st s) = results s"
  by (simp add: set_status_def)

lemma HandleEvent_session_ends:
  "results (HandleEvent_session os k e s) = results s \<or>
    ends k s (HandleEvent_session os k e s) \<and> (\<exists>x. d_sessions s k = Some x \<and> live (cs_status x))"
proof (cases "d_sessions s k")
  case (Some x)
  note w = WriteResult_status[OF Some, of os] WriteTimeout_status[OF Some, of os]
  have c: "d_sessions (snd (SendCancelSignal os p s)) k = Some x" for p using Some by simp
  note w' = WriteResult_status[OF c, of os]
  have w'': "results (snd (WriteResult os k (set_status k st (snd (SendCancelSignal os p s))))) = results s \<or>
      ends k s (snd (WriteResult os k (set_status k st (snd (SendCancelSignal os p s)))))" for st p
    using w'[of st p] ends_signal[of k os p s] by auto
  show ?thesis
    using Some w w''
    by (auto simp: HandleEvent_session_def PendingState_OnEvent_def RunningState_OnEvent_def CancelPendingState_OnEvent_def
        live_def split: CoredumpStatus.split CoredumpEvent.split)
qed (simp add: HandleEvent_session_def)


lemma ends_emit [simp]: "\<not> is_result e \<Longrightarrow> ends k s (emit e t) = ends k s t"
  by (simp add: ends_def)

lemma CancelCoredump_ends:
  "results (CancelCoredump os k s) = results s \<or>
    ends k s (CancelCoredump os k s) \<and> (\<exists>x. d_sessions s k = Some x \<and> live (cs_status x))"
  using HandleEvent_session_ends[of os k CANCEL "snd (CancelSession k s)"]
  by (auto simp: CancelCoredump_def CancelSession_def dest: ends_modify split: if_splits)

lemma UpdateWorkerPid_ends:
  assumes "UpdateWorkerPid_facade os k p s = (ok, t)"
  shows "results t = results s \<or> ends k s t \<and> (\<exists>x. d_sessions s k = Some x \<and> live (cs_status x))"
  using assms HandleEvent_session_ends[of os k UPDATE_DUMPER "snd (UpdateWorkerPid k p s)"]
  by (auto simp: UpdateWorkerPid_facade_def UpdateWorkerPid_def Let_def dest: ends_modify split: if_splits)

lemma ReportResult_ends:
  "results (ReportResult os k rpt s) = results s \<or>
    ends k s (ReportResult os k rpt s) \<and> (\<exists>x. d_sessions s k = Some x \<and> live (cs_status x))"
  using HandleEvent_session_ends[of os k "if rp_status rpt = SUCCESS then REPORT_SUCCESS else REPORT_FAIL" "UpdateReport k rpt s"]
  by (auto simp: ReportResult_def UpdateReport_def dest: ends_modify split: if_splits)

lemma CreateCoredump_results:
  assumes "CreateCoredump os r s = (ok, t)"
  shows "results t = results s"
proof -
  have s: "results (snd (SendStartSignal os p u)) = results u" for p and u :: "'a Dumper_scheme"
    by (auto simp: SendStartSignal_def SendSignalToProcess_def SendSignalToHapWatchdogThread_def split: option.split)
  have c: "results (CreateSession os r s) = results s" by (simp add: CreateSession_def)
  have "results v = results u" if "delay_task os w d u = (i, v)" for w d i and u v :: "'a Dumper_scheme"
    using that results_simps(4)[of os w d u] by simp
  then have "results (ScheduleCancelTime os k ms u) = results u" for k ms and u :: "'a Dumper_scheme"
    by (auto simp: ScheduleCancelTime_def Let_def split: option.split prod.split)
  then show ?thesis using assms s c by (auto simp: CreateCoredump_def Let_def)
qed

lemma ends_results: "ends k s t \<Longrightarrow> results u = results t \<Longrightarrow> d_sessions u = d_sessions t \<Longrightarrow> ends k s u"
  by (simp add: ends_def)

lemma ends_from: "ends k s t \<Longrightarrow> results s = results u \<Longrightarrow> d_sessions s = d_sessions u \<Longrightarrow> ends k u t"
  by (simp add: ends_def)

lemma coredump_ends:
  assumes "OnRequest_coredump os n conn r s = (code, t)"
  shows "results t = results s \<or> ends (rd_pid r) s t \<and> (\<exists>x. d_sessions s (rd_pid r) = Some x \<and> live (cs_status x))"
proof -
  obtain c s1 where v: "ValidateRequest os n r s = (c, s1)" by fastforce
  have s1: "results s1 = results s" "d_sessions s1 = d_sessions s"
    using v by (auto simp: ValidateRequest_def split: if_splits prod.splits)
  have "results t = results s1 \<or> ends (rd_pid r) s1 t \<and> (\<exists>x. d_sessions s1 (rd_pid r) = Some x \<and> live (cs_status x))"
    using assms v CancelCoredump_ends[of os "rd_pid r" s1]
    by (auto simp: OnRequest_coredump_def HandleCreateEvent_def HandleCancelEvent_def Let_def
        dest: CreateCoredump_results split: if_splits prod.splits)
  then show ?thesis using s1 by (auto dest: ends_from)
qed

lemma callback_ends:
  assumes "OnRequest_callback os n conn r s = (code, t)"
  shows "results t = results s \<or> ends (sd_pid r) s t \<and> (\<exists>x. d_sessions s (sd_pid r) = Some x \<and> live (cs_status x))"
proof (cases "ValidateRequest_callback os n r \<and> sd_coredumpStatus r = CORE_DUMP_START \<and> \<not> sd_processDumpPid r \<le> 0")
  case True
  obtain ok u where u: "UpdateWorkerPid_facade os (sd_pid r) (sd_processDumpPid r) s = (ok, u)" by fastforce
  then show ?thesis using UpdateWorkerPid_ends[OF u] assms True
    by (auto simp: OnRequest_callback_def HandleUpdateWorkerPid_def Let_def)
next
  case False
  then show ?thesis
    using assms ReportResult_ends[of os "sd_pid r" "\<lparr>rp_status = (if sd_retCode r = 0 then SUCCESS else FAILED), rp_filePath = sd_fileName r, rp_errorCode = 0\<rparr>" s]
    by (auto simp: OnRequest_callback_def HandleUpdateWorkerPid_def HandleReport_def Let_def split: if_splits)
qed

lemma serve_results:
  assumes "serve os dc n conn r s = (code, t)"
  shows "results t = results s"
proof -
  have p: "proper_send c x a e \<Longrightarrow> \<not> is_result e" for c x a e by (cases e) (simp_all add: proper_send_def)
  obtain out where "d_out t = d_out s @ out" "list_all (proper_send conn code (may_receive os n r)) out"
    using serve_grows[OF assms] by (auto simp: grows_def)
  then show ?thesis using p by (auto simp: results_def list_all_iff filter_empty_conv)
qed

lemma task_results: "results (run_main_task os w s) = results s"
  by (cases w) (simp_all, simp_all add: results_def run_report_stats_def run_restore_dumpable_def Let_def)

section \<open>Properties\<close>

text \<open>
  C38.  A client gets at most one result for its core dump: in every step of the main thread either no result is
  sent, or exactly one, to the client of a session that was pending, running or being cancelled, and the step
  removes this session and leaves all others as they are.
\<close>

theorem one_result:
  assumes "dumper_step s t"
  shows "results t = results s \<or>
    (\<exists>k x path code. d_sessions s k = Some x \<and> cs_status x \<in> {PENDING, RUNNING, CANCEL_PENDING} \<and>
      results t = results s @ [Send_result (cs_clientFd x) path code] \<and> d_sessions t = (d_sessions s)(k := None))"
  using assms
proof cases
  case (request os dc n conn r code)
  then show ?thesis using serve_results by blast
next
  case (coredump os n conn q code)
  then show ?thesis using coredump_ends[OF coredump] by (fastforce simp: ends_def live_def)
next
  case (callback os n conn d code)
  then show ?thesis using callback_ends[OF callback] by (fastforce simp: ends_def live_def)
next
  case (task os w)
  then show ?thesis by (simp add: task_results)
qed


lemmas sample_dump_defs = sample_dumper_def sample_session_def sample_report_def sample_daemon_def Daemon.extend_def

theorem one_result_witness:
  "results (snd (OnRequest_callback sample_main_os SERVER_CRASH_SOCKET_NAME 6 sample_report sample_dumper)) \<noteq> [] \<and>
   d_sessions (snd (OnRequest_callback sample_main_os SERVER_CRASH_SOCKET_NAME 6 sample_report sample_dumper)) = Map.empty"
proof -
  let ?t = "snd (OnRequest_callback sample_main_os SERVER_CRASH_SOCKET_NAME 6 sample_report sample_dumper)"
  have step: "dumper_step sample_dumper ?t"
    by (rule dumper_step.callback[of sample_main_os SERVER_CRASH_SOCKET_NAME 6 sample_report _
        "fst (OnRequest_callback sample_main_os SERVER_CRASH_SOCKET_NAME 6 sample_report sample_dumper)"]) simp
  have "results ?t = [Send_result 31 [] 0]"
    by (simp add: sample_dump_defs OnRequest_callback_def ValidateRequest_callback_def CORE_DUMP_START_def HandleReport_def ReportResult_def
        UpdateReport_def HandleEvent_session_def RunningState_OnEvent_def WriteResult_def WriteResult_msg_def strncpy_s_fits_def
        set_status_def modify_session_def ReportCoredumpStatistics_def)
      (simp add: results_def)
  moreover have "results sample_dumper = []" "\<And>k x. d_sessions sample_dumper k = Some x \<Longrightarrow> k = 300"
    by (auto simp: results_def sample_dump_defs split: if_splits)
  moreover have "(d_sessions sample_dumper)(300 := None) = Map.empty" by (simp add: sample_dump_defs)
  ultimately show ?thesis using one_result[OF step] by (metis list.distinct(1))
qed

text \<open>
  C39.  A failed core dump is reported to its client with return code 0, as if it had succeeded: the return code of the
  worker selects the state of the session but is never copied into the report.
\<close>

theorem failure_reported_as_success:
  assumes "d_sessions s (sd_pid r) = Some x" "cs_status x = RUNNING" "sd_retCode r \<noteq> 0" "length (sd_fileName r) < 256"
    and "0 < sd_pid r" "sd_coredumpStatus r \<noteq> CORE_DUMP_START"
  shows "results (snd (OnRequest_callback os SERVER_CRASH_SOCKET_NAME conn r s)) =
    results s @ [Send_result (cs_clientFd x) (sd_fileName r) 0]"
  using assms
  by (simp add: OnRequest_callback_def ValidateRequest_callback_def HandleReport_def ReportResult_def UpdateReport_def
      HandleEvent_session_def RunningState_OnEvent_def WriteResult_def WriteResult_msg_def strncpy_s_fits_def set_status_def
      ReportCoredumpStatistics_def Let_def)

theorem failure_reported_as_success_witness:
  "results (snd (OnRequest_callback sample_main_os SERVER_CRASH_SOCKET_NAME 6 sample_report sample_dumper)) = [Send_result 31 [] 0]"
proof -
  have "results (snd (OnRequest_callback sample_main_os SERVER_CRASH_SOCKET_NAME 6 sample_report sample_dumper)) =
      results sample_dumper @ [Send_result (cs_clientFd sample_session) (sd_fileName sample_report) 0]"
    by (rule failure_reported_as_success) (simp_all add: sample_dump_defs CORE_DUMP_START_def)
  then show ?thesis by (simp add: results_def sample_dump_defs)
qed

end
