(* ===== verification/Server.thy ===== *)
theory Server
  imports Coredump
begin

text \<open>
  The socket server of the main thread (\<^verbatim>\<open>src/services/fault_logger_server.cpp\<close>) and the body of the event loop
  (\<^verbatim>\<open>EpollManager::StartEpoll\<close>): connections and their limit per user, the dispatch of messages to the services,
  and what an event does to its listener.

  A listener is destroyed when it leaves the list; the destructors that have effects are in \<open>destroy\<close>.
\<close>

section \<open>State\<close>

text \<open>The registered client types and the number of connections of each user.\<close>

record Server = Dumper +
  d_services :: "int list"
  d_connectionNums :: "u32 \<Rightarrow> u32 option"

section \<open>Messages\<close>

datatype Request =
    Service_request ServiceRequest
  | Coredump_request CoreDumpRequestData
  | Coredump_status CoreDumpStatusData

fun client_type :: "Request \<Rightarrow> int" where
  "client_type (Service_request (File_request r)) = 0"
| "client_type (Service_request (Sdk_dump_request r)) = 1"
| "client_type (Service_request (Pipe_request r)) = 2"
| "client_type (Service_request (Exception_request r)) = 3"
| "client_type (Service_request (Stats_request r)) = 4"
| "client_type (Coredump_request r) = 5"
| "client_type (Coredump_status r) = 6"
| "client_type (Service_request (Perf_request r)) = 7"
| "client_type (Service_request (Limited_dump_request r)) = 8"
| "client_type (Service_request (Limited_pipe_request r)) = 9"
| "client_type (Service_request (Minidump_request r)) = 10"
| "client_type (Service_request (Binder_request r)) = 11"

text \<open>The sizes of the packed structures on a 64-bit system.\<close>

definition head_size :: int where "head_size = 5"

fun request_size :: "Request \<Rightarrow> int" where
  "request_size (Service_request (File_request r)) = head_size + 24"
| "request_size (Service_request (Sdk_dump_request r)) = head_size + 32"
| "request_size (Service_request (Pipe_request r)) = head_size + 5"
| "request_size (Service_request (Exception_request r)) = head_size + 20 + 1024"
| "request_size (Service_request (Stats_request r)) = head_size + 88 + 4 * 128"
| "request_size (Coredump_request r) = head_size + 16"
| "request_size (Coredump_status r) = head_size + 16 + 256"
| "request_size (Service_request (Perf_request r)) = head_size + 14"
| "request_size (Service_request (Limited_dump_request r)) = head_size + 24"
| "request_size (Service_request (Limited_pipe_request r)) = head_size + 9 + 128"
| "request_size (Service_request (Minidump_request r)) = head_size + 10"
| "request_size (Service_request (Binder_request r)) = head_size + 84"

text \<open>
  A message of \<^verbatim>\<open>nread\<close> bytes: the buffer read as the structure its head asks for, or a head with a type for
  which there is no service.
\<close>

datatype ClientMessage = Message int Request | Unknown_message int int

fun message_length :: "ClientMessage \<Rightarrow> int" where
  "message_length (Message nread r) = nread"
| "message_length (Unknown_message nread clientType) = nread"

fun on_request :: "MainOs \<Rightarrow> DirectoryConfig \<Rightarrow> string \<Rightarrow> int \<Rightarrow> Request \<Rightarrow> 'm Dumper_scheme \<Rightarrow> ResponseCode \<times> 'm Dumper_scheme" where
  "on_request os dc socketName conn (Service_request r) s = serve os dc socketName conn r s"
| "on_request os dc socketName conn (Coredump_request r) s = OnRequest_coredump os socketName conn r s"
| "on_request os dc socketName conn (Coredump_status r) s = OnRequest_callback os socketName conn r s"

definition OnReceiveMsg ::
    "MainOs \<Rightarrow> DirectoryConfig \<Rightarrow> string \<Rightarrow> int \<Rightarrow> int \<Rightarrow> Request \<Rightarrow> 'm Dumper_scheme \<Rightarrow> ResponseCode \<times> 'm Dumper_scheme" where
  "OnReceiveMsg os dc socketName conn nread r s =
    (if nread \<noteq> request_size r then (INVALID_REQUEST_DATA, s) else on_request os dc socketName conn r s)"

section \<open>Listeners\<close>

definition connectionLimit :: u32 where "connectionLimit = 5"
definition EPOLL_TIMEOUT_IN_MILLISECONDS :: int where "EPOLL_TIMEOUT_IN_MILLISECONDS = 20 * 1000"

definition connectionNum :: "u32 \<Rightarrow> 'm Server_scheme \<Rightarrow> u32" where
  "connectionNum uid s = (case d_connectionNums s uid of None \<Rightarrow> 0 | Some n \<Rightarrow> n)"

fun destroy :: "ListenerKind \<Rightarrow> 'm Server_scheme \<Rightarrow> 'm Server_scheme" where
  "destroy (ClientRequestListener socketName uid) s =
    (let n = connectionNum uid s - 1
     in s\<lparr>d_connectionNums := (d_connectionNums s)(uid := (if n = 0 then None else Some n))\<rparr>)"
| "destroy Executor s = s\<lparr>dq_executor := None\<rparr>"
| "destroy _ s = s"

definition reap :: "'m Server_scheme \<Rightarrow> 'm Server_scheme \<Rightarrow> 'm Server_scheme" where
  "reap s t = fold (\<lambda>l. destroy (el_kind l)) (filter (\<lambda>l. l \<notin> set (em_listeners t)) (em_listeners s)) t"

definition drop_listener :: "Os \<Rightarrow> int \<Rightarrow> 'm Server_scheme \<Rightarrow> 'm Server_scheme" where
  "drop_listener os fd s = reap s (snd (RemoveListener os fd s))"

definition OnEventPoll_client ::
    "MainOs \<Rightarrow> DirectoryConfig \<Rightarrow> string \<Rightarrow> int \<Rightarrow> ClientMessage \<Rightarrow> 'm Server_scheme \<Rightarrow> EventResult \<times> 'm Server_scheme" where
  "OnEventPoll_client os dc socketName fd msg s =
    (if message_length msg < head_size then (REMOVE, s)
     else
       (let (retCode, s1) =
          (case msg of
             Message nread r \<Rightarrow>
               if client_type r \<in> set (d_services s) then OnReceiveMsg os dc socketName fd nread r s else (UNKNOWN_CLIENT_TYPE, s)
           | Unknown_message nread clientType \<Rightarrow> (UNKNOWN_CLIENT_TYPE, s))
        in (REMOVE, if retCode \<noteq> REQUEST_SUCCESS then emit (Send_code fd retCode) s1 else s1)))"

definition OnEventPoll_server :: "MainOs \<Rightarrow> string \<Rightarrow> int \<Rightarrow> 'm Server_scheme \<Rightarrow> EventResult \<times> 'm Server_scheme" where
  "OnEventPoll_server os socketName connectionFd s =
    (if connectionFd < 0 then (KEEP, s)
     else
       (case os_cred os of
          None \<Rightarrow> (KEEP, s)
        | Some c \<Rightarrow>
            (let uid = cr_uid c; n = connectionNum uid s; s1 = s\<lparr>d_connectionNums := (d_connectionNums s)(uid \<mapsto> n)\<rparr>
             in if connectionLimit \<le> n then (KEEP, s1)
                else
                  (let s2 = s1\<lparr>d_connectionNums := (d_connectionNums s1)(uid \<mapsto> n + 1)\<rparr>;
                       l = EpollListener_new (os_now os) connectionFd EPOLL_TIMEOUT_IN_MILLISECONDS (ClientRequestListener socketName uid);
                       (ok, s3) = AddListener (Os.truncate os) l s2
                   in (KEEP, if ok then s3 else destroy (el_kind l) s3)))))"

section \<open>The event loop\<close>

text \<open>
  One event of \<^verbatim>\<open>epoll_wait\<close>, with what the system calls of its listener answer: the descriptor of \<^verbatim>\<open>accept\<close>,
  the message read, whether the timer was read and the clock during its tasks.  The listeners of the
  files of binder peers and of the kernel dump device only do input and output; \<open>ev_other\<close> is their result.
\<close>

record PollEvent =
  ev_fd :: int
  ev_in :: bool
  ev_os :: MainOs
  ev_accept :: int
  ev_message :: ClientMessage
  ev_timer :: bool
  ev_clock :: "nat \<Rightarrow> Os"
  ev_other :: EventResult

fun run_delay_task :: "PollEvent \<Rightarrow> Os \<Rightarrow> MainTask DelayTask \<Rightarrow> 'm Server_scheme \<Rightarrow> 'm Server_scheme" where
  "run_delay_task e os (Task w) s = run_main_task (Os.extend os (Os.more (ev_os e))) w s"
| "run_delay_task e os Periodic_Execute s = s"

definition OnEventPoll_executor :: "PollEvent \<Rightarrow> 'm Server_scheme \<Rightarrow> (EventResult \<times> 'm Server_scheme) option" where
  "OnEventPoll_executor e s =
    (if \<not> ev_timer e then Some (REMOVE, s)
     else
       (case OnTimer (ev_clock e) (run_delay_task e) 0 (ev_fd e) s of
          None \<Rightarrow> None
        | Some (again, t) \<Rightarrow> Some (if again then KEEP else REMOVE, t)))"

definition OnEventPoll ::
    "DirectoryConfig \<Rightarrow> PollEvent \<Rightarrow> ListenerKind \<Rightarrow> 'm Server_scheme \<Rightarrow> (EventResult \<times> 'm Server_scheme) option" where
  "OnEventPoll dc e kind s =
    (case kind of
       SocketServerListener n \<Rightarrow> Some (OnEventPoll_server (ev_os e) n (ev_accept e) s)
     | ClientRequestListener n uid \<Rightarrow> Some (OnEventPoll_client (ev_os e) dc n (ev_fd e) (ev_message e) s)
     | Executor \<Rightarrow> OnEventPoll_executor e s
     | TimerTaskAdapter \<Rightarrow> Some (if ev_timer e then (KEEP, perf_reset s) else (REMOVE, s))
     | PidFdListener pid \<Rightarrow> Some (OnEventPoll_pidfd (ev_os e) pid s)
     | _ \<Rightarrow> Some (ev_other e, s))"

definition handle_event :: "DirectoryConfig \<Rightarrow> PollEvent \<Rightarrow> 'm Server_scheme \<Rightarrow> 'm Server_scheme option" where
  "handle_event dc e s =
    (let os = Os.truncate (ev_os e)
     in if \<not> ev_in e then Some (drop_listener os (ev_fd e) s)
        else
          (case GetTargetListener (ev_fd e) s of
             None \<Rightarrow> Some s
           | Some l \<Rightarrow>
               (case OnEventPoll dc e (el_kind l) s of
                  None \<Rightarrow> None
                | Some (KEEP, t) \<Rightarrow> Some (reap s t)
                | Some (REMOVE, t) \<Rightarrow> Some (drop_listener os (ev_fd e) (reap s t)))))"

fun handle_events :: "DirectoryConfig \<Rightarrow> PollEvent list \<Rightarrow> 'm Server_scheme \<Rightarrow> 'm Server_scheme option" where
  "handle_events dc [] s = Some s"
| "handle_events dc (e # es) s = (case handle_event dc e s of None \<Rightarrow> None | Some t \<Rightarrow> handle_events dc es t)"

text \<open>One round of \<^verbatim>\<open>StartEpoll\<close>: the events of \<^verbatim>\<open>epoll_wait\<close>, none on a timeout, or a failure.\<close>

definition poll_round :: "DirectoryConfig \<Rightarrow> Os \<Rightarrow> PollEvent list option \<Rightarrow> 'm Server_scheme \<Rightarrow> 'm Server_scheme option" where
  "poll_round dc os answer s =
    (case answer of
       None \<Rightarrow> Some s
     | Some [] \<Rightarrow> Some (reap s (HandleTimeOut os s))
     | Some es \<Rightarrow> handle_events dc es s)"

section \<open>Start\<close>

definition AddService :: "int \<Rightarrow> 'm Server_scheme \<Rightarrow> 'm Server_scheme" where
  "AddService clientType s = s\<lparr>d_services := d_services s @ [clientType]\<rparr>"

definition AddServerListener :: "MainOs \<Rightarrow> (string \<Rightarrow> int) \<Rightarrow> string \<Rightarrow> 'm Server_scheme \<Rightarrow> bool \<times> 'm Server_scheme" where
  "AddServerListener os listenFd socketName s =
    (if listenFd socketName < 0 then (False, s)
     else AddListener (Os.truncate os) (EpollListener_new (os_now os) (listenFd socketName) (- 1) (SocketServerListener socketName)) s)"

definition Init_server :: "MainOs \<Rightarrow> (string \<Rightarrow> int) \<Rightarrow> 'm Server_scheme \<Rightarrow> bool \<times> 'm Server_scheme" where
  "Init_server os listenFd s =
    (let s1 = AddService 4 (AddService 3 (AddService 0 s));
         (ok1, s2) = AddServerListener os listenFd SERVER_SOCKET_NAME s1
     in if \<not> ok1 then (False, s2)
        else
          (let (ok2, s3) = AddServerListener os listenFd SERVER_CRASH_SOCKET_NAME s2
           in if \<not> ok2 then (False, s3)
              else AddServerListener os listenFd SERVER_SDKDUMP_SOCKET_NAME (fold AddService [5, 6, 2, 1, 7, 8, 9, 10, 11] s3)))"

section \<open>Vocabulary of the properties\<close>

text \<open>The connections of a user, the invariant of their number, and the rounds of the loop.\<close>

definition of_user :: "u32 \<Rightarrow> EpollListener \<Rightarrow> bool" where
  "of_user uid l = (case el_kind l of ClientRequestListener _ u \<Rightarrow> u = uid | _ \<Rightarrow> False)"

definition connections :: "u32 \<Rightarrow> EpollListener list \<Rightarrow> nat" where
  "connections uid ls = length (filter (of_user uid) ls)"

definition conn_ok :: "'m Server_scheme \<Rightarrow> bool" where
  "conn_ok s \<longleftrightarrow> (\<forall>uid. connectionNum uid s = of_nat (connections uid (em_listeners s)) \<and> connections uid (em_listeners s) \<le> 5)"

inductive poll_step :: "'m Server_scheme \<Rightarrow> 'm Server_scheme \<Rightarrow> bool" where
  round: "poll_round dc os answer s = Some t \<Longrightarrow> poll_step s t"

text \<open>What requests and tasks keep of a server: the connections and what only the server changes.\<close>

definition core :: "'m Dumper_scheme \<Rightarrow> EpollListener list \<times> 'm" where
  "core s = (clients s, Dumper.more s)"

definition sheds :: "'m Dumper_scheme \<Rightarrow> 'm Dumper_scheme \<Rightarrow> bool" where
  "sheds s t \<longleftrightarrow> Dumper.more t = Dumper.more s \<and> (\<exists>D. clients t = filter (\<lambda>l. el_fd l \<notin> D) (clients s))"

text \<open>A sample server and the arrival of a connection.\<close>

definition sample_server :: Server where
  "sample_server = Dumper.extend (Daemon.extend
      (sample_daemon\<lparr>em_listeners := [EpollListener_new 0 10 (- 1) (SocketServerListener SERVER_SOCKET_NAME)]\<rparr>) \<lparr>d_sessions = Map.empty\<rparr>)
    \<lparr>d_services = [0], d_connectionNums = (\<lambda>_. None)\<rparr>"

definition sample_accept :: PollEvent where
  "sample_accept = \<lparr>ev_fd = 10, ev_in = True, ev_os = sample_main_os, ev_accept = 11, ev_message = Unknown_message 0 0,
    ev_timer = True, ev_clock = (\<lambda>_. sample_os), ev_other = KEEP\<rparr>"

section \<open>Requests and tasks keep the connections\<close>

lemma core_of_shell: "shell t = shell s \<Longrightarrow> core t = core s"
  by (cases s; cases t) (simp add: shell_def core_def clients_def)

lemma sheds_of_loses: "loses s t \<Longrightarrow> sheds s t"
  by (cases s; cases t) (simp add: loses_def sheds_def clients_def)

lemma sheds_of_core: "core t = core s \<Longrightarrow> sheds s t"
  by (auto simp: core_def sheds_def intro: exI[of _ "{}"])

lemma core_frame [simp]:
  "core (emit e s) = core s" "core (snd (delay_task os w d s)) = core s" "core (s\<lparr>d_crashFileRecords := r\<rparr>) = core s"
  by (rule core_of_shell; simp)+

lemma SetTimeOption_core [simp]: "core (snd (SetTimeOptionForTimeFd os fd x y s)) = core s"
  by (rule core_of_shell) simp

lemma core_sessions [simp]: "core (s\<lparr>d_sessions := m\<rparr>) = core s" "core (modify_session k f s) = core s" "core (set_status k st s) = core s"
  by (simp_all add: core_def clients_def modify_session_def set_status_def)

lemma RemoveDelayTask_core [simp]: "core (snd (RemoveDelayTask os i s)) = core s"
  by (simp add: RemoveDelayTask_def SetTimeOptionForTimeFd_def core_def clients_def Let_def split: option.split)

lemma RemoveSession_core [simp]: "core (RemoveSession os k s) = core s"
  by (simp add: RemoveSession_def CancelTimeout_def Let_def split: option.split)

lemma signal_core [simp]: "core (snd (SendSignalToProcess os pid si s)) = core s" "core (snd (SendCancelSignal os pid s)) = core s"
  by (rule core_of_shell[OF signal_shell[of os pid si _ "fst (SendSignalToProcess os pid si s)"]], simp)
    (simp add: SendCancelSignal_def)

lemma WriteResult_core [simp]: "core (snd (WriteResult_msg os k res s)) = core s" "core (snd (WriteResult os k s)) = core s"
  "core (snd (WriteTimeout os k s)) = core s"
proof -
  show m: "core (snd (WriteResult_msg os k res s)) = core s" for res
    by (simp add: WriteResult_msg_def ReportCoredumpStatistics_def split: option.split)
  show "core (snd (WriteResult os k s)) = core s" "core (snd (WriteTimeout os k s)) = core s"
    by (simp_all add: WriteResult_def WriteTimeout_def m split: option.split)
qed

lemma HandleEvent_session_core [simp]: "core (HandleEvent_session os k e s) = core s"
  by (simp add: HandleEvent_session_def PendingState_OnEvent_def RunningState_OnEvent_def CancelPendingState_OnEvent_def
      split: option.split CoredumpStatus.split CoredumpEvent.split)

lemma ScheduleCancelTime_core [simp]: "core (ScheduleCancelTime os k ms s) = core s"
proof -
  have "core u = core s" if "delay_task os w d s = (i, u)" for w d i u
    using core_frame(2)[of os w d s] that by simp
  then show ?thesis by (auto simp: ScheduleCancelTime_def Let_def split: option.split prod.split)
qed

lemma coredump_core: "OnRequest_coredump os n conn r s = (code, t) \<Longrightarrow> core t = core s"
  by (auto simp: OnRequest_coredump_def ValidateRequest_def HandleCreateEvent_def HandleCancelEvent_def CreateCoredump_def CreateSession_def
      SendStartSignal_def CancelCoredump_def CancelSession_def Let_def split: if_splits prod.splits)

lemma callback_core: "OnRequest_callback os n conn r s = (code, t) \<Longrightarrow> core t = core s"
  by (auto simp: OnRequest_callback_def HandleUpdateWorkerPid_def UpdateWorkerPid_facade_def UpdateWorkerPid_def HandleReport_def
      ReportResult_def UpdateReport_def Let_def split: if_splits prod.splits)

lemma on_request_sheds: "on_request os dc n conn r s = (code, t) \<Longrightarrow> sheds s t"
  by (cases r) (auto intro: sheds_of_loses serve_loses sheds_of_core coredump_core callback_core)

lemma main_task_core: "core (run_main_task os w s) = core s"
  by (cases w) (use core_of_shell[OF service_task_shell[of os w s]] in auto)

lemma OnTimer_core:
  assumes "OnTimer clock (run_delay_task e) i fd s = Some (b, t)"
  shows "core t = core s"
proof (rule OnTimer_keeps[OF assms])
  have task: "core (run_delay_task e os w u) = core u" for os w and u :: "'a Server_scheme"
    by (cases w) (simp_all add: main_task_core)
  show "core (snd (RemoveDelayTask (clock i) (fst x) (run_delay_task e (clock i) (snd x) u))) = core s"
    if "core u = core s" for u x i using that by (simp add: task)
  show "core (snd (SetTimeOptionForTimeFd (clock i) fd a c u)) = core s" if "core u = core s" for u i a c
    using that by simp
qed simp

section \<open>The number of connections\<close>

lemma connectionNum_destroy:
  "connectionNum uid (destroy k s) = connectionNum uid s - (if \<exists>n. k = ClientRequestListener n uid then 1 else 0)"
  "em_listeners (destroy k s) = em_listeners s"
  by (cases k; auto simp: connectionNum_def Let_def split: option.split)+

lemma of_user_iff: "of_user uid l \<longleftrightarrow> (\<exists>n. el_kind l = ClientRequestListener n uid)"
  by (auto simp: of_user_def split: ListenerKind.split)

lemma fold_destroy:
  "connectionNum uid (fold (\<lambda>l. destroy (el_kind l)) ls s) = connectionNum uid s - of_nat (connections uid ls)"
  "em_listeners (fold (\<lambda>l. destroy (el_kind l)) ls s) = em_listeners s"
  by (induction ls arbitrary: s) (auto simp: connectionNum_destroy connections_def of_user_iff)

lemma connections_clients: "connections uid (em_listeners s) = connections uid (clients s)"
proof -
  have "of_user uid l \<Longrightarrow> is_client l" for l by (auto simp: of_user_def is_client_def split: ListenerKind.splits)
  then have "filter (of_user uid) (filter is_client ls) = filter (of_user uid) ls" for ls by (auto intro!: filter_cong)
  then show ?thesis by (simp add: connections_def clients_def)
qed

lemma connections_split:
  assumes "clients t = filter (\<lambda>l. el_fd l \<notin> D) (clients s)"
  shows "connections uid (em_listeners s) =
    connections uid (em_listeners t) + connections uid (filter (\<lambda>l. l \<notin> set (em_listeners t)) (em_listeners s))"
proof -
  have c: "is_client l" if "of_user uid l" for l using that by (auto simp: of_user_def is_client_def split: ListenerKind.splits)
  have e: "l \<in> set (em_listeners t) \<longleftrightarrow> el_fd l \<notin> D" if "l \<in> set (em_listeners s)" "of_user uid l" for l
  proof -
    have "l \<in> set (em_listeners t) \<longleftrightarrow> l \<in> set (clients t)" using c[OF that(2)] by (simp add: clients_def)
    also have "\<dots> \<longleftrightarrow> el_fd l \<notin> D" using that(1) c[OF that(2)] by (simp add: assms clients_def[of s])
    finally show ?thesis .
  qed
  have "connections uid (em_listeners t) = length (filter (\<lambda>l. of_user uid l \<and> el_fd l \<notin> D) (clients s))"
    using connections_clients[of uid t] assms by (simp add: connections_def conj_commute)
  also have "\<dots> = length (filter (\<lambda>l. of_user uid l \<and> el_fd l \<notin> D) (em_listeners s))"
    using c by (auto simp: clients_def intro!: arg_cong[of _ _ length] filter_cong)
  also have "\<dots> = length (filter (\<lambda>l. l \<in> set (em_listeners t)) (filter (of_user uid) (em_listeners s)))"
    using e by (auto intro!: arg_cong[of _ _ length] filter_cong)
  finally show ?thesis
    using sum_length_filter_compl[of "\<lambda>l. l \<in> set (em_listeners t)" "filter (of_user uid) (em_listeners s)"]
    by (simp add: connections_def conj_commute)
qed

lemma connectionNum_more: "Dumper.more t = Dumper.more s \<Longrightarrow> connectionNum uid t = connectionNum uid s"
  by (cases s; cases t) (simp add: connectionNum_def)

lemma reap_ok:
  assumes "sheds s t" "conn_ok s"
  shows "conn_ok (reap s t)"
  unfolding conn_ok_def
proof (intro allI conjI)
  fix uid
  obtain D where D: "clients t = filter (\<lambda>l. el_fd l \<notin> D) (clients s)" using assms(1) by (auto simp: sheds_def)
  note split = connections_split[OF D, of uid]
  have num: "connectionNum uid t = of_nat (connections uid (em_listeners s))"
    using assms connectionNum_more[of t s uid] by (simp add: sheds_def conn_ok_def)
  show "connectionNum uid (reap s t) = of_nat (connections uid (em_listeners (reap s t)))"
    using num split by (simp add: reap_def fold_destroy)
  show "connections uid (em_listeners (reap s t)) \<le> 5"
    using assms(2) split unfolding conn_ok_def reap_def fold_destroy(2) by (metis add_leD1)
qed

lemma drop_listener_ok: "conn_ok s \<Longrightarrow> conn_ok (drop_listener os fd s)"
  unfolding drop_listener_def by (rule reap_ok[OF sheds_of_loses[OF loses_RemoveListener]])

lemma kind_new: "el_kind (EpollListener_new now fd ms k) = k"
  by (simp add: EpollListener_new_def)

lemma accept_ok:
  assumes "OnEventPoll_server os n fd s = (res, t)" "conn_ok s"
  shows "conn_ok (reap s t)"
proof -
  have same: "em_listeners u = em_listeners s \<Longrightarrow> (\<And>uid. connectionNum uid u = connectionNum uid s) \<Longrightarrow> conn_ok (reap s u)" for u
    using assms(2) by (simp add: conn_ok_def reap_def)
  show ?thesis
  proof (cases "fd < 0 \<or> os_cred os = None")
    case True
    then have "t = s" using assms(1) by (cases "fd < 0") (simp_all add: OnEventPoll_server_def)
    then show ?thesis using same by simp
  next
    case False
    then obtain c where c: "os_cred os = Some c" "\<not> fd < 0" by auto
    let ?uid = "cr_uid c" and ?n = "connectionNum (cr_uid c) s"
    let ?l = "EpollListener_new (os_now os) fd EPOLL_TIMEOUT_IN_MILLISECONDS (ClientRequestListener n (cr_uid c))"
    show ?thesis
    proof (cases "connectionLimit \<le> ?n")
      case True
      then have "t = s\<lparr>d_connectionNums := (d_connectionNums s)(?uid \<mapsto> ?n)\<rparr>"
        using assms(1) c by (simp add: OnEventPoll_server_def Let_def)
      then show ?thesis using same by (auto simp: connectionNum_def)
    next
      case room: False
      define u where "u = s\<lparr>d_connectionNums := (d_connectionNums s)(?uid \<mapsto> ?n + 1)\<rparr>"
      obtain ok v where v: "AddListener (Os.truncate os) ?l u = (ok, v)" by fastforce
      have t: "t = (if ok then v else destroy (ClientRequestListener n ?uid) v)"
        using assms(1) c room v by (auto simp: OnEventPoll_server_def Let_def u_def kind_new simp del: destroy.simps)
      have num: "connectionNum uid u = connectionNum uid s + (if uid = ?uid then 1 else 0)" for uid
        by (simp add: u_def connectionNum_def)
      show ?thesis
      proof (cases ok)
        case False
        then have "v = u" using v by (auto simp: AddListener_def split: if_splits)
        then show ?thesis using t False same[of t] num connectionNum_destroy(1)[of _ "ClientRequestListener n ?uid" u] connectionNum_destroy(2)[of "ClientRequestListener n ?uid" u]
          by (auto simp: u_def)
      next
        case True
        then have v': "v = u\<lparr>em_listeners := insert_before (\<lambda>x. el_timeoutTime ?l < el_timeoutTime x) ?l (em_listeners s)\<rparr>"
          using v by (auto simp: AddListener_def u_def split: if_splits)
        have "\<And>x. connectionNum x v = connectionNum x u" using v' by (simp add: connectionNum_def)
        moreover have "connections uid (em_listeners v) = connections uid (em_listeners s) + (if uid = ?uid then 1 else 0)" for uid
        proof -
          have "mset (filter (of_user uid) (em_listeners v)) = filter_mset (of_user uid) (add_mset ?l (mset (em_listeners s)))"
            using v' by (simp only: mset_filter) simp
          moreover have "of_user uid ?l \<longleftrightarrow> uid = ?uid" by (auto simp: of_user_iff kind_new)
          ultimately show ?thesis unfolding connections_def size_mset[symmetric] by simp
        qed
        moreover have "connections ?uid (em_listeners s) < 5"
        proof -
          have "?n = of_nat (connections ?uid (em_listeners s))" "connections ?uid (em_listeners s) \<le> 5"
            using assms(2) by (simp_all add: conn_ok_def)
          then show ?thesis using room by (simp add: connectionLimit_def not_le word_less_nat_alt unat_of_nat)
        qed
        moreover have "set (em_listeners s) \<subseteq> set (em_listeners v)" using v' by auto
        ultimately show ?thesis using True t num assms(2) by (auto simp: conn_ok_def reap_def subset_iff)
      qed
    qed
  qed
qed

lemma OnEventPoll_ok:
  assumes "OnEventPoll dc e kind s = Some (res, t)" "conn_ok s"
  shows "conn_ok (reap s t)"
proof (cases kind)
  case (SocketServerListener n)
  then show ?thesis using assms accept_ok[of "ev_os e" n "ev_accept e" s res t] by (simp add: OnEventPoll_def)
next
  case (ClientRequestListener n uid)
  have r: "sheds s s" by (simp add: sheds_of_core)
  have em: "sheds s v \<Longrightarrow> sheds s (emit (Send_code fd c) v)" for v fd c by (auto simp: sheds_def emit_def clients_def)
  have "sheds s t"
    using assms(1) ClientRequestListener r
    by (auto simp: OnEventPoll_def OnEventPoll_client_def OnReceiveMsg_def Let_def intro!: em elim!: on_request_sheds
        split: if_splits prod.splits ClientMessage.splits)
  then show ?thesis using assms(2) by (rule reap_ok)
next
  case Executor
  then have "core t = core s"
    using assms(1) by (auto simp: OnEventPoll_def OnEventPoll_executor_def dest: OnTimer_core split: if_splits option.splits prod.splits)
  then show ?thesis using assms(2) by (intro reap_ok sheds_of_core)
next
  case TimerTaskAdapter
  then have "shell t = shell s" using assms(1) by (auto simp: OnEventPoll_def perf_reset_def shell_def clients_def split: if_splits)
  then show ?thesis using assms(2) by (intro reap_ok sheds_of_core core_of_shell)
next
  case (PidFdListener pid)
  have "loses s (snd (SetEnableMinidump (ev_os e) pid False False s))"
    by (rule SetEnableMinidump_loses[of "ev_os e" pid False False s "fst (SetEnableMinidump (ev_os e) pid False False s)"]) simp
  then have "loses s t"
    using assms(1) PidFdListener by (auto simp: OnEventPoll_def OnEventPoll_pidfd_def SetDisableMinidumpToCrashLog_def intro: loses_cong(3))
  then show ?thesis using assms(2) by (intro reap_ok sheds_of_loses)
qed (use assms in \<open>auto simp: OnEventPoll_def reap_def\<close>)

lemma handle_event_ok:
  assumes "handle_event dc e s = Some t" "conn_ok s"
  shows "conn_ok t"
  using assms
  by (auto simp: handle_event_def Let_def intro!: drop_listener_ok elim: OnEventPoll_ok split: if_splits option.splits EventResult.splits)

lemma handle_events_ok: "handle_events dc es s = Some t \<Longrightarrow> conn_ok s \<Longrightarrow> conn_ok t"
  by (induction es arbitrary: s) (auto split: option.splits dest: handle_event_ok)

lemma poll_round_ok:
  assumes "poll_round dc os answer s = Some t" "conn_ok s"
  shows "conn_ok t"
proof -
  have "loses s (HandleTimeOut os s)" by (simp add: HandleTimeOut_def loses_RemoveListener loses_refl split: list.split)
  then have "conn_ok (reap s (HandleTimeOut os s))" using assms(2) by (intro reap_ok sheds_of_loses)
  then show ?thesis
    using assms by (auto simp: poll_round_def simp del: handle_events.simps elim: handle_events_ok split: option.splits list.splits)
qed

lemma poll_star_ok: "poll_step\<^sup>*\<^sup>* s t \<Longrightarrow> conn_ok s \<Longrightarrow> conn_ok t"
  by (induction rule: rtranclp_induct) (auto elim!: poll_step.cases intro: poll_round_ok)


section \<open>Properties\<close>

text \<open>
  C37.  The event loop never serves more than five connections of one user at a time, and its count of them is exact:
  whatever connections arrive, messages are served, clients disconnect or time out, tasks run and
  listeners are removed, in any order.
\<close>

theorem connection_limit:
  assumes "poll_step\<^sup>*\<^sup>* s t" "conn_ok s"
  shows "\<forall>uid. connections uid (em_listeners t) \<le> 5 \<and> unat (connectionNum uid t) = connections uid (em_listeners t)"
proof
  fix uid
  have "connectionNum uid t = of_nat (connections uid (em_listeners t))" "connections uid (em_listeners t) \<le> 5"
    using poll_star_ok[OF assms] by (simp_all add: conn_ok_def)
  then show "connections uid (em_listeners t) \<le> 5 \<and> unat (connectionNum uid t) = connections uid (em_listeners t)"
    by (simp add: unat_of_nat)
qed

theorem connection_limit_witness:
  "\<exists>t. poll_round DirectoryConfig_init sample_os (Some [sample_accept]) sample_server = Some t \<and>
    connections 20010001 (em_listeners t) = 1 \<and> unat (connectionNum 20010001 t) = 1"
proof -
  note defs = sample_server_def Dumper.extend_def Daemon.extend_def sample_daemon_def
  define t where "t = reap sample_server (snd (OnEventPoll_server sample_main_os SERVER_SOCKET_NAME 11 sample_server))"
  have target: "GetTargetListener 10 sample_server = Some (EpollListener_new 0 10 (- 1) (SocketServerListener SERVER_SOCKET_NAME))"
    by (simp add: GetTargetListener_def defs EpollListener_new_def)
  have keep: "fst (OnEventPoll_server sample_main_os n fd s) = KEEP" for n fd s
    by (simp add: OnEventPoll_server_def Let_def split: option.split prod.split)
  then have e: "OnEventPoll_server sample_main_os SERVER_SOCKET_NAME 11 sample_server =
      (KEEP, snd (OnEventPoll_server sample_main_os SERVER_SOCKET_NAME 11 sample_server))" by (metis prod.collapse)
  have "handle_event DirectoryConfig_init sample_accept sample_server = Some t"
    using target e by (auto simp: handle_event_def sample_accept_def OnEventPoll_def kind_new t_def Let_def split: prod.split)
  then have r: "poll_round DirectoryConfig_init sample_os (Some [sample_accept]) sample_server = Some t"
    by (simp add: poll_round_def)
  then have "poll_step sample_server t" by (rule poll_step.round)
  moreover have "conn_ok sample_server"
    by (simp add: conn_ok_def connections_def of_user_def connectionNum_def defs kind_new)
  ultimately have "unat (connectionNum 20010001 t) = connections 20010001 (em_listeners t)"
    using connection_limit[OF r_into_rtranclp] by blast
  moreover have "connections 20010001 (em_listeners t) = 1"
    by (simp add: t_def reap_def fold_destroy OnEventPoll_server_def sample_main_os_def connectionNum_def connectionLimit_def
        AddListener_def AddEpollEvent_def insert_before_def connections_def of_user_def defs Let_def EpollListener_new_def Os.truncate_def
        EPOLL_TIMEOUT_IN_MILLISECONDS_def NO_TIMEOUT_def)
  ultimately show ?thesis using r by auto
qed

end
