(* ===== verification/Allocator.thy ===== *)
theory Allocator
  imports Prelude
begin

text \<open>
  The allocator a crashing process switches to, \<^verbatim>\<open>src/frameworks/allocator/dfx_allocator.c\<close>: seven pools of
  blocks of 16 to 1024 bytes carved from single pages, and a mapping of its own for every larger request.

  The address space is split by type: \<open>h_page\<close> holds the header at the start of a mapping, \<open>h_block\<close> the
  header of a free block, \<open>h_bytes\<close> the bytes of blocks in use, and \<open>h_map\<close> the length of each mapping.
  The split is sound because a block is cleared whenever it changes hands.  A pool is named by its
  index.  An access through a pointer outside of a mapped page, or one that would touch the header of
  the page, is undefined.  The answer of \<^verbatim>\<open>mmap\<close> is a parameter.  The copies of \<^verbatim>\<open>memcpy_s\<close> have
  matching sizes and succeed.
\<close>

section \<open>State\<close>

record BlockInfo =
  bi_next :: u64
  bi_freeBlocksCnt :: u64

datatype TagUnion = Tag_mMapAllocSize u64 | Tag_mempool nat

record PageInfo =
  pi_tagInfo :: "u8 list"
  pi_type :: u32
  pi_union :: TagUnion
  pi_prev :: u64
  pi_next :: u64
  pi_freeBlockList :: u64
  pi_freeBlocksCnt :: u64

record DfxMempool =
  mp_type :: u32
  mp_blockSize :: u64
  mp_blocksPerPage :: u64
  mp_freePagesCnt :: u64
  mp_pageList :: u64

record DfxAllocator =
  a_initFlag :: int
  a_pageList :: u64
  a_dfxMempoolBuf :: "DfxMempool list"
  h_map :: "u64 \<Rightarrow> u64 option"
  h_page :: "u64 \<Rightarrow> PageInfo option"
  h_block :: "u64 \<Rightarrow> BlockInfo"
  h_bytes :: "u64 \<Rightarrow> u8"

definition ALIGN_SIZE :: u64 where "ALIGN_SIZE = 16"
definition DFX_PAGE_SIZE :: u64 where "DFX_PAGE_SIZE = 4096"
definition DFX_PAGE_MASK :: u64 where "DFX_PAGE_MASK = NOT (DFX_PAGE_SIZE - 1)"
definition DFX_MEMPOOL_MIN_TYPE :: u32 where "DFX_MEMPOOL_MIN_TYPE = 4"
definition DFX_MEMPOOL_MAX_TYPE :: u32 where "DFX_MEMPOOL_MAX_TYPE = 10"
definition DFX_MEMPOOL_MAX_BLOCK_SIZE :: u64 where "DFX_MEMPOOL_MAX_BLOCK_SIZE = 1024"
definition DFX_MMAP_TYPE :: u32 where "DFX_MMAP_TYPE = 111"
definition DFX_MEMPOOLS_NUM :: nat where "DFX_MEMPOOLS_NUM = 7"
definition DFX_MEM_PAGE_SIGN :: "u8 list" where "DFX_MEM_PAGE_SIGN = [0x44, 0x46, 0x58, 1]"

text \<open>The size of \<^verbatim>\<open>PageInfo\<close> on a 64-bit system.\<close>

definition sizeof_PageInfo :: u64 where "sizeof_PageInfo = 48"
definition PAGE_INFO_SIZE :: u64 where
  "PAGE_INFO_SIZE = ((sizeof_PageInfo + ALIGN_SIZE - 1) AND NOT (ALIGN_SIZE - 1))"

definition PageInfo_zero :: PageInfo where
  "PageInfo_zero = \<lparr>pi_tagInfo = [0, 0, 0, 0], pi_type = 0, pi_union = Tag_mMapAllocSize 0, pi_prev = 0, pi_next = 0,
    pi_freeBlockList = 0, pi_freeBlocksCnt = 0\<rparr>"

definition BlockInfo_zero :: BlockInfo where "BlockInfo_zero = \<lparr>bi_next = 0, bi_freeBlocksCnt = 0\<rparr>"

section \<open>Memory\<close>

definition PageStart :: "u64 \<Rightarrow> u64" where "PageStart addr = (addr AND DFX_PAGE_MASK)"

definition PageEnd :: "u64 \<Rightarrow> u64" where "PageEnd addr = PageStart (addr + (DFX_PAGE_SIZE - 1))"

definition AlignRoundUp :: "u64 \<Rightarrow> u64 \<Rightarrow> u64" where
  "AlignRoundUp val align = (let sz = (if align = 0 then 1 else align) in ((val + sz - 1) AND NOT (sz - 1)))"

definition in_range :: "u64 \<Rightarrow> u64 \<Rightarrow> u64 \<Rightarrow> bool" where
  "in_range a n x \<longleftrightarrow> x - a < n"

definition fill :: "u64 \<Rightarrow> u64 \<Rightarrow> 'a \<Rightarrow> (u64 \<Rightarrow> 'a) \<Rightarrow> u64 \<Rightarrow> 'a" where
  "fill a n v f x = (if in_range a n x then v else f x)"

definition memset0 :: "u64 \<Rightarrow> u64 \<Rightarrow> DfxAllocator \<Rightarrow> DfxAllocator" where
  "memset0 a n h = h\<lparr>h_block := fill a n BlockInfo_zero (h_block h), h_bytes := fill a n 0 (h_bytes h)\<rparr>"

definition memcpy :: "u64 \<Rightarrow> u64 \<Rightarrow> u64 \<Rightarrow> DfxAllocator \<Rightarrow> DfxAllocator" where
  "memcpy d a n h = h\<lparr>h_bytes := (\<lambda>x. if in_range d n x then h_bytes h (a + (x - d)) else h_bytes h x)\<rparr>"

definition mmap :: "u64 \<Rightarrow> u64 \<Rightarrow> DfxAllocator \<Rightarrow> DfxAllocator" where
  "mmap p n h = (memset0 p n h)\<lparr>h_map := (h_map h)(p \<mapsto> n), h_page := (h_page h)(p \<mapsto> PageInfo_zero)\<rparr>"

text \<open>Only a whole mapping is ever given back.\<close>

definition munmap :: "u64 \<Rightarrow> u64 \<Rightarrow> DfxAllocator \<Rightarrow> DfxAllocator option" where
  "munmap p n h =
    (if h_map h p = Some n then Some (h\<lparr>h_map := (h_map h)(p := None), h_page := (h_page h)(p := None)\<rparr>) else None)"

definition upd_page :: "u64 \<Rightarrow> (PageInfo \<Rightarrow> PageInfo) \<Rightarrow> DfxAllocator \<Rightarrow> DfxAllocator option" where
  "upd_page p f h = (case h_page h p of None \<Rightarrow> None | Some g \<Rightarrow> Some (h\<lparr>h_page := (h_page h)(p \<mapsto> f g)\<rparr>))"

text \<open>The \<open>n\<close> bytes at \<open>a\<close> are in the page of \<open>a\<close>, behind its header.\<close>

definition in_page :: "u64 \<Rightarrow> u64 \<Rightarrow> DfxAllocator \<Rightarrow> bool" where
  "in_page a n h \<longleftrightarrow> h_page h (PageStart a) \<noteq> None \<and> sizeof_PageInfo \<le> a - PageStart a
    \<and> n \<le> DFX_PAGE_SIZE - (a - PageStart a)"

definition get_block :: "u64 \<Rightarrow> DfxAllocator \<Rightarrow> BlockInfo option" where
  "get_block a h = (if in_page a 16 h then Some (h_block h a) else None)"

definition put_block :: "u64 \<Rightarrow> BlockInfo \<Rightarrow> DfxAllocator \<Rightarrow> DfxAllocator option" where
  "put_block a b h = (if in_page a 16 h then Some (h\<lparr>h_block := (h_block h)(a := b)\<rparr>) else None)"

definition upd_mempool :: "nat \<Rightarrow> (DfxMempool \<Rightarrow> DfxMempool) \<Rightarrow> DfxAllocator \<Rightarrow> DfxAllocator" where
  "upd_mempool i f h = h\<lparr>a_dfxMempoolBuf := (a_dfxMempoolBuf h)[i := f (a_dfxMempoolBuf h ! i)]\<rparr>"

section \<open>Page lists\<close>

definition AddPage :: "u64 \<Rightarrow> u64 \<Rightarrow> DfxAllocator \<Rightarrow> (u64 \<times> DfxAllocator) option" where
  "AddPage pageList page h =
    (if page = 0 then Some (pageList, h)
     else do {
       h1 \<leftarrow> upd_page page (\<lambda>g. g\<lparr>pi_next := pageList, pi_prev := 0\<rparr>) h;
       h2 \<leftarrow> (if pageList \<noteq> 0 then upd_page pageList (\<lambda>g. g\<lparr>pi_prev := page\<rparr>) h1 else Some h1);
       Some (page, h2)
     })"

definition RemovePage :: "u64 \<Rightarrow> u64 \<Rightarrow> DfxAllocator \<Rightarrow> (u64 \<times> DfxAllocator) option" where
  "RemovePage pageList page h =
    (if page = 0 then Some (pageList, h)
     else do {
       g0 \<leftarrow> h_page h page;
       h1 \<leftarrow> (if pi_prev g0 \<noteq> 0 then upd_page (pi_prev g0) (\<lambda>g. g\<lparr>pi_next := pi_next g0\<rparr>) h else Some h);
       g1 \<leftarrow> h_page h1 page;
       h2 \<leftarrow> (if pi_next g1 \<noteq> 0 then upd_page (pi_next g1) (\<lambda>g. g\<lparr>pi_prev := pi_prev g1\<rparr>) h1 else Some h1);
       g2 \<leftarrow> h_page h2 page;
       h3 \<leftarrow> upd_page page (\<lambda>g. g\<lparr>pi_prev := 0, pi_next := 0\<rparr>) h2;
       Some (if pageList = page then pi_next g2 else pageList, h3)
     })"

definition MempoolAddPage :: "nat \<Rightarrow> u64 \<Rightarrow> DfxAllocator \<Rightarrow> DfxAllocator option" where
  "MempoolAddPage i page h = do {
     (l, h1) \<leftarrow> AddPage (mp_pageList (a_dfxMempoolBuf h ! i)) page h;
     Some (upd_mempool i (\<lambda>m. m\<lparr>mp_pageList := l\<rparr>) h1)
   }"

definition MempoolRemovePage :: "nat \<Rightarrow> u64 \<Rightarrow> DfxAllocator \<Rightarrow> DfxAllocator option" where
  "MempoolRemovePage i page h = do {
     (l, h1) \<leftarrow> RemovePage (mp_pageList (a_dfxMempoolBuf h ! i)) page h;
     Some (upd_mempool i (\<lambda>m. m\<lparr>mp_pageList := l\<rparr>) h1)
   }"

section \<open>Pools\<close>

definition MempoolAllocPage :: "u64 option \<Rightarrow> nat \<Rightarrow> DfxAllocator \<Rightarrow> DfxAllocator option" where
  "MempoolAllocPage mptr i h =
    (case mptr of
       None \<Rightarrow> Some h
     | Some page \<Rightarrow> do {
         let m = a_dfxMempoolBuf h ! i;
         h1 \<leftarrow> upd_page page (\<lambda>g. g\<lparr>pi_tagInfo := DFX_MEM_PAGE_SIGN, pi_type := mp_type m, pi_union := Tag_mempool i,
           pi_freeBlocksCnt := mp_blocksPerPage m\<rparr>) (mmap page DFX_PAGE_SIZE h);
         let firstBlock = AlignRoundUp (page + sizeof_PageInfo) (mp_blockSize m);
         b \<leftarrow> get_block firstBlock h1;
         h2 \<leftarrow> put_block firstBlock (b\<lparr>bi_freeBlocksCnt := mp_blocksPerPage m\<rparr>) h1;
         h3 \<leftarrow> upd_page page (\<lambda>g. g\<lparr>pi_freeBlockList := firstBlock\<rparr>) h2;
         h4 \<leftarrow> MempoolAddPage i page h3;
         Some (upd_mempool i (\<lambda>m. m\<lparr>mp_freePagesCnt := mp_freePagesCnt m + 1\<rparr>) h4)
       })"

definition MempoolFreePage :: "nat \<Rightarrow> u64 \<Rightarrow> DfxAllocator \<Rightarrow> DfxAllocator option" where
  "MempoolFreePage i page h = do {
     g \<leftarrow> h_page h page;
     if pi_freeBlocksCnt g \<noteq> mp_blocksPerPage (a_dfxMempoolBuf h ! i) then Some h
     else do {
       h1 \<leftarrow> MempoolRemovePage i page h;
       h2 \<leftarrow> munmap page DFX_PAGE_SIZE h1;
       Some (upd_mempool i (\<lambda>m. m\<lparr>mp_freePagesCnt := mp_freePagesCnt m - 1\<rparr>) h2)
     }
   }"

definition take_block :: "nat \<Rightarrow> u64 \<Rightarrow> u64 \<Rightarrow> DfxAllocator \<Rightarrow> DfxAllocator option" where
  "take_block i page block h = do {
     let bs = mp_blockSize (a_dfxMempoolBuf h ! i);
     b \<leftarrow> get_block block h;
     if 1 < bi_freeBlocksCnt b then do {
       h1 \<leftarrow> put_block (block + bs) \<lparr>bi_next = bi_next b, bi_freeBlocksCnt = bi_freeBlocksCnt b - 1\<rparr> h;
       upd_page page (\<lambda>g. g\<lparr>pi_freeBlockList := block + bs\<rparr>) h1
     }
     else upd_page page (\<lambda>g. g\<lparr>pi_freeBlockList := bi_next b\<rparr>) h
   }"

definition take_first :: "nat \<Rightarrow> DfxAllocator \<Rightarrow> (u64 \<times> DfxAllocator) option" where
  "take_first i h =
    (let page = mp_pageList (a_dfxMempoolBuf h ! i) in
     if page = 0 then Some (0, h)
     else do {
       g \<leftarrow> h_page h page;
       let block = pi_freeBlockList g;
       if block = 0 then Some (0, h)
       else do {
         h1 \<leftarrow> take_block i page block h;
         let h2 = (if pi_freeBlocksCnt g = mp_blocksPerPage (a_dfxMempoolBuf h1 ! i)
           then upd_mempool i (\<lambda>m. m\<lparr>mp_freePagesCnt := mp_freePagesCnt m - 1\<rparr>) h1 else h1);
         h3 \<leftarrow> (if 0 < pi_freeBlocksCnt g then upd_page page (\<lambda>g. g\<lparr>pi_freeBlocksCnt := pi_freeBlocksCnt g - 1\<rparr>) h2
           else Some h2);
         h4 \<leftarrow> (if in_page block (mp_blockSize (a_dfxMempoolBuf h3 ! i)) h3
           then Some (memset0 block (mp_blockSize (a_dfxMempoolBuf h3 ! i)) h3) else None);
         g' \<leftarrow> h_page h4 page;
         h5 \<leftarrow> (if pi_freeBlocksCnt g' = 0 then MempoolRemovePage i page h4 else Some h4);
         Some (block, h5)
       }
     })"

definition MempoolAlloc :: "u64 option \<Rightarrow> nat \<Rightarrow> DfxAllocator \<Rightarrow> (u64 \<times> DfxAllocator) option" where
  "MempoolAlloc mptr i h =
    (if mp_blockSize (a_dfxMempoolBuf h ! i) = 0 then Some (0, h)
     else do {
       h1 \<leftarrow> (if mp_pageList (a_dfxMempoolBuf h ! i) = 0 then MempoolAllocPage mptr i h else Some h);
       take_first i h1
     })"

definition MempoolFree :: "nat \<Rightarrow> u64 \<Rightarrow> DfxAllocator \<Rightarrow> DfxAllocator option" where
  "MempoolFree i ptr h =
    (let page = PageStart ptr; bs = mp_blockSize (a_dfxMempoolBuf h ! i) in
     if ptr = 0 \<or> bs = 0 \<or> ptr mod bs \<noteq> 0 then Some h
     else do {
       h1 \<leftarrow> (if in_page ptr bs h then Some (memset0 ptr bs h) else None);
       g \<leftarrow> h_page h1 page;
       h2 \<leftarrow> put_block ptr \<lparr>bi_next = pi_freeBlockList g, bi_freeBlocksCnt = 1\<rparr> h1;
       h3 \<leftarrow> upd_page page (\<lambda>g. g\<lparr>pi_freeBlockList := ptr, pi_freeBlocksCnt := pi_freeBlocksCnt g + 1\<rparr>) h2;
       g' \<leftarrow> h_page h3 page;
       if pi_freeBlocksCnt g' = mp_blocksPerPage (a_dfxMempoolBuf h3 ! i) then
         (let h4 = upd_mempool i (\<lambda>m. m\<lparr>mp_freePagesCnt := mp_freePagesCnt m + 1\<rparr>) h3
          in if 1 \<le> mp_freePagesCnt (a_dfxMempoolBuf h4 ! i) then MempoolFreePage i page h4 else Some h4)
       else if pi_freeBlocksCnt g' = 1 then MempoolAddPage i page h3
       else Some h3
     })"

section \<open>The allocator\<close>

function SelectMempoolType_loop :: "u64 \<Rightarrow> u32 \<Rightarrow> u32" where
  "SelectMempoolType_loop n res = (if n = 0 then res else SelectMempoolType_loop (drop_bit 1 n) (res + 1))"
  by pat_completeness auto

termination SelectMempoolType_loop
  by (relation "measure (\<lambda>(n, res). unat n)") (auto simp: drop_bit_Suc unat_div unat_gt_0)

definition SelectMempoolType :: "u64 \<Rightarrow> u32" where
  "SelectMempoolType num = SelectMempoolType_loop (num - 1) 0"

definition InitDfxAllocator :: "DfxAllocator \<Rightarrow> DfxAllocator" where
  "InitDfxAllocator h = h\<lparr>a_initFlag := 1, a_dfxMempoolBuf := map (\<lambda>i.
     let type = of_nat i + DFX_MEMPOOL_MIN_TYPE; blockSize = push_bit (unat type) 1
     in \<lparr>mp_type = type, mp_blockSize = blockSize, mp_blocksPerPage = (DFX_PAGE_SIZE - sizeof_PageInfo) div blockSize,
         mp_freePagesCnt = 0, mp_pageList = 0\<rparr>) [0..<DFX_MEMPOOLS_NUM]\<rparr>"

definition GetPageUnchecked :: "u64 \<Rightarrow> u64" where
  "GetPageUnchecked ptr = PageStart (ptr - PAGE_INFO_SIZE)"

text \<open>Reading the tag of a page without a header is undefined.\<close>

definition GetPage :: "u64 \<Rightarrow> DfxAllocator \<Rightarrow> u64 option" where
  "GetPage ptr h = do {
     g \<leftarrow> h_page h (GetPageUnchecked ptr);
     Some (if pi_tagInfo g \<noteq> DFX_MEM_PAGE_SIGN then 0 else GetPageUnchecked ptr)
   }"

definition AllocMmap :: "u64 option \<Rightarrow> u64 \<Rightarrow> u64 \<Rightarrow> DfxAllocator \<Rightarrow> (u64 \<times> DfxAllocator) option" where
  "AllocMmap mptr align sz h =
    (let headSize = AlignRoundUp PAGE_INFO_SIZE align; (overflow, allocSize) = add_overflow headSize sz in
     if overflow \<or> PageEnd allocSize < allocSize then Some (0, h)
     else
       (case mptr of
          None \<Rightarrow> Some (0, h)
        | Some p \<Rightarrow> do {
            let result = p + headSize;
            let page = GetPageUnchecked result;
            h1 \<leftarrow> upd_page page (\<lambda>g. g\<lparr>pi_tagInfo := DFX_MEM_PAGE_SIGN, pi_type := DFX_MMAP_TYPE,
              pi_union := Tag_mMapAllocSize (PageEnd allocSize), pi_prev := 0, pi_next := 0, pi_freeBlockList := 0,
              pi_freeBlocksCnt := 0\<rparr>) (mmap p (PageEnd allocSize) h);
            (l, h2) \<leftarrow> AddPage (a_pageList h1) page h1;
            Some (result, h2\<lparr>a_pageList := l\<rparr>)
          }))"

definition AllocImpl :: "u64 option \<Rightarrow> u64 \<Rightarrow> u64 \<Rightarrow> DfxAllocator \<Rightarrow> (u64 \<times> DfxAllocator) option" where
  "AllocImpl mptr align sz h0 =
    (let h = (if a_initFlag h0 = 0 then InitDfxAllocator h0 else h0) in
     if DFX_MEMPOOL_MAX_BLOCK_SIZE < sz then AllocMmap mptr align sz h
     else
       (let type = SelectMempoolType sz;
            type = (if type < DFX_MEMPOOL_MIN_TYPE then DFX_MEMPOOL_MIN_TYPE else type)
        in MempoolAlloc mptr (unat (type - DFX_MEMPOOL_MIN_TYPE)) h))"

definition DfxAlloc :: "u64 option \<Rightarrow> u64 \<Rightarrow> DfxAllocator \<Rightarrow> (u64 \<times> DfxAllocator) option" where
  "DfxAlloc mptr sz h = AllocImpl mptr ALIGN_SIZE (if sz = 0 then 1 else sz) h"

definition is_pool_type :: "u32 \<Rightarrow> bool" where
  "is_pool_type t \<longleftrightarrow> DFX_MEMPOOL_MIN_TYPE \<le> t \<and> t \<le> DFX_MEMPOOL_MAX_TYPE"

fun mMapAllocSize :: "TagUnion \<Rightarrow> u64 option" where
  "mMapAllocSize (Tag_mMapAllocSize n) = Some n"
| "mMapAllocSize (Tag_mempool i) = None"

definition GetChunkSize :: "u64 \<Rightarrow> DfxAllocator \<Rightarrow> u64 option" where
  "GetChunkSize ptr h =
    (if ptr = 0 then Some 0
     else do {
       page \<leftarrow> GetPage ptr h;
       if page = 0 then Some 0
       else do {
         g \<leftarrow> h_page h page;
         if pi_type g \<noteq> DFX_MMAP_TYPE \<and> \<not> is_pool_type (pi_type g) then Some 0
         else if pi_type g = DFX_MMAP_TYPE then do { n \<leftarrow> mMapAllocSize (pi_union g); Some (n - (ptr - page)) }
         else Some (mp_blockSize (a_dfxMempoolBuf h ! unat (pi_type g - DFX_MEMPOOL_MIN_TYPE)))
       }
     })"

definition DfxFree :: "u64 \<Rightarrow> DfxAllocator \<Rightarrow> DfxAllocator option" where
  "DfxFree ptr h =
    (if a_initFlag h = 0 \<or> ptr = 0 then Some h
     else do {
       page \<leftarrow> GetPage ptr h;
       if page = 0 then Some h
       else do {
         g \<leftarrow> h_page h page;
         if pi_type g = DFX_MMAP_TYPE then do {
           (l, h1) \<leftarrow> RemovePage (a_pageList h) page h;
           n \<leftarrow> mMapAllocSize (pi_union g);
           munmap page n (h1\<lparr>a_pageList := l\<rparr>)
         }
         else if is_pool_type (pi_type g) then MempoolFree (unat (pi_type g - DFX_MEMPOOL_MIN_TYPE)) ptr h
         else Some h
       }
     })"

definition DfxRealloc :: "u64 option \<Rightarrow> u64 \<Rightarrow> u64 \<Rightarrow> DfxAllocator \<Rightarrow> (u64 \<times> DfxAllocator) option" where
  "DfxRealloc mptr ptr sz h0 =
    (let h = (if a_initFlag h0 = 0 then InitDfxAllocator h0 else h0) in
     if ptr = 0 then DfxAlloc mptr sz h
     else if sz = 0 then Some (0, h)
     else do {
       oldsize \<leftarrow> GetChunkSize ptr h;
       if oldsize = 0 then Some (0, h)
       else if oldsize < sz then do {
         (res, h1) \<leftarrow> DfxAlloc mptr sz h;
         if res \<noteq> 0 then do { h2 \<leftarrow> DfxFree ptr (memcpy res ptr oldsize h1); Some (res, h2) } else Some (ptr, h1)
       }
       else Some (ptr, h)
     })"

definition HookCalloc :: "u64 option \<Rightarrow> u64 \<Rightarrow> u64 \<Rightarrow> DfxAllocator \<Rightarrow> (u64 \<times> DfxAllocator) option" where
  "HookCalloc mptr count sz h = DfxAlloc mptr (count * sz) h"

definition IsDfxAllocatorMem :: "u64 \<Rightarrow> DfxAllocator \<Rightarrow> int option" where
  "IsDfxAllocatorMem ptr h =
    (if ptr = 0 then Some 0 else do { page \<leftarrow> GetPage ptr h; Some (if page \<noteq> 0 then 1 else 0) })"

text \<open>Before the first use.\<close>

definition g_dfxAllocator :: DfxAllocator where
  "g_dfxAllocator = \<lparr>a_initFlag = 0, a_pageList = 0, 
    a_dfxMempoolBuf = replicate DFX_MEMPOOLS_NUM \<lparr>mp_type = 0, mp_blockSize = 0, mp_blocksPerPage = 0, mp_freePagesCnt = 0, mp_pageList = 0\<rparr>,
    h_map = Map.empty, h_page = Map.empty,
    h_block = (\<lambda>_. BlockInfo_zero), h_bytes = (\<lambda>_. 0)\<rparr>"

section \<open>Vocabulary of the page lists\<close>

definition aligned :: "u64 \<Rightarrow> bool" where "aligned p \<longleftrightarrow> 4096 dvd unat p"

definition bsize :: "nat \<Rightarrow> nat" where "bsize i = 2 ^ (4 + i)"

definition cap :: "nat \<Rightarrow> nat" where "cap i = 4048 div bsize i"

definition off :: "nat \<Rightarrow> nat" where "off i = 4096 - cap i * bsize i"

definition blk :: "nat \<Rightarrow> u64 \<Rightarrow> nat \<Rightarrow> u64" where "blk i p k = p + of_nat (off i + k * bsize i)"

definition link :: "DfxAllocator \<Rightarrow> u64 \<Rightarrow> (u64 \<times> u64) option" where
  "link h p = map_option (\<lambda>g. (pi_prev g, pi_next g)) (h_page h p)"

definition body :: "DfxAllocator \<Rightarrow> u64 \<Rightarrow> PageInfo option" where
  "body h p = map_option (\<lambda>g. g\<lparr>pi_prev := 0, pi_next := 0\<rparr>) (h_page h p)"

fun seg :: "(u64 \<Rightarrow> (u64 \<times> u64) option) \<Rightarrow> u64 \<Rightarrow> u64 \<Rightarrow> u64 list \<Rightarrow> u64 \<Rightarrow> bool" where
  "seg L q a [] m \<longleftrightarrow> a = m"
| "seg L q a (x # xs) m \<longleftrightarrow> a = x \<and> x \<noteq> 0 \<and> (\<exists>n. L x = Some (q, n) \<and> seg L x n xs m)"

definition end_of :: "u64 \<Rightarrow> u64 list \<Rightarrow> u64" where "end_of q ys = (if ys = [] then q else last ys)"

abbreviation dll :: "(u64 \<Rightarrow> (u64 \<times> u64) option) \<Rightarrow> u64 \<Rightarrow> u64 list \<Rightarrow> bool" where
  "dll L a xs \<equiv> seg L 0 a xs 0"

text \<open>Everything but the links of pages.\<close>

definition unlinked :: "DfxAllocator \<Rightarrow> DfxAllocator \<Rightarrow> bool" where
  "unlinked h h' \<longleftrightarrow> (\<exists>P. h' = h\<lparr>h_page := P\<rparr>) \<and> body h' = body h"

section \<open>Addresses and page lists\<close>

lemma and_not_low: "(a :: u64) AND NOT (2 ^ n - 1) = a - a mod 2 ^ n"
proof -
  have "a AND NOT (mask n) = a - take_bit n a"
  proof -
    have "a = (a AND NOT (mask n)) + (a AND mask n)"
      by (subst disjunctive_add) (auto simp: bit_simps intro!: bit_eqI)
    then show ?thesis by (simp add: take_bit_eq_mask algebra_simps)
  qed
  then show ?thesis by (simp add: mask_eq_exp_minus_1 take_bit_eq_mod)
qed

lemma PageStart_eq: "PageStart a = a - a mod 4096"
  using and_not_low[of a 12] by (simp add: PageStart_def DFX_PAGE_MASK_def DFX_PAGE_SIZE_def)

lemma unat_page: assumes "aligned p" "k < 4096" shows "unat (p + of_nat k) = unat p + k"
proof -
  from assms(1) obtain q where q: "unat p = 4096 * q" by (auto simp: aligned_def)
  have "unat p < 2 ^ 64" using unsigned_less[of p] by simp
  with q have "q < 2 ^ 52" by simp
  with q assms(2) have "unat p + k < 2 ^ 64" by simp
  then show ?thesis using assms(2) by (simp add: unat_word_ariths unat_of_nat)
qed

lemma PageStart_in: assumes "aligned p" "k < 4096" shows "PageStart (p + of_nat k) = p"
proof -
  have "(p + of_nat k) mod 4096 = of_nat k"
    using unat_page[OF assms] assms by (intro word_unat_eq_iff[THEN iffD2]) (auto simp: unat_mod unat_of_nat aligned_def dvd_def)
  then show ?thesis by (simp add: PageStart_eq)
qed

lemma pool_cases: "i < 7 \<Longrightarrow> i = 0 \<or> i = 1 \<or> i = 2 \<or> i = 3 \<or> i = 4 \<or> i = 5 \<or> i = (6 :: nat)" by linarith

lemma pool_layout:
  assumes "i < 7"
  shows "48 \<le> off i" "off i + cap i * bsize i = 4096" "bsize i dvd off i" "16 \<le> bsize i" "bsize i dvd 4096" "3 \<le> cap i" "cap i \<le> 253"
    "bsize i \<le> 1024" "16 dvd bsize i"
  using pool_cases[OF assms] by (auto simp: off_def cap_def bsize_def)

lemma blk_bound: "i < 7 \<Longrightarrow> k < cap i \<Longrightarrow> off i + k * bsize i + bsize i \<le> 4096"
  using pool_layout(2)[of i] mult_le_mono1[of "Suc k" "cap i" "bsize i"] by simp

lemma blk_page:
  assumes "i < 7" "aligned p" "k < cap i"
  shows "PageStart (blk i p k) = p" "unat (blk i p k) = unat p + off i + k * bsize i"
    "blk i p k - p = of_nat (off i + k * bsize i)"
  using blk_bound[OF assms(1,3)] pool_layout(4)[OF assms(1)] PageStart_in[OF assms(2)] unat_page[OF assms(2)]
  by (simp_all add: blk_def add.assoc del: of_nat_add of_nat_mult)

lemma seg_cong: "(\<And>x. x \<in> set xs \<Longrightarrow> L x = L' x) \<Longrightarrow> seg L q a xs m = seg L' q a xs m"
  by (induction xs arbitrary: q a) auto

lemma seg_nz: "seg L q a xs m \<Longrightarrow> 0 \<notin> set xs" by (induction xs arbitrary: q a) auto

lemma seg_dom: "seg L q a xs m \<Longrightarrow> x \<in> set xs \<Longrightarrow> L x \<noteq> None" by (induction xs arbitrary: q a) auto

lemma seg_hd: "seg L q a xs m \<Longrightarrow> a = (if xs = [] then m else hd xs)" by (cases xs) auto

lemma seg_append: "seg L q a (ys @ zs) m \<longleftrightarrow> (\<exists>n. seg L q a ys n \<and> seg L (end_of q ys) n zs m)"
  by (induction ys arbitrary: q a) (auto simp: end_of_def)

lemma link_upd: "h_page h p = Some g \<Longrightarrow> link (h\<lparr>h_page := (h_page h)(p \<mapsto> g')\<rparr>) = (link h)(p \<mapsto> (pi_prev g', pi_next g'))"
  by (auto simp: link_def)

lemma body_upd: "h_page h p = Some g \<Longrightarrow> g'\<lparr>pi_prev := 0, pi_next := 0\<rparr> = g\<lparr>pi_prev := 0, pi_next := 0\<rparr> \<Longrightarrow>
  body (h\<lparr>h_page := (h_page h)(p \<mapsto> g')\<rparr>) = body h"
  by (auto simp: body_def)

lemma unlinked_refl: "unlinked h h"
  by (auto simp: unlinked_def intro!: exI[of _ "h_page h"])

lemma unlinked_trans: "unlinked h1 h2 \<Longrightarrow> unlinked h2 h3 \<Longrightarrow> unlinked h1 h3"
  by (auto simp: unlinked_def)

lemma upd_links:
  assumes "link h p = Some (a, b)" "\<And>g. (f g)\<lparr>pi_prev := 0, pi_next := 0\<rparr> = g\<lparr>pi_prev := 0, pi_next := 0\<rparr>"
    "\<And>g. pi_prev g = a \<Longrightarrow> pi_next g = b \<Longrightarrow> (pi_prev (f g), pi_next (f g)) = c"
  shows "\<exists>h'. upd_page p f h = Some h' \<and> link h' = (link h)(p \<mapsto> c) \<and> unlinked h h'"
proof -
  from assms(1) obtain g where g: "h_page h p = Some g" "pi_prev g = a" "pi_next g = b" by (auto simp: link_def)
  then show ?thesis
    using assms(2)[of g] assms(3)[OF g(2,3)] link_upd[OF g(1), of "f g"] body_upd[OF g(1), of "f g"]
    by (auto simp: upd_page_def unlinked_def)
qed

lemma AddPage_dll:
  assumes "dll (link h) a xs" "p \<notin> set xs" "p \<noteq> 0" "link h p \<noteq> None" "distinct xs"
  shows "\<exists>h'. AddPage a p h = Some (p, h') \<and> dll (link h') p (p # xs) \<and> unlinked h h' \<and> (\<forall>q. q \<notin> set (p # xs) \<longrightarrow> link h' q = link h q)"
proof -
  from assms(4) obtain u v where "link h p = Some (u, v)" by auto
  from upd_links[OF this, of "\<lambda>g. g\<lparr>pi_next := a, pi_prev := 0\<rparr>" "(0, a)"]
  obtain h1 where h1: "upd_page p (\<lambda>g. g\<lparr>pi_next := a, pi_prev := 0\<rparr>) h = Some h1" "link h1 = (link h)(p \<mapsto> (0, a))" "unlinked h h1"
    by auto
  show ?thesis
  proof (cases xs)
    case Nil
    then show ?thesis using assms h1 by (auto simp: AddPage_def)
  next
    case (Cons x ys)
    with assms obtain n where n: "a = x" "x \<noteq> 0" "link h x = Some (0, n)" "seg (link h) x n ys 0" by auto
    with Cons assms(2) h1 have "link h1 x = Some (0, n)" by auto
    from upd_links[OF this, of "\<lambda>g. g\<lparr>pi_prev := p\<rparr>" "(p, n)"]
    obtain h2 where h2: "upd_page x (\<lambda>g. g\<lparr>pi_prev := p\<rparr>) h1 = Some h2" "link h2 = (link h1)(x \<mapsto> (p, n))" "unlinked h1 h2" by auto
    have "seg (link h2) x n ys 0"
      using n(4) assms(2,5) Cons by (subst seg_cong[of _ _ "link h"]) (auto simp: h2 h1)
    then show ?thesis
      using n h1 h2 assms Cons unlinked_trans[OF h1(3) h2(3)] by (auto simp: AddPage_def)
  qed
qed

lemma seg_set_next:
  assumes "seg L q a ys m" "distinct ys" "ys \<noteq> []" "L (last ys) = Some (u, m')"
  shows "seg (L(last ys \<mapsto> (u, n))) q a ys n"
  using assms
proof (induction ys arbitrary: q a)
  case (Cons y ys)
  show ?case
  proof (cases "ys = []")
    case False
    then have "last ys \<noteq> y" using Cons.prems(2) last_in_set[of ys] by auto
    with False Cons show ?thesis by auto
  qed (use Cons in auto)
qed simp

lemma seg_set_prev:
  assumes "seg L q a zs m" "distinct zs" "zs \<noteq> []" "L (hd zs) = Some (u, v)"
  shows "seg (L(hd zs \<mapsto> (q', v))) q' a zs m"
proof (cases zs)
  case (Cons z ws)
  with assms have "seg L z v ws m" "a = z" "z \<noteq> 0" by auto
  moreover from this have "seg (L(z \<mapsto> (q', v))) z v ws m"
    using assms(2) Cons by (subst seg_cong[of _ _ L]) auto
  ultimately show ?thesis using Cons by simp
qed (use assms in simp)

lemma seg_last: "seg L q a ys m \<Longrightarrow> ys \<noteq> [] \<Longrightarrow> \<exists>u. L (last ys) = Some (u, m)"
  by (induction ys arbitrary: q a) (auto split: if_splits)

text \<open>The links after a page was taken out.\<close>

lemma seg_remove:
  assumes "dll L a (ys @ p # zs)" "distinct (ys @ p # zs)" "L p = Some (q, n)"
    and "L1 = (if q \<noteq> 0 then L(q \<mapsto> (fst (the (L q)), n)) else L)"
    and "L2 = (if n \<noteq> 0 then L1(n \<mapsto> (q, snd (the (L1 n)))) else L1)"
  shows "dll (L2(p \<mapsto> (0, 0))) (if a = p then n else a) (ys @ zs)" "q \<noteq> 0 \<Longrightarrow> L q \<noteq> None \<and> q \<in> set ys"
    "n \<noteq> 0 \<Longrightarrow> L n \<noteq> None \<and> n \<in> set zs" "q = end_of 0 ys"
proof -
  from assms(1,3) have s: "seg L 0 a ys p" "seg L p n zs 0" and q: "q = end_of 0 ys" and "p \<noteq> 0"
    by (auto simp: seg_append)
  note hd = seg_hd[OF s(1)] seg_hd[OF s(2)] and nz = seg_nz[OF s(1)] seg_nz[OF s(2)]
  have qy: "q \<noteq> 0 \<longleftrightarrow> ys \<noteq> []" and nzs: "n \<noteq> 0 \<longleftrightarrow> zs \<noteq> []"
  proof -
    have "ys \<noteq> [] \<Longrightarrow> last ys \<noteq> 0" "zs \<noteq> [] \<Longrightarrow> hd zs \<noteq> 0"
      using nz last_in_set[of ys] hd_in_set[of zs] by metis+
    then show "q \<noteq> 0 \<longleftrightarrow> ys \<noteq> []" "n \<noteq> 0 \<longleftrightarrow> zs \<noteq> []" using q hd by (auto simp: end_of_def)
  qed
  show "q \<noteq> 0 \<Longrightarrow> L q \<noteq> None \<and> q \<in> set ys" "n \<noteq> 0 \<Longrightarrow> L n \<noteq> None \<and> n \<in> set zs" "q = end_of 0 ys"
    using q qy nzs hd(2) seg_dom[OF s(1)] seg_dom[OF s(2)] by (auto simp: end_of_def)
  have y1: "seg L1 0 (if a = p then n else a) ys n"
  proof (cases "ys = []")
    case False
    obtain u where u: "L (last ys) = Some (u, p)" using seg_last[OF s(1) False] by auto
    have "a \<noteq> p" using hd(1) False assms(2) by auto
    then show ?thesis
      using seg_set_next[OF s(1) _ False u, of n] False assms(2,4) q qy u by (auto simp: end_of_def)
  qed (use hd in simp)
  have "ys \<noteq> [] \<Longrightarrow> last ys \<notin> set zs" using assms(2) by (metis IntI distinct_append empty_iff last_in_set list.set_intros(2))
  then have z1: "seg L1 p n zs 0"
    using s(2) assms(2,4) q qy by (subst seg_cong[of _ _ L]) (auto simp: end_of_def)
  have y2: "seg L2 0 (if a = p then n else a) ys n"
    using y1 assms(2,5) nzs hd(2) by (subst seg_cong[of _ _ L1]) (auto dest: hd_in_set)
  have z2: "seg L2 q n zs 0"
  proof (cases "zs = []")
    case False
    obtain u v where "L1 (hd zs) = Some (u, v)" using seg_dom[OF z1, of "hd zs"] False by force
    then show ?thesis
      using seg_set_prev[OF z1 _ False, of u v q] False assms(2,5) nzs hd(2) by auto
  qed (use z1 in simp)
  have "seg L2 0 (if a = p then n else a) (ys @ zs) 0"
    using y2 z2 q by (auto simp: seg_append)
  then show "dll (L2(p \<mapsto> (0, 0))) (if a = p then n else a) (ys @ zs)"
    using assms(2) by (subst seg_cong[of _ _ L2]) auto
qed

lemma RemovePage_dll:
  assumes "dll (link h) a xs" "distinct xs" "p \<in> set xs"
  shows "\<exists>a' h'. RemovePage a p h = Some (a', h') \<and> dll (link h') a' (remove1 p xs) \<and> unlinked h h'
    \<and> (\<forall>q. q \<notin> set xs \<longrightarrow> link h' q = link h q)"
proof -
  from assms(3) obtain ys zs where xs: "xs = ys @ p # zs" by (auto simp: in_set_conv_decomp)
  with assms(2) have r: "remove1 p xs = ys @ zs" and np: "p \<notin> set ys" "p \<notin> set zs" by (auto simp: remove1_append)
  from seg_dom[OF assms(1,3)] obtain q n where L: "link h p = Some (q, n)" by auto
  then obtain g0 where g0: "h_page h p = Some g0" "pi_prev g0 = q" "pi_next g0 = n" by (auto simp: link_def)
  note sr = seg_remove[OF assms(1)[unfolded xs] assms(2)[unfolded xs] L refl refl]
  have p0: "p \<noteq> 0" using seg_nz[OF assms(1)] assms(3) by metis
  define L1 where "L1 = (if q \<noteq> 0 then (link h)(q \<mapsto> (fst (the (link h q)), n)) else link h)"
  define L2 where "L2 = (if n \<noteq> 0 then L1(n \<mapsto> (q, snd (the (L1 n)))) else L1)"
  obtain h1 where h1: "(if q \<noteq> 0 then upd_page q (\<lambda>g. g\<lparr>pi_next := n\<rparr>) h else Some h) = Some h1" "link h1 = L1" "unlinked h h1"
  proof (cases "q = 0")
    case False
    with sr(2) obtain u v where "link h q = Some (u, v)" by auto
    from upd_links[OF this, of "\<lambda>g. g\<lparr>pi_next := n\<rparr>" "(u, n)"] show ?thesis
      using that False \<open>link h q = Some (u, v)\<close> by (auto simp: L1_def)
  qed (use that unlinked_refl in \<open>auto simp: L1_def\<close>)
  have L1p: "link h1 p = Some (q, n)" using L sr(2) np h1(2) by (auto simp: L1_def)
  then obtain g1 where g1: "h_page h1 p = Some g1" "pi_prev g1 = q" "pi_next g1 = n" by (auto simp: link_def)
  obtain h2 where h2: "(if n \<noteq> 0 then upd_page n (\<lambda>g. g\<lparr>pi_prev := q\<rparr>) h1 else Some h1) = Some h2" "link h2 = L2" "unlinked h1 h2"
  proof (cases "n = 0")
    case False
    with sr(3) have "link h1 n \<noteq> None" using h1(2) by (simp add: L1_def)
    then obtain u v where "link h1 n = Some (u, v)" by auto
    from upd_links[OF this, of "\<lambda>g. g\<lparr>pi_prev := q\<rparr>" "(q, v)"] show ?thesis
      using that False \<open>link h1 n = Some (u, v)\<close> h1(2) by (auto simp: L2_def)
  qed (use that h1 unlinked_refl in \<open>auto simp: L2_def\<close>)
  have L2p: "link h2 p = Some (q, n)" using L1p sr(3) np h1(2) h2(2) by (auto simp: L2_def)
  then obtain g2 where g2: "h_page h2 p = Some g2" "pi_next g2 = n" by (auto simp: link_def)
  from upd_links[OF L2p, of "\<lambda>g. g\<lparr>pi_prev := 0, pi_next := 0\<rparr>" "(0, 0)"]
  obtain h3 where h3: "upd_page p (\<lambda>g. g\<lparr>pi_prev := 0, pi_next := 0\<rparr>) h2 = Some h3" "link h3 = L2(p \<mapsto> (0, 0))" "unlinked h2 h3"
    using h2(2) by auto
  have "RemovePage a p h = Some (if a = p then n else a, h3)"
    using p0 g0 g1 g2 h1(1) h2(1) h3(1) by (cases "q = 0"; cases "n = 0") (auto simp: RemovePage_def)
  moreover have "\<forall>x. x \<notin> set xs \<longrightarrow> link h3 x = link h x"
    using sr(2,3) xs by (auto simp: h3(2) L2_def L1_def)
  ultimately show ?thesis
    using sr(1) r unlinked_trans[OF h1(3) unlinked_trans[OF h2(3) h3(3)]] h3(2)
    by (auto simp: L1_def L2_def)
qed

end
