(* ===== verification/Alloc_Inv.thy ===== *)
theory Alloc_Inv
  imports Allocator
begin

text \<open>
  The invariant of the allocator.  A ghost map \<open>G\<close> says of every mapping whether it is a page of pool \<open>i\<close>, of which the
  blocks below \<open>f\<close> were handed out once and those in \<open>ks\<close> were returned, or one large block.  \<open>winv\<close> ties it to the
  headers, the chains of free blocks and the page lists; the lemmas show that taking a block and adding a page keep it.
\<close>

section \<open>Vocabulary\<close>

datatype gpage = Pool nat "nat list" nat | Big

fun block_chain :: "(u64 \<Rightarrow> BlockInfo) \<Rightarrow> nat \<Rightarrow> u64 \<Rightarrow> nat \<Rightarrow> nat list \<Rightarrow> u64 \<Rightarrow> bool" where
  "block_chain B i p f [] a \<longleftrightarrow>
    (if f < cap i then a = blk i p f \<and> B a = \<lparr>bi_next = 0, bi_freeBlocksCnt = of_nat (cap i - f)\<rparr> else a = 0)"
| "block_chain B i p f (k # ks) a \<longleftrightarrow> a = blk i p k \<and> bi_freeBlocksCnt (B a) = 1 \<and> block_chain B i p f ks (bi_next (B a))"

fun page_ok :: "PageInfo \<Rightarrow> u64 \<Rightarrow> (u64 \<Rightarrow> BlockInfo) \<Rightarrow> u64 \<Rightarrow> gpage \<Rightarrow> bool" where
  "page_ok g n B p (Pool i ks f) \<longleftrightarrow> i < 7 \<and> f \<le> cap i \<and> distinct ks \<and> set ks \<subseteq> {..<f} \<and> n = 4096
    \<and> pi_tagInfo g = DFX_MEM_PAGE_SIGN \<and> pi_type g = of_nat (4 + i)
    \<and> pi_freeBlocksCnt g = of_nat (length ks + (cap i - f)) \<and> block_chain B i p f ks (pi_freeBlockList g)"
| "page_ok g n B p Big \<longleftrightarrow> pi_tagInfo g = DFX_MEM_PAGE_SIGN \<and> pi_type g = DFX_MMAP_TYPE \<and> pi_union g = Tag_mMapAllocSize n"

definition maps_ok :: "(u64 \<Rightarrow> u64 option) \<Rightarrow> bool" where
  "maps_ok M \<longleftrightarrow> (\<forall>p n. M p = Some n \<longrightarrow> aligned p \<and> p \<noteq> 0 \<and> 4096 \<le> unat n \<and> unat p + unat n \<le> 2 ^ 64)
    \<and> (\<forall>p q n m. p \<noteq> q \<longrightarrow> M p = Some n \<longrightarrow> M q = Some m \<longrightarrow> unat p + unat n \<le> unat q \<or> unat q + unat m \<le> unat p)"

definition pool_ok :: "nat \<Rightarrow> DfxMempool \<Rightarrow> bool" where
  "pool_ok i m \<longleftrightarrow> mp_type m = of_nat (4 + i) \<and> mp_blockSize m = of_nat (bsize i) \<and> mp_blocksPerPage m = of_nat (cap i)"

definition pages_ok :: "DfxAllocator \<Rightarrow> (u64 \<Rightarrow> gpage option) \<Rightarrow> bool" where
  "pages_ok h G \<longleftrightarrow> dom (h_page h) = dom G \<and> dom (h_map h) = dom G
    \<and> (\<forall>p x. G p = Some x \<longrightarrow> (\<exists>g n. h_page h p = Some g \<and> h_map h p = Some n \<and> page_ok g n (h_block h) p x))"

fun has_free :: "nat \<Rightarrow> gpage option \<Rightarrow> bool" where
  "has_free i (Some (Pool j ks f)) \<longleftrightarrow> i = j \<and> 0 < length ks + (cap j - f)"
| "has_free i _ \<longleftrightarrow> False"

definition lists_ok :: "DfxAllocator \<Rightarrow> (u64 \<Rightarrow> gpage option) \<Rightarrow> (nat \<Rightarrow> u64 list) \<Rightarrow> u64 list \<Rightarrow> bool" where
  "lists_ok h G ls bl \<longleftrightarrow>
    (\<forall>i < 7. dll (link h) (mp_pageList (a_dfxMempoolBuf h ! i)) (ls i) \<and> distinct (ls i) \<and> set (ls i) = {p. has_free i (G p)})
    \<and> dll (link h) (a_pageList h) bl \<and> distinct bl \<and> set bl = {p. G p = Some Big}"

definition winv :: "DfxAllocator \<Rightarrow> (u64 \<Rightarrow> gpage option) \<Rightarrow> (nat \<Rightarrow> u64 list) \<Rightarrow> u64 list \<Rightarrow> bool" where
  "winv h G ls bl \<longleftrightarrow> a_initFlag h \<noteq> 0 \<and> length (a_dfxMempoolBuf h) = 7 \<and> (\<forall>i < 7. pool_ok i (a_dfxMempoolBuf h ! i))
    \<and> maps_ok (h_map h) \<and> pages_ok h G \<and> lists_ok h G ls bl"

fun live_in :: "u64 \<Rightarrow> gpage \<Rightarrow> u64 set" where
  "live_in p (Pool i ks f) = blk i p ` ({..<f} - set ks)"
| "live_in p Big = {p + 48}"

definition live_blocks :: "(u64 \<Rightarrow> gpage option) \<Rightarrow> u64 set" where
  "live_blocks G = {r. \<exists>p x. G p = Some x \<and> r \<in> live_in p x}"

definition fresh :: "u64 \<Rightarrow> u64 \<Rightarrow> (u64 \<Rightarrow> u64 option) \<Rightarrow> bool" where
  "fresh p n M \<longleftrightarrow> aligned p \<and> p \<noteq> 0 \<and> unat p + unat n \<le> 2 ^ 64
    \<and> (\<forall>q m. M q = Some m \<longrightarrow> unat p + unat n \<le> unat q \<or> unat q + unat m \<le> unat p)"

section \<open>Lemmas\<close>

lemma in_range_iff: "unat a + unat n \<le> 2 ^ 64 \<Longrightarrow> in_range a n x \<longleftrightarrow> unat a \<le> unat x \<and> unat x < unat a + unat n"
proof -
  assume n: "unat a + unat n \<le> 2 ^ 64"
  show ?thesis
  proof (cases "a \<le> x")
    case True
    then have "unat (x - a) = unat x - unat a" "unat a \<le> unat x" by (simp_all add: unat_sub word_le_nat_alt)
    then show ?thesis by (auto simp: in_range_def word_less_nat_alt)
  next
    case False
    then have "unat x < unat a" by (simp add: word_le_nat_alt)
    then have "unat (x - a) = 2 ^ 64 + unat x - unat a" by (simp add: unat_sub_if')
    with n \<open>unat x < unat a\<close> show ?thesis by (auto simp: in_range_def word_less_nat_alt)
  qed
qed

lemma aligned_top: "aligned p \<Longrightarrow> unat p + 4096 \<le> 2 ^ 64"
proof -
  assume "aligned p"
  then obtain q where "unat p = 4096 * q" by (auto simp: aligned_def)
  moreover have "unat p < 2 ^ 64" using unsigned_less[of p] by simp
  ultimately show ?thesis by simp
qed

lemma aligned_apart: "aligned p \<Longrightarrow> aligned q \<Longrightarrow> p \<noteq> q \<Longrightarrow> unat p + 4096 \<le> unat q \<or> unat q + 4096 \<le> unat p"
  by (auto simp: aligned_def dvd_def word_unat_eq_iff)

lemma in_range_blk:
  assumes "i < 7" "aligned p" "k < cap i"
  shows "in_range (blk i p k) (of_nat (bsize i)) x \<longleftrightarrow>
    unat p + off i + k * bsize i \<le> unat x \<and> unat x < unat p + off i + k * bsize i + bsize i"
proof -
  have "unat (of_nat (bsize i) :: u64) = bsize i" using pool_layout(8)[OF assms(1)] by (simp add: unat_of_nat)
  then show ?thesis
    using in_range_iff[of "blk i p k" "of_nat (bsize i)" x] blk_page(2)[OF assms] blk_bound[OF assms(1,3)] aligned_top[OF assms(2)]
    by simp
qed

lemma blk_apart:
  assumes "i < 7" "aligned p" "k < cap i" "j < 7" "aligned q" "m < cap j" "p \<noteq> q \<or> i = j \<and> k \<noteq> m"
  shows "\<not> in_range (blk i p k) (of_nat (bsize i)) (blk j q m)"
proof (cases "p = q")
  case True
  with assms have ij: "i = j" "k < m \<or> m < k" by auto
  define x y where "x = k * bsize i" and "y = m * bsize i"
  have "x + bsize i \<le> y \<or> y + bsize i \<le> x"
    using ij(2) mult_le_mono1[of "Suc k" m "bsize i"] mult_le_mono1[of "Suc m" k "bsize i"] by (auto simp: x_def y_def)
  moreover have "unat (blk i p m) = unat p + off i + y" using blk_page(2)[OF assms(1,2), of m] assms(6) ij(1) by (simp add: y_def)
  moreover have "0 < bsize i" using pool_layout(4)[OF assms(1)] by simp
  ultimately show ?thesis
    unfolding in_range_blk[OF assms(1-3)] True[symmetric] ij(1)[symmetric] x_def[symmetric] by linarith
next
  case False
  then have "unat p + 4096 \<le> unat q \<or> unat q + 4096 \<le> unat p" by (rule aligned_apart[OF assms(2,5)])
  moreover note blk_bound[OF assms(1,3)] blk_bound[OF assms(4,6)] blk_page(2)[OF assms(4-6)] pool_layout(4)[OF assms(4)]
  ultimately show ?thesis
    unfolding in_range_blk[OF assms(1-3)] by linarith
qed

lemma blk_Suc: "blk i p k + of_nat (bsize i) = blk i p (Suc k)" by (simp add: blk_def algebra_simps)

lemma blk_inj:
  assumes "i < 7" "aligned p" "k < cap i" "m < cap i"
  shows "blk i p k = blk i p m \<longleftrightarrow> k = m"
proof
  assume "blk i p k = blk i p m"
  then have "k * bsize i = m * bsize i" using blk_page(2)[OF assms(1-3)] blk_page(2)[OF assms(1,2,4)] by (metis add_left_cancel)
  then show "k = m" using pool_layout(4)[OF assms(1)] by simp
qed simp

lemma blk_nz: "i < 7 \<Longrightarrow> aligned p \<Longrightarrow> k < cap i \<Longrightarrow> blk i p k \<noteq> 0"
  using blk_page(2)[of i p k] pool_layout(1)[of i] by (metis add_is_0 le_zero_eq unat_0 zero_neq_numeral)

lemma in_page_blk:
  assumes "i < 7" "aligned p" "k < cap i" "h_page h p \<noteq> None" "unat n \<le> bsize i"
  shows "in_page (blk i p k) n h"
proof -
  have "unat (of_nat (off i + k * bsize i) :: u64) = off i + k * bsize i"
    using blk_bound[OF assms(1,3)] pool_layout(4)[OF assms(1)] by (simp add: unat_of_nat del: of_nat_add of_nat_mult)
  moreover from this have "unat (4096 - of_nat (off i + k * bsize i) :: u64) = 4096 - (off i + k * bsize i)"
    using blk_bound[OF assms(1,3)] by (simp add: unat_sub word_le_nat_alt del: of_nat_add of_nat_mult)
  ultimately show ?thesis
    using blk_page(1,3)[OF assms(1-3)] blk_bound[OF assms(1,3)] pool_layout(1)[OF assms(1)] assms(4,5)
    by (simp add: in_page_def word_le_nat_alt sizeof_PageInfo_def DFX_PAGE_SIZE_def del: of_nat_add of_nat_mult)
qed

lemma chain_cong:
  assumes "\<And>j. j \<in> set ks \<or> j = f \<and> f < cap i \<Longrightarrow> B (blk i p j) = B' (blk i p j)"
  shows "block_chain B i p f ks a \<longleftrightarrow> block_chain B' i p f ks a"
  using assms
proof (induction ks arbitrary: a)
  case Nil
  show ?case
  proof (cases "f < cap i")
    case True
    then have "B (blk i p f) = B' (blk i p f)" using Nil[of f] by blast
    with True show ?thesis by (metis block_chain.simps(1))
  qed simp
next
  case (Cons k ks)
  have "B (blk i p k) = B' (blk i p k)" by (rule Cons.prems) simp
  moreover have "block_chain B i p f ks x = block_chain B' i p f ks x" for x
    by (rule Cons.IH) (rule Cons.prems, auto)
  ultimately show ?case by (metis block_chain.simps(2))
qed

lemma chain_head:
  "block_chain B i p f ks a \<Longrightarrow> 0 < length ks + (cap i - f) \<Longrightarrow> a = blk i p (if ks = [] then f else hd ks)"
  by (cases ks) auto

lemma page_ok_cong:
  assumes "page_ok g n B p x" "\<And>i ks f k. x = Pool i ks f \<Longrightarrow> k < cap i \<Longrightarrow> B' (blk i p k) = B (blk i p k)"
  shows "page_ok g n B' p x"
proof (cases x)
  case (Pool i ks f)
  with assms(1) have "set ks \<subseteq> {..<f}" "f \<le> cap i" by auto
  then have "block_chain B' i p f ks (pi_freeBlockList g) = block_chain B i p f ks (pi_freeBlockList g)"
    using assms(2)[OF Pool] by (intro chain_cong) auto
  with assms(1) Pool show ?thesis by simp
qed (use assms in simp)

lemma page_ok_links:
  "g\<lparr>pi_prev := 0, pi_next := 0\<rparr> = g'\<lparr>pi_prev := 0, pi_next := 0\<rparr> \<Longrightarrow> page_ok g n B p x \<longleftrightarrow> page_ok g' n B p x"
  by (cases g; cases g'; cases x) auto

lemma unlinked_dom: "unlinked h h' \<Longrightarrow> h_page h' p = None \<longleftrightarrow> h_page h p = None"
  by (auto simp: unlinked_def body_def dest: fun_cong[of _ _ p])

lemma unlinked_page_ok:
  assumes "unlinked h h'" "h_page h p = Some g" "h_page h' p = Some g'"
  shows "page_ok g' n B p x \<longleftrightarrow> page_ok g n B p x"
proof -
  have "body h' p = body h p" using assms(1) by (simp add: unlinked_def)
  then show ?thesis using assms(2,3) by (intro page_ok_links) (simp add: body_def)
qed

lemma unlinked_same:
  assumes "unlinked h h'"
  shows "h_map h' = h_map h" "h_block h' = h_block h" "h_bytes h' = h_bytes h" "a_dfxMempoolBuf h' = a_dfxMempoolBuf h"
    "a_pageList h' = a_pageList h" "a_initFlag h' = a_initFlag h" "dom (h_page h') = dom (h_page h)"
  using assms unlinked_dom[OF assms] by (auto simp: unlinked_def dom_def)

lemma pages_okD:
  assumes "pages_ok h G" "G p = Some x"
  shows "\<exists>g n. h_page h p = Some g \<and> h_map h p = Some n \<and> page_ok g n (h_block h) p x"
  using assms unfolding pages_ok_def by blast

lemma pages_okI:
  assumes "dom (h_page h) = dom G" "dom (h_map h) = dom G"
    "\<And>p x. G p = Some x \<Longrightarrow> \<exists>g n. h_page h p = Some g \<and> h_map h p = Some n \<and> page_ok g n (h_block h) p x"
  shows "pages_ok h G"
  using assms unfolding pages_ok_def by blast

lemma pages_ok_dom: "pages_ok h G \<Longrightarrow> dom (h_page h) = dom G \<and> dom (h_map h) = dom G"
  by (simp add: pages_ok_def)

lemma pages_ok_unlinked:
  assumes "pages_ok h G" "unlinked h h'"
  shows "pages_ok h' G"
proof (rule pages_okI)
  fix p x assume "G p = Some x"
  from pages_okD[OF assms(1) this] obtain g n where g: "h_page h p = Some g" "h_map h p = Some n" "page_ok g n (h_block h) p x" by blast
  moreover from g(1) obtain g' where "h_page h' p = Some g'" using unlinked_dom[OF assms(2), of p] by fastforce
  ultimately show "\<exists>g n. h_page h' p = Some g \<and> h_map h' p = Some n \<and> page_ok g n (h_block h') p x"
    using unlinked_page_ok[OF assms(2) g(1)] unlinked_same(1,2)[OF assms(2)] by auto
qed (use pages_ok_dom[OF assms(1)] unlinked_same[OF assms(2)] in simp_all)

lemma pages_ok_upd:
  assumes "pages_ok h G" "h_page h p = Some g" "h_map h p = Some n"
    and "h_map h' = h_map h" "h_page h' = (h_page h)(p \<mapsto> g')" "page_ok g' n (h_block h') p x"
    and "\<And>q i ks f k. q \<noteq> p \<Longrightarrow> G q = Some (Pool i ks f) \<Longrightarrow> k < cap i \<Longrightarrow> h_block h' (blk i q k) = h_block h (blk i q k)"
  shows "pages_ok h' (G(p \<mapsto> x))"
proof (rule pages_okI)
  have d: "p \<in> dom G" using pages_ok_dom[OF assms(1)] assms(2) by blast
  show "dom (h_page h') = dom (G(p \<mapsto> x))" "dom (h_map h') = dom (G(p \<mapsto> x))"
    using pages_ok_dom[OF assms(1)] d assms(4,5) by (simp_all add: insert_absorb)
  fix q y assume y: "(G(p \<mapsto> x)) q = Some y"
  show "\<exists>g n. h_page h' q = Some g \<and> h_map h' q = Some n \<and> page_ok g n (h_block h') q y"
  proof (cases "q = p")
    case False
    with y have "G q = Some y" by simp
    from pages_okD[OF assms(1) this] obtain g n where "h_page h q = Some g" "h_map h q = Some n" "page_ok g n (h_block h) q y" by blast
    moreover from this(3) have "page_ok g n (h_block h') q y"
      by (rule page_ok_cong) (use assms(7)[OF False] \<open>G q = Some y\<close> in blast)
    ultimately show ?thesis using False assms(4,5) by simp
  qed (use y assms(3-6) in simp)
qed

lemma pages_ok_pool:
  assumes "pages_ok h G" "maps_ok (h_map h)" "G p = Some (Pool i ks f)" "h_page h p = Some g"
  shows "h_map h p = Some 4096" "page_ok g 4096 (h_block h) p (Pool i ks f)" "aligned p" "p \<noteq> 0" "i < 7"
proof -
  from pages_okD[OF assms(1,3)] assms(4) obtain n where n: "h_map h p = Some n" "page_ok g n (h_block h) p (Pool i ks f)" by auto
  then show "h_map h p = Some 4096" "page_ok g 4096 (h_block h) p (Pool i ks f)" "i < 7" by auto
  show "aligned p" "p \<noteq> 0" using assms(2) n(1) unfolding maps_ok_def by blast+
qed

lemma pool_aligned: "pages_ok h G \<Longrightarrow> maps_ok (h_map h) \<Longrightarrow> G p = Some x \<Longrightarrow> aligned p \<and> p \<noteq> 0"
  using pages_okD[of h G p x] unfolding maps_ok_def by blast

lemma pool_lt:
  assumes "pages_ok h G" "G p = Some (Pool i ks f)"
  shows "i < 7" "f \<le> cap i" "set ks \<subseteq> {..<f}" "distinct ks"
  using pages_okD[OF assms] by auto

text \<open>Taking the first free block of a page.\<close>

lemma take_block_ok:
  assumes "page_ok g 4096 (h_block h) p (Pool i ks f)" "aligned p" "h_page h p = Some g" "pool_ok i (a_dfxMempoolBuf h ! i)"
    and "0 < length ks + (cap i - f)"
  shows "\<exists>k ks' f' B' a. pi_freeBlockList g = blk i p k \<and> k < f' \<and> f' \<le> cap i \<and> k \<notin> set ks' \<and> distinct ks' \<and> set ks' \<subseteq> {..<f'}
    \<and> {..<f'} - set ks' = insert k ({..<f} - set ks) \<and> k \<notin> {..<f} - set ks
    \<and> length ks' + (cap i - f') = length ks + (cap i - f) - 1
    \<and> take_block i p (blk i p k) h = Some (h\<lparr>h_block := B', h_page := (h_page h)(p \<mapsto> g\<lparr>pi_freeBlockList := a\<rparr>)\<rparr>)
    \<and> block_chain B' i p f' ks' a \<and> (\<forall>x. (\<forall>j < cap i. x \<noteq> blk i p j) \<longrightarrow> B' x = h_block h x)"
proof -
  from assms(1) have i: "i < 7" "f \<le> cap i" "distinct ks" "set ks \<subseteq> {..<f}" and c: "block_chain (h_block h) i p f ks (pi_freeBlockList g)" by auto
  have bs: "mp_blockSize (a_dfxMempoolBuf h ! i) = of_nat (bsize i)" using assms(4) by (simp add: pool_ok_def)
  have ip: "k < cap i \<Longrightarrow> in_page (blk i p k) 16 h" for k
    using in_page_blk[OF i(1) assms(2), of k h 16] assms(3) pool_layout(4)[OF i(1)] by simp
  show ?thesis
  proof (cases ks)
    case (Cons k ks')
    then have k: "pi_freeBlockList g = blk i p k" "bi_freeBlocksCnt (h_block h (blk i p k)) = 1"
      "block_chain (h_block h) i p f ks' (bi_next (h_block h (blk i p k)))" "k < f" "k \<notin> set ks'" "set ks' \<subseteq> {..<f}" using c i by auto
    then have "take_block i p (blk i p k) h = Some (h\<lparr>h_block := h_block h,
        h_page := (h_page h)(p \<mapsto> g\<lparr>pi_freeBlockList := bi_next (h_block h (blk i p k))\<rparr>)\<rparr>)"
      using ip[of k] i(2) assms(3) by (simp add: take_block_def get_block_def upd_page_def Let_def)
    then show ?thesis
      using k i Cons by (intro exI[of _ k] exI[of _ ks'] exI[of _ f] exI[of _ "h_block h"]) auto
  next
    case Nil
    with assms(5) c have f: "f < cap i" "pi_freeBlockList g = blk i p f"
      "h_block h (blk i p f) = \<lparr>bi_next = 0, bi_freeBlocksCnt = of_nat (cap i - f)\<rparr>" by auto
    have cnt: "unat (of_nat (cap i - f) :: u64) = cap i - f" using pool_layout(7)[OF i(1)] by (simp add: unat_of_nat)
    show ?thesis
    proof (cases "Suc f < cap i")
      case True
      define c c' :: u64 where "c = of_nat (cap i - f)" and "c' = of_nat (cap i - Suc f)"
      define b where "b = \<lparr>bi_next = 0, bi_freeBlocksCnt = c'\<rparr>"
      have c: "1 < c" "c - 1 = c'" "h_block h (blk i p f) = \<lparr>bi_next = 0, bi_freeBlocksCnt = c\<rparr>"
        using True cnt f(3) by (simp_all add: c_def c'_def word_less_nat_alt of_nat_diff)
      then have "take_block i p (blk i p f) h = Some (h\<lparr>h_block := (h_block h)(blk i p (Suc f) := b),
          h_page := (h_page h)(p \<mapsto> g\<lparr>pi_freeBlockList := blk i p (Suc f)\<rparr>)\<rparr>)"
        using ip[of f] ip[of "Suc f"] True assms(3) bs
        by (simp add: take_block_def get_block_def put_block_def upd_page_def Let_def blk_Suc b_def)
      then show ?thesis
        using f True Nil i(2) by (intro exI[of _ f] exI[of _ "[]"] exI[of _ "Suc f"]) (auto simp: b_def c'_def lessThan_Suc)
    next
      case False
      with f have "cap i = Suc f" by simp
      moreover from this have "take_block i p (blk i p f) h = Some (h\<lparr>h_block := h_block h,
          h_page := (h_page h)(p \<mapsto> g\<lparr>pi_freeBlockList := 0\<rparr>)\<rparr>)"
        using ip[of f] f assms(3) by (simp add: take_block_def get_block_def upd_page_def Let_def)
      ultimately show ?thesis
        using f Nil by (intro exI[of _ f] exI[of _ "[]"] exI[of _ "Suc f"] exI[of _ "h_block h"] exI[of _ 0]) (auto simp: lessThan_Suc)
    qed
  qed
qed

lemma winvD:
  assumes "winv h G ls bl"
  shows "a_initFlag h \<noteq> 0" "length (a_dfxMempoolBuf h) = 7" "\<And>i. i < 7 \<Longrightarrow> pool_ok i (a_dfxMempoolBuf h ! i)" "maps_ok (h_map h)"
    "pages_ok h G" "lists_ok h G ls bl"
  using assms by (auto simp: winv_def)

lemma lists_okD:
  assumes "lists_ok h G ls bl"
  shows "\<And>i. i < 7 \<Longrightarrow> dll (link h) (mp_pageList (a_dfxMempoolBuf h ! i)) (ls i)" "\<And>i. i < 7 \<Longrightarrow> distinct (ls i)"
    "\<And>i. i < 7 \<Longrightarrow> set (ls i) = {p. has_free i (G p)}" "dll (link h) (a_pageList h) bl" "distinct bl" "set bl = {p. G p = Some Big}"
  using assms by (auto simp: lists_ok_def)

lemma lists_apart:
  assumes "lists_ok h G ls bl" "i < 7" "j < 7" "i \<noteq> j"
  shows "set (ls i) \<inter> set (ls j) = {}" "set (ls i) \<inter> set bl = {}"
  using lists_okD(3)[OF assms(1)] lists_okD(6)[OF assms(1)] assms(2-4)
  by (auto elim!: has_free.elims)

text \<open>A page list may change when the others keep their links.\<close>

lemma lists_ok_pool:
  assumes "lists_ok h G ls bl" "i < 7" "dll (link h') (mp_pageList (a_dfxMempoolBuf h' ! i)) xs" "distinct xs" "set xs = {p. has_free i (G' p)}"
    and "\<And>j. j < 7 \<Longrightarrow> j \<noteq> i \<Longrightarrow> mp_pageList (a_dfxMempoolBuf h' ! j) = mp_pageList (a_dfxMempoolBuf h ! j)" "a_pageList h' = a_pageList h"
    and "\<And>q. G q = Some Big \<or> (\<exists>j < 7. j \<noteq> i \<and> has_free j (G q)) \<Longrightarrow> link h' q = link h q"
    and "\<And>q j. j < 7 \<Longrightarrow> j \<noteq> i \<Longrightarrow> has_free j (G' q) = has_free j (G q)" "\<And>q. G' q = Some Big \<longleftrightarrow> G q = Some Big"
  shows "lists_ok h' G' (ls(i := xs)) bl"
proof -
  note d = lists_okD[OF assms(1)]
  have "dll (link h') (mp_pageList (a_dfxMempoolBuf h' ! j)) (ls j)" if "j < 7" "j \<noteq> i" for j
  proof -
    have "seg (link h') 0 (mp_pageList (a_dfxMempoolBuf h ! j)) (ls j) 0 = seg (link h) 0 (mp_pageList (a_dfxMempoolBuf h ! j)) (ls j) 0"
      using d(3)[OF that(1)] that by (intro seg_cong assms(8)) blast
    then show ?thesis using d(1)[OF that(1)] assms(6)[OF that] by simp
  qed
  moreover have "seg (link h') 0 (a_pageList h) bl 0 = seg (link h) 0 (a_pageList h) bl 0"
    using d(6) by (intro seg_cong assms(8)) blast
  ultimately show ?thesis
    using d(2,3,4,5,6) assms(2-5,7,9,10) by (auto simp: lists_ok_def)
qed

lemma upd_mempool_nth: "i < length (a_dfxMempoolBuf h) \<Longrightarrow>
  a_dfxMempoolBuf (upd_mempool i f h) ! j = (if j = i then f (a_dfxMempoolBuf h ! i) else a_dfxMempoolBuf h ! j)"
  by (simp add: upd_mempool_def nth_list_update)

lemma upd_mempool_same [simp]:
  "h_map (upd_mempool i f h) = h_map h" "h_page (upd_mempool i f h) = h_page h" "h_block (upd_mempool i f h) = h_block h"
  "h_bytes (upd_mempool i f h) = h_bytes h" "a_pageList (upd_mempool i f h) = a_pageList h" "a_initFlag (upd_mempool i f h) = a_initFlag h"
  "length (a_dfxMempoolBuf (upd_mempool i f h)) = length (a_dfxMempoolBuf h)" "link (upd_mempool i f h) = link h"
  by (simp_all add: upd_mempool_def link_def fun_eq_iff)

lemma pages_ok_frame:
  "h_map h' = h_map h \<Longrightarrow> h_page h' = h_page h \<Longrightarrow> h_block h' = h_block h \<Longrightarrow> pages_ok h' G = pages_ok h G"
  by (simp add: pages_ok_def)

text \<open>Counters of pools play no part in the invariant.\<close>

lemma winv_counter:
  assumes "winv h G ls bl" "i < 7"
  shows "winv (upd_mempool i (\<lambda>m. m\<lparr>mp_freePagesCnt := c m\<rparr>) h) G ls bl"
  using assms by (auto simp: winv_def lists_ok_def pool_ok_def upd_mempool_nth pages_ok_frame[of "upd_mempool i _ h" h])

lemma MempoolRemovePage_ok:
  assumes "length (a_dfxMempoolBuf h) = 7" "i < 7" "dll (link h) (mp_pageList (a_dfxMempoolBuf h ! i)) xs" "distinct xs" "p \<in> set xs"
  shows "\<exists>h' l h1. MempoolRemovePage i p h = Some h' \<and> h' = upd_mempool i (\<lambda>m. m\<lparr>mp_pageList := l\<rparr>) h1 \<and> unlinked h h1
    \<and> dll (link h') l (remove1 p xs) \<and> (\<forall>q. q \<notin> set xs \<longrightarrow> link h' q = link h q)"
proof -
  from RemovePage_dll[OF assms(3-5)] obtain l h1 where r: "RemovePage (mp_pageList (a_dfxMempoolBuf h ! i)) p h = Some (l, h1)"
    "dll (link h1) l (remove1 p xs)" "unlinked h h1" "\<forall>q. q \<notin> set xs \<longrightarrow> link h1 q = link h q" by blast
  then show ?thesis
    by (intro exI[of _ "upd_mempool i (\<lambda>m. m\<lparr>mp_pageList := l\<rparr>) h1"] exI[of _ l] exI[of _ h1]) (simp add: MempoolRemovePage_def)
qed

lemma MempoolAddPage_ok:
  assumes "length (a_dfxMempoolBuf h) = 7" "i < 7" "dll (link h) (mp_pageList (a_dfxMempoolBuf h ! i)) xs" "distinct xs" "p \<notin> set xs"
    "p \<noteq> 0" "h_page h p \<noteq> None"
  shows "\<exists>h' h1. MempoolAddPage i p h = Some h' \<and> h' = upd_mempool i (\<lambda>m. m\<lparr>mp_pageList := p\<rparr>) h1 \<and> unlinked h h1
    \<and> dll (link h') p (p # xs) \<and> (\<forall>q. q \<notin> set (p # xs) \<longrightarrow> link h' q = link h q)"
proof -
  have "link h p \<noteq> None" using assms(7) by (simp add: link_def)
  from AddPage_dll[OF assms(3,5,6) this assms(4)] obtain h1 where r: "AddPage (mp_pageList (a_dfxMempoolBuf h ! i)) p h = Some (p, h1)"
    "dll (link h1) p (p # xs)" "unlinked h h1" "\<forall>q. q \<notin> set (p # xs) \<longrightarrow> link h1 q = link h q" by blast
  then show ?thesis
    by (intro exI[of _ "upd_mempool i (\<lambda>m. m\<lparr>mp_pageList := p\<rparr>) h1"] exI[of _ h1]) (simp add: MempoolAddPage_def)
qed

lemma live_upd:
  assumes "G p = Some y" "live_in p y' = insert r (live_in p y)"
  shows "live_blocks (G(p \<mapsto> y')) = insert r (live_blocks G)"
proof (rule set_eqI)
  fix x
  show "x \<in> live_blocks (G(p \<mapsto> y')) \<longleftrightarrow> x \<in> insert r (live_blocks G)"
  proof
    assume "x \<in> live_blocks (G(p \<mapsto> y'))"
    then obtain q z where q: "(G(p \<mapsto> y')) q = Some z" "x \<in> live_in q z" by (auto simp: live_blocks_def)
    show "x \<in> insert r (live_blocks G)"
    proof (cases "q = p")
      case True
      then have "x = r \<or> x \<in> live_in p y" using q assms(2) by simp
      then show ?thesis using assms(1) by (auto simp: live_blocks_def)
    next
      case False
      then have "G q = Some z" using q(1) by simp
      then show ?thesis using q(2) by (auto simp: live_blocks_def)
    qed
  next
    assume "x \<in> insert r (live_blocks G)"
    then consider "x = r" | q z where "G q = Some z" "x \<in> live_in q z" by (auto simp: live_blocks_def)
    then show "x \<in> live_blocks (G(p \<mapsto> y'))"
    proof cases
      case 1
      then have "(G(p \<mapsto> y')) p = Some y' \<and> x \<in> live_in p y'" using assms(2) by simp
      then show ?thesis unfolding live_blocks_def by blast
    next
      case 2
      then have "(G(p \<mapsto> y')) q = Some (if q = p then y' else z) \<and> x \<in> live_in q (if q = p then y' else z)"
        using assms by (cases "q = p") simp_all
      then show ?thesis unfolding live_blocks_def by blast
    qed
  qed
qed

lemma live_in_page:
  assumes "pages_ok h G" "maps_ok (h_map h)" "G p = Some x" "r \<in> live_in p x"
  shows "PageStart (r - 48) = p" "PageStart r = p"
proof -
  note a = pool_aligned[OF assms(1-3), THEN conjunct1]
  have "PageStart (r - 48) = p \<and> PageStart r = p"
  proof (cases x)
    case (Pool i ks f)
    with assms(4) obtain k where k: "r = blk i p k" "k < f" by auto
    with pool_lt[OF assms(1), of p i ks f] assms(3) Pool have i: "i < 7" "k < cap i" by auto
    define o' where "o' = off i + k * bsize i"
    have o: "48 \<le> o'" "o' < 4096" using pool_layout(1,4)[OF i(1)] blk_bound[OF i] by (auto simp: o'_def)
    have "r - 48 = p + of_nat (o' - 48)" using k(1) o(1) by (simp add: blk_def o'_def[symmetric] of_nat_diff algebra_simps del: of_nat_add of_nat_mult)
    moreover have "r = p + of_nat o'" using k(1) by (simp add: blk_def o'_def)
    ultimately show ?thesis using PageStart_in[OF a, of "o' - 48"] PageStart_in[OF a, of o'] o by (metis diff_le_self le_less_trans)
  next
    case Big
    with assms(4) have "r = p + of_nat 48" by simp
    then show ?thesis using PageStart_in[OF a, of 0] PageStart_in[OF a, of 48] by simp
  qed
  then show "PageStart (r - 48) = p" "PageStart r = p" by auto
qed

lemma take_first_ok:
  assumes w: "winv h G ls bl" and i: "i < 7" and ne: "mp_pageList (a_dfxMempoolBuf h ! i) \<noteq> 0"
  shows "\<exists>r h' p ks f ks' f' ls'. take_first i h = Some (r, h') \<and> G p = Some (Pool i ks f) \<and> winv h' (G(p \<mapsto> Pool i ks' f')) ls' bl
    \<and> r \<noteq> 0 \<and> r \<notin> live_blocks G \<and> live_blocks (G(p \<mapsto> Pool i ks' f')) = insert r (live_blocks G) \<and> r \<in> live_in p (Pool i ks' f') \<and> h_map h' = h_map h
    \<and> h_bytes h' = fill r (of_nat (bsize i)) 0 (h_bytes h)"
proof -
  note d = winvD[OF w] and l = lists_okD[OF winvD(6)[OF w]]
  obtain p xs where xs: "ls i = p # xs" "mp_pageList (a_dfxMempoolBuf h ! i) = p" using l(1)[OF i] ne by (cases "ls i") auto
  then have "has_free i (G p)" using l(3)[OF i] by auto
  then obtain ks f where G: "G p = Some (Pool i ks f)" and free: "0 < length ks + (cap i - f)" by (auto elim!: has_free.elims)
  obtain g where g: "h_page h p = Some g" using pages_okD[OF d(5) G] by auto
  note pp = pages_ok_pool[OF d(5,4) G g]
  define r where "r = pi_freeBlockList g"
  from take_block_ok[OF pp(2,3) g d(3)[OF i] free] obtain k ks' f' B' a where t:
    "r = blk i p k" "k < f'" "f' \<le> cap i" "k \<notin> set ks'" "distinct ks'" "set ks' \<subseteq> {..<f'}"
    "{..<f'} - set ks' = insert k ({..<f} - set ks)" "k \<notin> {..<f} - set ks"
    "length ks' + (cap i - f') = length ks + (cap i - f) - 1"
    "take_block i p r h = Some (h\<lparr>h_block := B', h_page := (h_page h)(p \<mapsto> g\<lparr>pi_freeBlockList := a\<rparr>)\<rparr>)"
    "block_chain B' i p f' ks' a" "\<forall>x. (\<forall>j < cap i. x \<noteq> blk i p j) \<longrightarrow> B' x = h_block h x"
    unfolding r_def by metis
  have k: "k < cap i" using t(2,3) by simp
  define c where "c = length ks + (cap i - f)"
  have cc: "c \<le> cap i" "0 < c" "c < 254"
  proof -
    have "length ks \<le> f" using pool_lt[OF d(5) G] card_mono[of "{..<f}" "set ks"] by (simp add: distinct_card)
    then show "c \<le> cap i" "0 < c" using free pool_lt(2)[OF d(5) G] by (auto simp: c_def)
    then show "c < 254" using pool_layout(7)[OF i] by simp
  qed
  have gc: "pi_freeBlocksCnt g = of_nat c" using pp(2) by (simp add: c_def)
  define g' where "g' = g\<lparr>pi_freeBlockList := a, pi_freeBlocksCnt := of_nat (c - 1)\<rparr>"
  define m where "m = (\<lambda>m :: DfxMempool. m\<lparr>mp_freePagesCnt := (if pi_freeBlocksCnt g = mp_blocksPerPage m then mp_freePagesCnt m - 1 else mp_freePagesCnt m)\<rparr>)"
  define B where "B = fill r (of_nat (bsize i)) BlockInfo_zero B'"
  define h4 where "h4 = (upd_mempool i m h)\<lparr>h_page := (h_page h)(p \<mapsto> g'), h_block := B,
    h_bytes := fill r (of_nat (bsize i)) 0 (h_bytes h)\<rparr>"
  have blks: "blk j q n = blk i p n' \<Longrightarrow> q = p" if "j < 7" "aligned q" "n < cap j" "n' < cap i" for j q n n'
    using blk_page(1)[OF that(1-3)] blk_page(1)[OF i pp(3) that(4)] by metis
  have pg: "page_ok g' 4096 B p (Pool i ks' f')"
  proof -
    have "B (blk i p j) = B' (blk i p j)" if "j \<in> set ks' \<or> j = f' \<and> f' < cap i" for j
    proof -
      have "j < cap i" "k \<noteq> j" using that t(2-4,6) by auto
      then show ?thesis using blk_apart[OF i pp(3) k i pp(3), of j] by (simp add: B_def fill_def t(1))
    qed
    then have "block_chain B i p f' ks' a" using t(11) chain_cong[of ks' f' i B p B' a] by blast
    then show ?thesis using pp(2) t(3,5,6,9) i by (simp add: g'_def c_def del: of_nat_add)
  qed
  have pages: "pages_ok h4 (G(p \<mapsto> Pool i ks' f'))"
  proof (rule pages_ok_upd[OF d(5) g pp(1)])
    show "h_map h4 = h_map h" "h_page h4 = (h_page h)(p \<mapsto> g')" "page_ok g' 4096 (h_block h4) p (Pool i ks' f')"
      using pg by (simp_all add: h4_def)
    fix q j us u n assume q: "q \<noteq> p" "G q = Some (Pool j us u)" "n < cap j"
    note jq = pool_lt(1)[OF d(5) q(2)] pool_aligned[OF d(5,4) q(2), THEN conjunct1]
    have "B' (blk j q n) = h_block h (blk j q n)" using t(12) blks[OF jq q(3)] q(1) by blast
    then show "h_block h4 (blk j q n) = h_block h (blk j q n)"
      using blk_apart[OF i pp(3) k jq q(3)] q(1) by (simp add: h4_def B_def fill_def t(1))
  qed
  have link4: "link h4 = link h" using g by (auto simp: h4_def link_def g'_def fun_eq_iff)
  have run: "take_first i h = (if c = 1 then MempoolRemovePage i p h4 else Some h4) \<bind> (\<lambda>h5. Some (r, h5))"
  proof -
    have "r \<noteq> 0" using blk_nz[OF i pp(3) k] t(1) by simp
    moreover have "\<And>H. h_page H p \<noteq> None \<Longrightarrow> in_page r (of_nat (bsize i)) H"
      using in_page_blk[OF i pp(3) k] pool_layout(8)[OF i] t(1) by (simp add: unat_of_nat)
    moreover have "(0 :: u64) < of_nat c" "(of_nat c - 1 :: u64) = of_nat (c - 1)" "(of_nat (c - 1) = (0 :: u64)) = (c = 1)"
    proof -
      have u: "unat (of_nat n :: u64) = n" if "n < 254" for n using that by (simp add: unat_of_nat)
      show "(0 :: u64) < of_nat c" using u[OF cc(3)] cc(2) by (simp add: word_less_nat_alt)
      have "c - 1 < 254" using cc(3) by simp
      note v = u[OF this]
      show "(of_nat (c - 1) = (0 :: u64)) = (c = 1)"
      proof
        assume "of_nat (c - 1) = (0 :: u64)"
        with v have "c - 1 = 0" by (simp only: unsigned_0)
        with cc(2) show "c = 1" by linarith
      qed simp
      show "(of_nat c - 1 :: u64) = of_nat (c - 1)" using cc(2) by (simp add: of_nat_diff)
    qed
    moreover have "mp_blockSize (a_dfxMempoolBuf h ! i) = of_nat (bsize i)" using d(3)[OF i] by (simp add: pool_ok_def)
    ultimately show ?thesis
      using xs(2) pp(4) g t(10) d(2) i gc r_def
      by (auto simp: take_first_def Let_def upd_page_def memset0_def h4_def B_def g'_def m_def upd_mempool_def nth_list_update)
  qed
  have lv: "live_blocks (G(p \<mapsto> Pool i ks' f')) = insert r (live_blocks G)"
    using t(1,7) by (intro live_upd[where y = "Pool i ks f"] G) simp
  have nl: "r \<notin> live_blocks G"
  proof
    assume "r \<in> live_blocks G"
    then obtain q x where q: "G q = Some x" "r \<in> live_in q x" by (auto simp: live_blocks_def)
    then have "q = p" using live_in_page(2)[OF d(5,4) q] blk_page(1)[OF i pp(3) k] t(1) by simp
    with q G t(1) obtain k' where k': "blk i p k = blk i p k'" "k' \<in> {..<f} - set ks" by auto
    then have "k' < cap i" using pool_lt(2)[OF d(5) G] by auto
    then show False using k' t(8) blk_inj[OF i pp(3) k] by auto
  qed
  have base: "a_initFlag h4 \<noteq> 0" "length (a_dfxMempoolBuf h4) = 7" "\<And>j. j < 7 \<Longrightarrow> pool_ok j (a_dfxMempoolBuf h4 ! j)" "maps_ok (h_map h4)"
    "\<And>j. mp_pageList (a_dfxMempoolBuf h4 ! j) = mp_pageList (a_dfxMempoolBuf h ! j)" "a_pageList h4 = a_pageList h" "h_map h4 = h_map h"
    using d i by (auto simp: h4_def upd_mempool_def m_def pool_ok_def nth_list_update)
  define G' where "G' = G(p \<mapsto> Pool i ks' f')"
  have hf: "has_free j (G' q) = (if q = p then j = i \<and> c \<noteq> 1 else has_free j (G q))" for j q
  proof -
    have "0 < length ks' + (cap i - f') \<longleftrightarrow> c \<noteq> 1" using t(9) cc(2) unfolding c_def by linarith
    then show ?thesis by (simp add: G'_def)
  qed
  have big: "G' q = Some Big \<longleftrightarrow> G q = Some Big" for q using G by (simp add: G'_def)
  note pages = pages[folded G'_def] and lv = lv[folded G'_def]
  have hfp: "has_free j (G p) \<longleftrightarrow> j = i" for j using G free by auto
  have rl: "r \<in> live_in p (Pool i ks' f')" using t(1,2,4) by auto
  have by4: "h_bytes h4 = fill r (of_nat (bsize i)) 0 (h_bytes h)" by (simp add: h4_def)
  show ?thesis
  proof (cases "c = 1")
    case False
    have "lists_ok h4 G' (ls(i := ls i)) bl"
      by (rule lists_ok_pool[OF d(6) i])
        (use l(1-3)[OF i] base link4 False in \<open>auto simp: hf big hfp\<close>)
    then have "winv h4 G' ls bl" using base pages by (simp add: winv_def)
    then show ?thesis
      using run False G nl lv rl by4 base(7) blk_nz[OF i pp(3) k] t(1) unfolding G'_def by auto
  next
    case True
    obtain h5 l1 h1 where h5: "MempoolRemovePage i p h4 = Some h5" "h5 = upd_mempool i (\<lambda>m. m\<lparr>mp_pageList := l1\<rparr>) h1" "unlinked h4 h1"
      "dll (link h5) l1 (remove1 p (ls i))" "\<forall>q. q \<notin> set (ls i) \<longrightarrow> link h5 q = link h4 q"
      using MempoolRemovePage_ok[OF base(2) i, of "ls i" p] l(1,2)[OF i] base(5) link4 xs(1) by auto
    note u = unlinked_same[OF h5(3)]
    have "lists_ok h5 G' (ls(i := remove1 p (ls i))) bl"
    proof (rule lists_ok_pool[OF d(6) i])
      show "dll (link h5) (mp_pageList (a_dfxMempoolBuf h5 ! i)) (remove1 p (ls i))"
        using h5(4) base(2) u i by (simp add: h5(2) upd_mempool_nth)
      show "set (remove1 p (ls i)) = {q. has_free i (G' q)}"
        using l(2,3)[OF i] True by (auto simp: hf)
      show "link h5 q = link h q" if "G q = Some Big \<or> (\<exists>j < 7. j \<noteq> i \<and> has_free j (G q))" for q
      proof -
        have "q \<notin> set (ls i)" using that l(3)[OF i] by (auto elim!: has_free.elims)
        then show ?thesis using h5(5) link4 by simp
      qed
    qed (use l(2)[OF i] base u i in \<open>auto simp: h5(2) upd_mempool_nth hf big hfp\<close>)
    moreover have "pages_ok h5 G'"
      using pages_ok_unlinked[OF pages h5(3)] by (simp add: h5(2) pages_ok_frame[of "upd_mempool _ _ h1" h1])
    ultimately have "winv h5 G' (ls(i := remove1 p (ls i))) bl"
      using base u i by (auto simp: winv_def h5(2) upd_mempool_nth pool_ok_def)
    moreover have "h_map h5 = h_map h" "h_bytes h5 = h_bytes h4" using u base(7) by (simp_all add: h5(2))
    ultimately show ?thesis
      using run True h5(1) G nl lv rl by4 blk_nz[OF i pp(3) k] t(1) unfolding G'_def by auto
  qed
qed

lemma fresh_new: "fresh p n M \<Longrightarrow> maps_ok M \<Longrightarrow> 0 < unat n \<Longrightarrow> M p = None"
  unfolding fresh_def maps_ok_def by (cases "M p") fastforce+

lemma maps_ok_new: "maps_ok M \<Longrightarrow> fresh p n M \<Longrightarrow> 4096 \<le> unat n \<Longrightarrow> maps_ok (M(p \<mapsto> n))"
  unfolding maps_ok_def fresh_def by (auto simp: disj_commute)

lemma pages_ok_new:
  assumes "pages_ok h G" "maps_ok (h_map h)" "fresh p n (h_map h)" "4096 \<le> unat n"
    and "h_map h' = (h_map h)(p \<mapsto> n)" "h_page h' = (h_page h)(p \<mapsto> g')" "page_ok g' n (h_block h') p x"
    and "\<And>y. \<not> in_range p n y \<Longrightarrow> h_block h' y = h_block h y"
  shows "pages_ok h' (G(p \<mapsto> x))"
proof (rule pages_okI)
  show "dom (h_page h') = dom (G(p \<mapsto> x))" "dom (h_map h') = dom (G(p \<mapsto> x))"
    using pages_ok_dom[OF assms(1)] assms(5,6) by simp_all
  fix q y assume y: "(G(p \<mapsto> x)) q = Some y"
  show "\<exists>g n. h_page h' q = Some g \<and> h_map h' q = Some n \<and> page_ok g n (h_block h') q y"
  proof (cases "q = p")
    case False
    with y have Gq: "G q = Some y" by simp
    from pages_okD[OF assms(1) this] obtain g m where g: "h_page h q = Some g" "h_map h q = Some m" "page_ok g m (h_block h) q y" by blast
    have "page_ok g m (h_block h') q y"
    proof (rule page_ok_cong[OF g(3)])
      fix i ks f k assume k: "y = Pool i ks f" "k < cap i"
      with g(3) have i: "i < 7" "m = 4096" by auto
      note a = pool_aligned[OF assms(1,2) Gq, THEN conjunct1]
      have "unat p + unat n \<le> unat q \<or> unat q + 4096 \<le> unat p" using assms(3) g(2) i(2) unfolding fresh_def by force
      moreover have "unat p + unat n \<le> 2 ^ 64" using assms(3) by (simp add: fresh_def)
      moreover note blk_page(2)[OF i(1) a k(2)] blk_bound[OF i(1) k(2)] pool_layout(4)[OF i(1)]
      ultimately have "\<not> in_range p n (blk i q k)" using in_range_iff[of p n "blk i q k"] by linarith
      then show "h_block h' (blk i q k) = h_block h (blk i q k)" by (rule assms(8))
    qed
    then show ?thesis using False g(1,2) assms(5,6) by simp
  qed (use y assms(5-7) in simp)
qed

lemma AlignRoundUp_first:
  assumes "i < 7" "aligned p"
  shows "AlignRoundUp (p + 48) (of_nat (bsize i)) = blk i p 0"
proof -
  define b where "b = bsize i"
  have bs: "(of_nat b :: u64) = 2 ^ (4 + i)" "b = 2 ^ (4 + i)" by (simp_all add: b_def bsize_def)
  have small: "47 + b < 4096" using pool_layout(8)[OF assms(1)] by (simp add: b_def)
  have nz: "(of_nat b :: u64) \<noteq> 0" using pool_cases[OF assms(1)] by (auto simp: b_def bsize_def)
  have y: "p + 48 + of_nat b - 1 = p + of_nat (47 + b)" by simp
  have "unat (p + of_nat (47 + b)) mod b = (47 + b) mod b"
  proof -
    have "b dvd unat p" using assms(2) pool_layout(5)[OF assms(1)] dvd_trans unfolding aligned_def b_def by blast
    then show ?thesis using unat_page[OF assms(2) small] by (metis add.commute dvd_eq_mod_eq_0 mod_add_right_eq add_0_right)
  qed
  moreover have "unat (of_nat b :: u64) = b" using small by (simp add: unat_of_nat)
  ultimately have "unat ((p + of_nat (47 + b)) mod of_nat b) = (47 + b) mod b" by (simp add: unat_mod)
  then have m: "(p + of_nat (47 + b)) mod 2 ^ (4 + i) = of_nat ((47 + b) mod b)"
    unfolding bs(1)[symmetric] by (metis of_nat_unat ucast_id)
  have "AlignRoundUp (p + 48) (of_nat b) = p + of_nat (47 + b) - of_nat ((47 + b) mod b)"
  proof -
    have "AlignRoundUp (p + 48) (of_nat b) = ((p + 48 + of_nat b - 1) AND NOT (of_nat b - 1))" using nz by (simp add: AlignRoundUp_def Let_def)
    also have "\<dots> = ((p + of_nat (47 + b)) AND NOT (2 ^ (4 + i) - 1))" unfolding y[symmetric] bs(1) ..
    also have "\<dots> = p + of_nat (47 + b) - of_nat ((47 + b) mod b)" unfolding and_not_low m ..
    finally show ?thesis .
  qed
  also have "\<dots> = p + of_nat (off i)"
    using pool_cases[OF assms(1)] by (auto simp: b_def off_def cap_def bsize_def)
  finally show ?thesis by (simp add: blk_def b_def)
qed

lemma live_new:
  assumes "G p = None" "live_in p x = {}"
  shows "live_blocks (G(p \<mapsto> x)) = live_blocks G"
proof (intro set_eqI iffI)
  fix r assume "r \<in> live_blocks (G(p \<mapsto> x))"
  then obtain q y where q: "(G(p \<mapsto> x)) q = Some y" "r \<in> live_in q y" by (auto simp: live_blocks_def)
  with assms(2) have "q \<noteq> p" by auto
  with q show "r \<in> live_blocks G" by (auto simp: live_blocks_def)
next
  fix r assume "r \<in> live_blocks G"
  then obtain q y where q: "G q = Some y" "r \<in> live_in q y" by (auto simp: live_blocks_def)
  with assms(1) have "(G(p \<mapsto> x)) q = Some y" by auto
  with q(2) show "r \<in> live_blocks (G(p \<mapsto> x))" unfolding live_blocks_def by blast
qed

lemma MempoolAllocPage_ok:
  assumes w: "winv h G ls bl" and i: "i < 7" and e: "mp_pageList (a_dfxMempoolBuf h ! i) = 0" and fr: "fresh p 4096 (h_map h)"
  shows "\<exists>h'. MempoolAllocPage (Some p) i h = Some h' \<and> winv h' (G(p \<mapsto> Pool i [] 0)) (ls(i := [p])) bl
    \<and> G p = None \<and> mp_pageList (a_dfxMempoolBuf h' ! i) = p \<and> h_map h' = (h_map h)(p \<mapsto> 4096) \<and> h_bytes h' = fill p 4096 0 (h_bytes h)"
proof -
  note d = winvD[OF w] and l = lists_okD[OF winvD(6)[OF w]]
  from fr have p: "aligned p" "p \<noteq> 0" by (simp_all add: fresh_def)
  have Gp: "G p = None" using fresh_new[OF fr d(4)] pages_ok_dom[OF d(5)] by auto
  then have hp: "h_page h p = None" using pages_ok_dom[OF d(5)] by auto
  have m: "mp_type (a_dfxMempoolBuf h ! i) = of_nat (4 + i)" "mp_blockSize (a_dfxMempoolBuf h ! i) = of_nat (bsize i)"
    "mp_blocksPerPage (a_dfxMempoolBuf h ! i) = of_nat (cap i)" using d(3)[OF i] by (simp_all add: pool_ok_def)
  have c0: "0 < cap i" using pool_layout(6)[OF i] by simp
  define b where "b = \<lparr>bi_next = 0, bi_freeBlocksCnt = of_nat (cap i) :: u64\<rparr>"
  define g where "g = PageInfo_zero\<lparr>pi_tagInfo := DFX_MEM_PAGE_SIGN, pi_type := of_nat (4 + i), pi_union := Tag_mempool i,
    pi_freeBlocksCnt := of_nat (cap i), pi_freeBlockList := blk i p 0\<rparr>"
  define h3 where "h3 = h\<lparr>h_bytes := fill p 4096 0 (h_bytes h), h_map := (h_map h)(p \<mapsto> 4096),
    h_block := (fill p 4096 BlockInfo_zero (h_block h))(blk i p 0 := b), h_page := (h_page h)(p \<mapsto> g)\<rparr>"
  have inb: "in_range p 4096 (blk i p 0)"
    using in_range_iff[of p 4096 "blk i p 0"] aligned_top[OF p(1)] blk_page(2)[OF i p(1) c0] blk_bound[OF i c0] pool_layout(4)[OF i] by simp
  have pages: "pages_ok h3 (G(p \<mapsto> Pool i [] 0))"
  proof (rule pages_ok_new[OF d(5,4) fr])
    show "page_ok g 4096 (h_block h3) p (Pool i [] 0)"
      using i c0 by (simp add: g_def h3_def b_def PageInfo_zero_def)
    show "h_block h3 y = h_block h y" if "\<not> in_range p 4096 y" for y using that inb by (auto simp: h3_def fill_def)
  qed (simp_all add: h3_def)
  have lk: "link h3 q = link h q" if "q \<noteq> p" for q using that by (simp add: h3_def link_def)
  have li: "ls i = []" using l(1)[OF i] e by (cases "ls i") auto
  have np: "p \<notin> set (ls j)" if "j < 7" for j using l(3)[OF that] Gp by simp
  have "dll (link h3) (mp_pageList (a_dfxMempoolBuf h3 ! i)) (ls i)" using e li by (simp add: h3_def)
  moreover have "length (a_dfxMempoolBuf h3) = 7" "h_page h3 p \<noteq> None" "distinct (ls i)" "p \<notin> set (ls i)" using d(2) li by (simp_all add: h3_def)
  ultimately obtain h4 h1 where h4: "MempoolAddPage i p h3 = Some h4"
    "h4 = upd_mempool i (\<lambda>m. m\<lparr>mp_pageList := p\<rparr>) h1" "unlinked h3 h1" "dll (link h4) p [p]" "\<forall>q. q \<noteq> p \<longrightarrow> link h4 q = link h3 q"
    using MempoolAddPage_ok[OF _ i, of h3 "ls i" p] p(2) li by auto
  note u = unlinked_same[OF h4(3)]
  have s3: "a_dfxMempoolBuf h3 = a_dfxMempoolBuf h" "a_pageList h3 = a_pageList h" "a_initFlag h3 = a_initFlag h" "h_map h3 = (h_map h)(p \<mapsto> 4096)"
    "h_bytes h3 = fill p 4096 0 (h_bytes h)" by (simp_all add: h3_def)
  define G' where "G' = G(p \<mapsto> Pool i [] 0)"
  have hf: "has_free j (G' q) = (if q = p then j = i else has_free j (G q))" for j q using c0 by (simp add: G'_def)
  have big: "G' q = Some Big \<longleftrightarrow> G q = Some Big" for q using Gp by (simp add: G'_def)
  have hfi: "{q. has_free i (G q)} = {}" using l(3)[OF i] li by simp
  have lists: "lists_ok h4 G' (ls(i := [p])) bl"
  proof (rule lists_ok_pool[OF d(6) i])
    fix q assume "G q = Some Big \<or> (\<exists>j < 7. j \<noteq> i \<and> has_free j (G q))"
    then have "q \<noteq> p" using Gp by auto
    then show "link h4 q = link h q" using h4(5) lk by simp
  qed (use h4(2,4) Gp u s3 d(2) i hfi in \<open>auto simp: upd_mempool_nth hf big\<close>)
  have "pages_ok h4 G'"
    using pages_ok_unlinked[OF pages h4(3)] by (simp add: h4(2) G'_def pages_ok_frame[of "upd_mempool _ _ h1" h1])
  then have "winv h4 G' (ls(i := [p])) bl"
    using lists maps_ok_new[OF d(4) fr] d u s3 i by (auto simp: winv_def h4(2) upd_mempool_nth pool_ok_def)
  from winv_counter[OF this i, of "\<lambda>m. mp_freePagesCnt m + 1"]
  have w': "winv (upd_mempool i (\<lambda>m. m\<lparr>mp_freePagesCnt := mp_freePagesCnt m + 1\<rparr>) h4) G' (ls(i := [p])) bl" .
  have "h_page H p \<noteq> None \<Longrightarrow> in_page (blk i p 0) 16 H" for H using in_page_blk[OF i p(1) c0, of H 16] pool_layout(4)[OF i] by simp
  then have "MempoolAllocPage (Some p) i h = Some (upd_mempool i (\<lambda>m. m\<lparr>mp_freePagesCnt := mp_freePagesCnt m + 1\<rparr>) h4)"
    using h4(1) m inb AlignRoundUp_first[OF i p(1)]
    by (simp add: MempoolAllocPage_def Let_def mmap_def memset0_def upd_page_def get_block_def put_block_def fill_def[of _ _ _ _ "blk i p 0"]
        BlockInfo_zero_def sizeof_PageInfo_def DFX_PAGE_SIZE_def h3_def g_def b_def)
  then show ?thesis
    using w' Gp u s3 d(2) i by (auto simp: G'_def h4(2) upd_mempool_nth)
qed

end
