(* ===== verification/Alloc_Safety.thy ===== *)
theory Alloc_Safety
  imports Alloc_Inv
begin

text \<open>
  What the allocator promises its clients: a step relation for a process that allocates, frees, reallocates and
  writes to its blocks, the contracts of the operations, and the properties that follow for every reachable state.
  Of the answers of \<^verbatim>\<open>mmap\<close> it is assumed that they are page aligned and overlap no other mapping (\<open>mmap_ok\<close>).
\<close>

section \<open>Vocabulary\<close>

fun chunk_size :: "u64 \<Rightarrow> gpage \<Rightarrow> u64" where
  "chunk_size m (Pool i ks f) = of_nat (bsize i)"
| "chunk_size m Big = m - 48"

definition chunk :: "DfxAllocator \<Rightarrow> (u64 \<Rightarrow> gpage option) \<Rightarrow> u64 \<Rightarrow> u64 \<Rightarrow> bool" where
  "chunk h G s n \<longleftrightarrow> (\<exists>p x m. G p = Some x \<and> h_map h p = Some m \<and> s \<in> live_in p x \<and> n = chunk_size m x)"

definition keeps :: "DfxAllocator \<Rightarrow> (u64 \<Rightarrow> gpage option) \<Rightarrow> DfxAllocator \<Rightarrow> (u64 \<Rightarrow> gpage option) \<Rightarrow> u64 set \<Rightarrow> bool" where
  "keeps h G h' G' S \<longleftrightarrow> (\<forall>s n. s \<in> S \<longrightarrow> chunk h G s n \<longrightarrow> chunk h' G' s n \<and> (\<forall>y. in_range s n y \<longrightarrow> h_bytes h' y = h_bytes h y))"

definition alloc_spec :: "DfxAllocator \<Rightarrow> (u64 \<Rightarrow> gpage option) \<Rightarrow> u64 \<Rightarrow> u64 \<Rightarrow> DfxAllocator \<Rightarrow> bool" where
  "alloc_spec h G sz r h' \<longleftrightarrow> (\<exists>G' ls' bl'. winv h' G' ls' bl' \<and> keeps h G h' G' (live_blocks G)
    \<and> (if r = 0 then live_blocks G' = live_blocks G
       else r \<notin> live_blocks G \<and> live_blocks G' = insert r (live_blocks G) \<and> (\<exists>n. chunk h' G' r n \<and> sz \<le> n \<and> (\<forall>y. in_range r n y \<longrightarrow> h_bytes h' y = 0))))"

definition free_spec :: "DfxAllocator \<Rightarrow> (u64 \<Rightarrow> gpage option) \<Rightarrow> u64 \<Rightarrow> DfxAllocator \<Rightarrow> bool" where
  "free_spec h G r h' \<longleftrightarrow> (\<exists>G' ls' bl'. winv h' G' ls' bl' \<and> live_blocks G' = live_blocks G - {r} \<and> keeps h G h' G' (live_blocks G - {r}))"

definition ready :: "DfxAllocator \<Rightarrow> DfxAllocator" where
  "ready h = (if a_initFlag h = 0 then InitDfxAllocator h else h)"

definition map_len :: "u64 \<Rightarrow> u64" where
  "map_len sz = (if (if sz = 0 then 1 else sz) \<le> 1024 then 4096 else PageEnd (48 + sz))"

definition mmap_ok :: "u64 option \<Rightarrow> u64 \<Rightarrow> DfxAllocator \<Rightarrow> bool" where
  "mmap_ok mptr sz h \<longleftrightarrow> (\<forall>p. mptr = Some p \<longrightarrow> fresh p (map_len sz) (h_map h))"

inductive client_step :: "DfxAllocator \<times> u64 set \<Rightarrow> DfxAllocator \<times> u64 set \<Rightarrow> bool" where
  alloc: "mmap_ok mptr sz h \<Longrightarrow> DfxAlloc mptr sz h = Some (r, h') \<Longrightarrow> client_step (h, L) (h', if r = 0 then L else insert r L)"
| free: "r \<in> L \<Longrightarrow> DfxFree r h = Some h' \<Longrightarrow> client_step (h, L) (h', L - {r})"
| realloc: "r \<in> L \<Longrightarrow> mmap_ok mptr sz h \<Longrightarrow> DfxRealloc mptr r sz h = Some (s, h') \<Longrightarrow>
    client_step (h, L) (h', if s = 0 then L else insert s (L - {r}))"
| store: "r \<in> L \<Longrightarrow> GetChunkSize r h = Some n \<Longrightarrow> (\<And>x. \<not> in_range r n x \<Longrightarrow> D x = h_bytes h x \<and> B x = h_block h x) \<Longrightarrow>
    client_step (h, L) (h\<lparr>h_bytes := D, h_block := B\<rparr>, L)"

definition alloc_inv :: "DfxAllocator \<Rightarrow> u64 set \<Rightarrow> bool" where
  "alloc_inv h L \<longleftrightarrow> (\<exists>G ls bl. winv (ready h) G ls bl \<and> live_blocks G = L) \<and> (L = {} \<or> ready h = h)"

section \<open>Lemmas and properties\<close>

lemma keeps_trans: "keeps h G h1 G1 S \<Longrightarrow> keeps h1 G1 h2 G2 S \<Longrightarrow> keeps h G h2 G2 S"
  unfolding keeps_def by metis

lemma chunk_live: "pages_ok h G \<Longrightarrow> s \<in> live_blocks G \<longleftrightarrow> (\<exists>n. chunk h G s n)"
  unfolding chunk_def live_blocks_def using pages_okD[of h G] by blast

lemma chunk_bounds:
  assumes "pages_ok h G" "maps_ok (h_map h)" "G p = Some x" "h_map h p = Some m" "s \<in> live_in p x" "n = chunk_size m x"
  shows "unat p + 48 \<le> unat s" "unat s + unat n \<le> unat p + unat m" "unat p + unat m \<le> 2 ^ 64" "16 dvd unat s" "0 < unat n \<or> x = Big"
proof -
  have mp: "aligned p" "4096 \<le> unat m" "unat p + unat m \<le> 2 ^ 64" using assms(2,4) unfolding maps_ok_def by blast+
  have "unat p + 48 \<le> unat s \<and> unat s + unat n \<le> unat p + unat m \<and> 16 dvd unat s \<and> (0 < unat n \<or> x = Big)"
  proof (cases x)
    case (Pool i ks f)
    then obtain k where k: "s = blk i p k" "k < f" using assms(5) by auto
    have i: "i < 7" "k < cap i" using pool_lt[OF assms(1), of p i ks f] assms(3) Pool k(2) by auto
    have m: "unat m = 4096" using pages_okD[OF assms(1,3)] assms(4) Pool by auto
    have n: "unat n = bsize i" using assms(6) Pool pool_layout(8)[OF i(1)] by (simp add: unat_of_nat)
    have "16 dvd unat p" using mp(1) unfolding aligned_def by (rule dvd_trans[rotated]) simp
    moreover have "16 dvd off i" using pool_layout(3,9)[OF i(1)] dvd_trans by blast
    moreover have "16 dvd k * bsize i" using pool_layout(9)[OF i(1)] by simp
    ultimately have "16 dvd unat s" using blk_page(2)[OF i(1) mp(1) i(2)] k(1) by (simp add: dvd_add)
    then show ?thesis
      using blk_page(2)[OF i(1) mp(1) i(2)] blk_bound[OF i] pool_layout(1,4)[OF i(1)] k(1) m n by simp
  next
    case Big
    then have s: "s = p + of_nat 48" using assms(5) by simp
    have "unat s = unat p + 48" using unat_page[OF mp(1), of 48] s by simp
    moreover have "unat n = unat m - 48" using assms(6) Big mp(2) by (simp add: unat_sub word_le_nat_alt)
    moreover have "16 dvd unat p" using mp(1) unfolding aligned_def by (rule dvd_trans[rotated]) simp
    ultimately show ?thesis using mp(2) Big by (auto simp: dvd_add)
  qed
  then show "unat p + 48 \<le> unat s" "unat s + unat n \<le> unat p + unat m" "16 dvd unat s" "0 < unat n \<or> x = Big" by auto
  show "unat p + unat m \<le> 2 ^ 64" by (rule mp(3))
qed

lemma chunks_apart:
  assumes "pages_ok h G" "maps_ok (h_map h)" "chunk h G r n" "chunk h G s k" "r \<noteq> s" "in_range r n y"
  shows "\<not> in_range s k y"
proof -
  obtain p x m where p: "G p = Some x" "h_map h p = Some m" "r \<in> live_in p x" "n = chunk_size m x" using assms(3) unfolding chunk_def by blast
  obtain q z l where q: "G q = Some z" "h_map h q = Some l" "s \<in> live_in q z" "k = chunk_size l z" using assms(4) unfolding chunk_def by blast
  note bp = chunk_bounds[OF assms(1,2) p] and bq = chunk_bounds[OF assms(1,2) q]
  have r: "unat r \<le> unat y" "unat y < unat r + unat n" using assms(6) in_range_iff[of r n y] bp by auto
  have iff: "in_range s k y \<longleftrightarrow> unat s \<le> unat y \<and> unat y < unat s + unat k" using in_range_iff[of s k y] bq by linarith
  show ?thesis
  proof (cases "p = q")
    case False
    then have "unat p + unat m \<le> unat q \<or> unat q + unat l \<le> unat p" using assms(2) p(2) q(2) unfolding maps_ok_def by blast
    then show ?thesis using iff r bp bq by linarith
  next
    case True
    with p q have same: "x = z" "m = l" by auto
    show ?thesis
    proof (cases x)
      case (Pool i ks f)
      then obtain a b where ab: "r = blk i p a" "a < f" "s = blk i p b" "b < f" using p(3) q(3) True same by auto
      have i: "i < 7" "a < cap i" "b < cap i" using pool_lt[OF assms(1), of p i ks f] p(1) Pool ab by auto
      have al: "aligned p" using pool_aligned[OF assms(1,2) p(1)] by simp
      have "a \<noteq> b" using ab assms(5) by auto
      then have "a * bsize i + bsize i \<le> b * bsize i \<or> b * bsize i + bsize i \<le> a * bsize i"
        using mult_le_mono1[of "Suc a" b "bsize i"] mult_le_mono1[of "Suc b" a "bsize i"] by (cases "a < b") auto
      moreover have "unat n = bsize i" "unat k = bsize i" using p(4) q(4) Pool Pool[unfolded same(1)] pool_layout(8)[OF i(1)] by (simp_all add: unat_of_nat)
      moreover note blk_page(2)[OF i(1) al i(2)] blk_page(2)[OF i(1) al i(3)]
      ultimately show ?thesis using r unfolding ab(1,3) iff[unfolded ab(3)] by linarith
    qed (use p(3) q(3) True same assms(5) in auto)
  qed
qed

text \<open>An operation that only adds live blocks keeps the old chunks where it leaves their bytes alone.\<close>

lemma keepsI:
  assumes "\<And>q x. G q = Some x \<Longrightarrow> \<exists>x'. G' q = Some x' \<and> live_in q x \<inter> S \<subseteq> live_in q x' \<and> (\<forall>m. chunk_size m x' = chunk_size m x)"
    and "\<And>q. G q \<noteq> None \<Longrightarrow> h_map h' q = h_map h q"
    and "\<And>s n y. s \<in> S \<Longrightarrow> chunk h G s n \<Longrightarrow> in_range s n y \<Longrightarrow> h_bytes h' y = h_bytes h y"
  shows "keeps h G h' G' S"
  unfolding keeps_def
proof (intro allI impI conjI)
  fix s n assume s: "s \<in> S" "chunk h G s n"
  then obtain p x m where p: "G p = Some x" "h_map h p = Some m" "s \<in> live_in p x" "n = chunk_size m x" unfolding chunk_def by blast
  from assms(1)[OF p(1)] obtain x' where "G' p = Some x'" "live_in p x \<inter> S \<subseteq> live_in p x'" "\<forall>m. chunk_size m x' = chunk_size m x" by blast
  moreover have "h_map h' p = Some m" using assms(2)[of p] p(1,2) by simp
  ultimately show "chunk h' G' s n"
    using p(3,4) s(1) unfolding chunk_def by (intro exI[of _ p] exI[of _ x'] exI[of _ m]) auto
qed (rule assms(3))

lemma fresh_keeps:
  assumes "pages_ok h G" "maps_ok (h_map h)" "fresh p k (h_map h)" "chunk h G s n" "in_range s n y"
  shows "\<not> in_range p k y"
proof -
  obtain q x m where q: "G q = Some x" "h_map h q = Some m" "s \<in> live_in q x" "n = chunk_size m x" using assms(4) unfolding chunk_def by blast
  note b = chunk_bounds[OF assms(1,2) q]
  have "unat p + unat k \<le> unat q \<or> unat q + unat m \<le> unat p" "unat p + unat k \<le> 2 ^ 64" using assms(3) q(2) unfolding fresh_def by blast+
  moreover have "unat s \<le> unat y" "unat y < unat s + unat n" using assms(5) in_range_iff[of s n y] b by auto
  ultimately show ?thesis using in_range_iff[of p k y] b by linarith
qed

lemma keeps_refl: "keeps h G h G S" by (simp add: keeps_def)

lemma take_first_spec:
  assumes w: "winv h G ls bl" and i: "i < 7" and ne: "mp_pageList (a_dfxMempoolBuf h ! i) \<noteq> 0" and sz: "unat sz \<le> bsize i"
  shows "\<exists>r h'. take_first i h = Some (r, h') \<and> r \<noteq> 0 \<and> alloc_spec h G sz r h'"
proof -
  from take_first_ok[OF w i ne] obtain r h' p ks f ks' f' ls' where t: "take_first i h = Some (r, h')" "G p = Some (Pool i ks f)"
    "winv h' (G(p \<mapsto> Pool i ks' f')) ls' bl" "r \<noteq> 0" "r \<notin> live_blocks G" "live_blocks (G(p \<mapsto> Pool i ks' f')) = insert r (live_blocks G)"
    "r \<in> live_in p (Pool i ks' f')" "h_map h' = h_map h" "h_bytes h' = fill r (of_nat (bsize i)) 0 (h_bytes h)" by metis
  define G' where "G' = G(p \<mapsto> Pool i ks' f')"
  note w' = winvD[OF t(3)[folded G'_def]] and d = winvD[OF w]
  obtain m where m: "h_map h' p = Some m" using pages_okD[OF w'(5), of p] by (auto simp: G'_def)
  then have cr: "chunk h' G' r (of_nat (bsize i))" using t(7) unfolding chunk_def G'_def by fastforce
  have sub: "live_in q x \<subseteq> live_in q x'" if "G q = Some x" "G' q = Some x'" for q x x'
  proof (cases "q = p")
    case True
    show ?thesis
    proof
      fix s assume s: "s \<in> live_in q x"
      then have "s \<in> live_blocks G'" using t(6) that(1) unfolding G'_def live_blocks_def by blast
      then obtain q' z where z: "G' q' = Some z" "s \<in> live_in q' z" unfolding live_blocks_def by blast
      have "q' = q" using live_in_page(2)[OF w'(5,4) z] live_in_page(2)[OF d(5,4) that(1) s] by simp
      then show "s \<in> live_in q x'" using z that(2) by simp
    qed
  qed (use that in \<open>simp add: G'_def\<close>)
  have ck: "chunk h' G' s n" if "chunk h G s n" for s n
  proof -
    from that obtain q x l where q: "G q = Some x" "h_map h q = Some l" "s \<in> live_in q x" "n = chunk_size l x" unfolding chunk_def by blast
    obtain x' where x': "G' q = Some x'" using q(1) by (cases "q = p") (auto simp: G'_def)
    moreover have "chunk_size l x' = chunk_size l x" using x' q(1) t(2) by (cases "q = p") (auto simp: G'_def)
    ultimately show ?thesis using q sub[OF q(1) x'] t(8) unfolding chunk_def by (metis subsetD)
  qed
  have "keeps h G h' G' (live_blocks G)"
    unfolding keeps_def
  proof (intro allI impI conjI)
    fix s n y assume s: "s \<in> live_blocks G" "chunk h G s n" "in_range s n y"
    then have "\<not> in_range r (of_nat (bsize i)) y" using chunks_apart[OF w'(5,4) ck[OF s(2)] cr _ s(3)] t(5) by blast
    then show "h_bytes h' y = h_bytes h y" by (simp add: t(9) fill_def)
  qed (rule ck)
  moreover have "sz \<le> of_nat (bsize i)" using sz pool_layout(8)[OF i] by (simp add: word_le_nat_alt unat_of_nat)
  moreover have "\<forall>y. in_range r (of_nat (bsize i)) y \<longrightarrow> h_bytes h' y = 0" by (simp add: t(9) fill_def)
  ultimately have "alloc_spec h G sz r h'"
    using t(3-6) cr unfolding alloc_spec_def G'_def[symmetric] by auto
  then show ?thesis using t(1,4) by blast
qed

lemma MempoolAlloc_spec:
  assumes w: "winv h G ls bl" and i: "i < 7" and fr: "\<And>p. mptr = Some p \<Longrightarrow> fresh p 4096 (h_map h)" and sz: "unat sz \<le> bsize i"
  shows "\<exists>r h'. MempoolAlloc mptr i h = Some (r, h') \<and> alloc_spec h G sz r h' \<and> (mptr \<noteq> None \<longrightarrow> r \<noteq> 0)"
proof -
  note d = winvD[OF w]
  have bs: "mp_blockSize (a_dfxMempoolBuf h ! i) \<noteq> 0" using d(3)[OF i] pool_cases[OF i] by (auto simp: pool_ok_def bsize_def)
  consider "mp_pageList (a_dfxMempoolBuf h ! i) \<noteq> 0" | "mp_pageList (a_dfxMempoolBuf h ! i) = 0" "mptr = None"
    | p where "mp_pageList (a_dfxMempoolBuf h ! i) = 0" "mptr = Some p" by auto
  then show ?thesis
  proof cases
    case 1
    then show ?thesis using take_first_spec[OF w i 1 sz] bs by (auto simp: MempoolAlloc_def)
  next
    case 2
    then have "MempoolAlloc mptr i h = Some (0, h)" using bs by (simp add: MempoolAlloc_def MempoolAllocPage_def take_first_def)
    moreover have "alloc_spec h G sz 0 h" using w keeps_refl unfolding alloc_spec_def by auto
    ultimately show ?thesis using 2(2) by blast
  next
    case 3
    from MempoolAllocPage_ok[OF w i 3(1) fr[OF 3(2)]] obtain h1 where h1: "MempoolAllocPage (Some p) i h = Some h1"
      "winv h1 (G(p \<mapsto> Pool i [] 0)) (ls(i := [p])) bl" "G p = None" "mp_pageList (a_dfxMempoolBuf h1 ! i) = p"
      "h_map h1 = (h_map h)(p \<mapsto> 4096)" "h_bytes h1 = fill p 4096 0 (h_bytes h)" by blast
    define G1 where "G1 = G(p \<mapsto> Pool i [] 0)"
    have p0: "p \<noteq> 0" using fr[OF 3(2)] by (simp add: fresh_def)
    have lv: "live_blocks G1 = live_blocks G" unfolding G1_def by (rule live_new) (simp_all add: h1(3))
    have k1: "keeps h G h1 G1 (live_blocks G)"
    proof (rule keepsI)
      show "h_map h1 q = h_map h q" if "G q \<noteq> None" for q using that h1(3,5) by auto
      show "\<exists>x'. G1 q = Some x' \<and> live_in q x \<inter> live_blocks G \<subseteq> live_in q x' \<and> (\<forall>m. chunk_size m x' = chunk_size m x)" if "G q = Some x" for q x
        using that h1(3) by (intro exI[of _ x]) (auto simp: G1_def)
      show "h_bytes h1 y = h_bytes h y" if "chunk h G s n" "in_range s n y" for s n y
        using fresh_keeps[OF d(5,4) fr[OF 3(2)] that] by (simp add: h1(6) fill_def)
    qed
    from take_first_spec[OF h1(2)[folded G1_def] i _ sz] h1(4) p0 obtain r h' where t: "take_first i h1 = Some (r, h')" "r \<noteq> 0" "alloc_spec h1 G1 sz r h'"
      by blast
    have "alloc_spec h G sz r h'"
      using t(2,3) keeps_trans[OF k1] unfolding alloc_spec_def lv by auto
    moreover have "MempoolAlloc mptr i h = Some (r, h')" using bs 3 h1(1) t(1) by (simp add: MempoolAlloc_def)
    ultimately show ?thesis using t(2) by blast
  qed
qed

lemma lists_ok_big:
  assumes "lists_ok h G ls bl" "dll (link h') (a_pageList h') xs" "distinct xs" "set xs = {p. G' p = Some Big}"
    and "\<And>j. j < 7 \<Longrightarrow> mp_pageList (a_dfxMempoolBuf h' ! j) = mp_pageList (a_dfxMempoolBuf h ! j)"
    and "\<And>q j. j < 7 \<Longrightarrow> has_free j (G q) \<Longrightarrow> link h' q = link h q" "\<And>q j. j < 7 \<Longrightarrow> has_free j (G' q) = has_free j (G q)"
  shows "lists_ok h' G' ls xs"
proof -
  note d = lists_okD[OF assms(1)]
  have "dll (link h') (mp_pageList (a_dfxMempoolBuf h' ! j)) (ls j)" if "j < 7" for j
  proof -
    have "seg (link h') 0 (mp_pageList (a_dfxMempoolBuf h ! j)) (ls j) 0 = seg (link h) 0 (mp_pageList (a_dfxMempoolBuf h ! j)) (ls j) 0"
      using d(3)[OF that] that by (intro seg_cong assms(6)) auto
    then show ?thesis using d(1)[OF that] assms(5)[OF that] by simp
  qed
  then show ?thesis using d(2,3) assms(2-4,7) by (simp add: lists_ok_def)
qed

lemma unat_PageStart: "unat (PageStart x) = unat x - unat x mod 4096"
proof -
  have "x mod 4096 \<le> x" by (simp add: word_le_nat_alt unat_mod)
  then show ?thesis by (simp add: PageStart_eq unat_sub unat_mod)
qed

lemma PageEnd_size: assumes "a \<le> PageEnd a" "a \<noteq> 0" shows "4096 \<le> unat (PageEnd a)"
proof -
  have "4096 dvd unat (PageEnd a)" by (simp add: PageEnd_def unat_PageStart minus_mod_eq_mult_div)
  moreover have "0 < unat (PageEnd a)" using assms by (metis bot_nat_0.not_eq_extremum le_zero_eq unat_eq_zero word_le_nat_alt)
  ultimately show ?thesis by (rule dvd_imp_le)
qed

lemma PAGE_INFO_SIZE_eq: "PAGE_INFO_SIZE = 48" by (simp add: PAGE_INFO_SIZE_def sizeof_PageInfo_def ALIGN_SIZE_def)

lemma head_size_eq: "AlignRoundUp PAGE_INFO_SIZE ALIGN_SIZE = 48"
  by (simp add: PAGE_INFO_SIZE_eq AlignRoundUp_def ALIGN_SIZE_def)

lemma GetPageUnchecked_live:
  assumes "pages_ok h G" "maps_ok (h_map h)" "G p = Some x" "r \<in> live_in p x"
  shows "GetPageUnchecked r = p"
  using live_in_page(1)[OF assms] by (simp add: GetPageUnchecked_def PAGE_INFO_SIZE_eq)

lemma AllocMmap_spec:
  assumes w: "winv h G ls bl" and fr: "\<And>p. mptr = Some p \<Longrightarrow> fresh p (PageEnd (48 + sz)) (h_map h)"
  shows "\<exists>r h'. AllocMmap mptr ALIGN_SIZE sz h = Some (r, h') \<and> alloc_spec h G sz r h'
    \<and> (mptr \<noteq> None \<longrightarrow> unat sz + 4143 < 2 ^ 64 \<longrightarrow> r \<noteq> 0)"
proof -
  note d = winvD[OF w] and l = lists_okD[OF winvD(6)[OF w]]
  define n where "n = PageEnd (48 + sz)"
  have nul: "alloc_spec h G sz 0 h" using w keeps_refl unfolding alloc_spec_def by auto
  show ?thesis
  proof (cases "2 ^ 64 \<le> 48 + unat sz \<or> n < 48 + sz \<or> mptr = None")
    case True
    then have "AllocMmap mptr ALIGN_SIZE sz h = Some (0, h)"
      by (auto simp: AllocMmap_def head_size_eq add_overflow_def n_def Let_def split: option.splits)
    moreover have "mptr = None" if "unat sz + 4143 < 2 ^ 64"
    proof -
      have "unat (48 + sz) = 48 + unat sz" "unat (48 + sz + 4095) = 48 + unat sz + 4095" using that by (simp_all add: unat_word_ariths)
      then have "48 + unat sz \<le> unat n" unfolding n_def PageEnd_def unat_PageStart DFX_PAGE_SIZE_def
        by simp
      then show ?thesis using True that \<open>unat (48 + sz) = 48 + unat sz\<close> by (auto simp: word_less_nat_alt)
    qed
    ultimately show ?thesis using nul by blast
  next
    case False
    then obtain p where p: "mptr = Some p" and ov: "48 + unat sz < 2 ^ 64" "48 + sz \<le> n" by auto
    note f = fr[OF p, folded n_def]
    have us: "unat (48 + sz) = 48 + unat sz" using ov(1) by (simp add: unat_word_ariths)
    then have "48 + sz \<noteq> 0" by (metis add_is_0 unat_0 zero_neq_numeral)
    then have n4: "4096 \<le> unat n" using PageEnd_size ov(2) by (simp add: n_def)
    have pp: "aligned p" "p \<noteq> 0" using f by (simp_all add: fresh_def)
    have Gp: "G p = None" using fresh_new[OF f d(4)] n4 pages_ok_dom[OF d(5)] by auto
    have gp: "GetPageUnchecked (p + 48) = p" using PageStart_in[OF pp(1), of 0] by (simp add: GetPageUnchecked_def PAGE_INFO_SIZE_eq)
    define g where "g = PageInfo_zero\<lparr>pi_tagInfo := DFX_MEM_PAGE_SIGN, pi_type := DFX_MMAP_TYPE, pi_union := Tag_mMapAllocSize n,
      pi_prev := 0, pi_next := 0, pi_freeBlockList := 0, pi_freeBlocksCnt := 0\<rparr>"
    define h1 where "h1 = h\<lparr>h_block := fill p n BlockInfo_zero (h_block h), h_bytes := fill p n 0 (h_bytes h), h_map := (h_map h)(p \<mapsto> n),
      h_page := (h_page h)(p \<mapsto> g)\<rparr>"
    have pages: "pages_ok h1 (G(p \<mapsto> Big))"
    proof (rule pages_ok_new[OF d(5,4) f n4])
      show "h_page h1 = (h_page h)(p \<mapsto> g)" by (simp add: h1_def)
      show "page_ok g n (h_block h1) p Big" by (cases PageInfo_zero) (simp add: g_def)
    qed (simp_all add: h1_def fill_def)
    have lk: "link h1 q = link h q" if "q \<noteq> p" for q using that by (simp add: h1_def link_def)
    have np: "p \<notin> set bl" using l(6) Gp by simp
    have "seg (link h1) 0 (a_pageList h) bl 0 = seg (link h) 0 (a_pageList h) bl 0" using np by (intro seg_cong lk) blast
    then have "dll (link h1) (a_pageList h1) bl" using l(4) by (simp add: h1_def)
    moreover have "link h1 p \<noteq> None" by (simp add: link_def h1_def)
    ultimately obtain h2 where h2: "AddPage (a_pageList h1) p h1 = Some (p, h2)" "dll (link h2) p (p # bl)" "unlinked h1 h2"
      "\<forall>q. q \<notin> set (p # bl) \<longrightarrow> link h2 q = link h1 q" using AddPage_dll[of h1 "a_pageList h1" bl p] np pp(2) l(5) by blast
    note u = unlinked_same[OF h2(3)]
    define h3 where "h3 = h2\<lparr>a_pageList := p\<rparr>"
    define G' where "G' = G(p \<mapsto> Big)"
    have lk3: "link h3 = link h2" by (simp add: h3_def link_def fun_eq_iff)
    have lists: "lists_ok h3 G' ls (p # bl)"
    proof (rule lists_ok_big[OF d(6)])
      show "dll (link h3) (a_pageList h3) (p # bl)" using h2(2) unfolding lk3 by (simp add: h3_def)
      show "set (p # bl) = {q. G' q = Some Big}" using l(6) by (auto simp: G'_def)
      fix q j assume j: "j < (7 :: nat)"
      show "has_free j (G' q) = has_free j (G q)" using Gp by (simp add: G'_def)
      show "link h3 q = link h q" if "has_free j (G q)"
      proof -
        have "q \<noteq> p" "q \<notin> set bl" using that Gp l(6) by auto
        then show ?thesis using h2(4) lk by (simp add: lk3)
      qed
    qed (use np l(5) u in \<open>simp_all add: h3_def h1_def\<close>)
    have "pages_ok h3 G'"
      using pages_ok_unlinked[OF pages h2(3)] by (simp add: h3_def G'_def pages_ok_frame[of "h2\<lparr>a_pageList := p\<rparr>" h2])
    then have w': "winv h3 G' ls (p # bl)"
      using lists maps_ok_new[OF d(4) f n4] d u by (simp add: winv_def h3_def h1_def)
    have run: "AllocMmap mptr ALIGN_SIZE sz h = Some (p + 48, h3)"
      using False p h2(1) gp us ov
      by (simp add: AllocMmap_def head_size_eq add_overflow_def Let_def mmap_def memset0_def upd_page_def h3_def h1_def g_def n_def)
    have by3: "h_bytes h3 = fill p n 0 (h_bytes h)" "h_map h3 = (h_map h)(p \<mapsto> n)" using u by (simp_all add: h3_def h1_def)
    have k: "keeps h G h3 G' (live_blocks G)"
    proof (rule keepsI)
      show "h_map h3 q = h_map h q" if "G q \<noteq> None" for q using that Gp by3(2) by auto
      show "\<exists>x'. G' q = Some x' \<and> live_in q x \<inter> live_blocks G \<subseteq> live_in q x' \<and> (\<forall>m. chunk_size m x' = chunk_size m x)" if "G q = Some x" for q x
        using that Gp by (intro exI[of _ x]) (auto simp: G'_def)
      show "h_bytes h3 y = h_bytes h y" if "chunk h G s k" "in_range s k y" for s k y
        using fresh_keeps[OF d(5,4) f that] by (simp add: by3 fill_def)
    qed
    have cr: "chunk h3 G' (p + 48) (n - 48)" unfolding chunk_def by (intro exI[of _ p] exI[of _ Big] exI[of _ n]) (simp add: G'_def by3)
    have un: "unat (n - 48) = unat n - 48" using n4 by (simp add: unat_sub word_le_nat_alt)
    have sz': "sz \<le> n - 48" using ov(2) us un by (simp add: word_le_nat_alt)
    have z: "h_bytes h3 y = 0" if "in_range (p + 48) (n - 48) y" for y
    proof -
      have "unat (p + 48) = unat p + 48" using unat_page[OF pp(1), of 48] by simp
      moreover have "unat p + unat n \<le> 2 ^ 64" using f by (simp add: fresh_def)
      ultimately have "in_range p n y" using that in_range_iff[of "p + 48" "n - 48" y] in_range_iff[of p n y] un n4 by linarith
      then show ?thesis by (simp add: by3 fill_def)
    qed
    have "p + 48 \<notin> live_blocks G"
    proof
      assume "p + 48 \<in> live_blocks G"
      then obtain q x where q: "G q = Some x" "p + 48 \<in> live_in q x" by (auto simp: live_blocks_def)
      then show False using GetPageUnchecked_live[OF d(5,4) q] gp Gp by simp
    qed
    moreover have "live_blocks G' = insert (p + 48) (live_blocks G)"
    proof (intro set_eqI iffI)
      fix s assume "s \<in> live_blocks G'"
      then obtain q x where "G' q = Some x" "s \<in> live_in q x" by (auto simp: live_blocks_def)
      then show "s \<in> insert (p + 48) (live_blocks G)" by (cases "q = p") (auto simp: G'_def live_blocks_def)
    next
      fix s assume "s \<in> insert (p + 48) (live_blocks G)"
      then consider "s = p + 48" | q x where "G q = Some x" "s \<in> live_in q x" by (auto simp: live_blocks_def)
      then show "s \<in> live_blocks G'"
      proof cases
        case 1
        then have "G' p = Some Big \<and> s \<in> live_in p Big" by (simp add: G'_def)
        then show ?thesis unfolding live_blocks_def by blast
      next
        case 2
        then have "G' q = Some x" using Gp by (auto simp: G'_def)
        then show ?thesis using 2(2) unfolding live_blocks_def by blast
      qed
    qed
    moreover have nz: "p + 48 \<noteq> 0"
    proof -
      have "unat (p + 48) = unat p + 48" using unat_page[OF pp(1), of 48] by simp
      then show ?thesis by (metis add_is_0 unat_0 zero_neq_numeral)
    qed
    ultimately have "alloc_spec h G sz (p + 48) h3"
      using w' k cr sz' z unfolding alloc_spec_def by auto
    then show ?thesis using run nz by blast
  qed
qed

text \<open>The live blocks after a page lost one, or all it had.\<close>

lemma live_del:
  assumes "pages_ok h G" "maps_ok (h_map h)" "G p = Some x" "r \<in> live_in p x"
    and "\<And>q. q \<noteq> p \<Longrightarrow> G' q = G q" "(case G' p of None \<Rightarrow> {} | Some y \<Rightarrow> live_in p y) = live_in p x - {r}"
  shows "live_blocks G' = live_blocks G - {r}"
proof (intro set_eqI iffI)
  fix s assume "s \<in> live_blocks G'"
  then obtain q y where q: "G' q = Some y" "s \<in> live_in q y" by (auto simp: live_blocks_def)
  show "s \<in> live_blocks G - {r}"
  proof (cases "q = p")
    case True
    then have "s \<in> live_in p x - {r}" using q assms(6) by simp
    then show ?thesis using assms(3) unfolding live_blocks_def by blast
  next
    case False
    then have y: "G q = Some y" using q assms(5) by simp
    have "s \<noteq> r" using live_in_page(2)[OF assms(1,2) y q(2)] live_in_page(2)[OF assms(1-4)] False by auto
    then show ?thesis using y q(2) unfolding live_blocks_def by blast
  qed
next
  fix s assume "s \<in> live_blocks G - {r}"
  then obtain q y where q: "G q = Some y" "s \<in> live_in q y" "s \<noteq> r" by (auto simp: live_blocks_def)
  show "s \<in> live_blocks G'"
  proof (cases "q = p")
    case True
    then have "s \<in> (case G' p of None \<Rightarrow> {} | Some y \<Rightarrow> live_in p y)" using q assms(3,6) by auto
    then show ?thesis unfolding live_blocks_def by (cases "G' p") auto
  next
    case False
    then show ?thesis using q assms(5)[of q] unfolding live_blocks_def by (metis (mono_tags, lifting) mem_Collect_eq)
  qed
qed

lemma keeps_del:
  assumes "pages_ok h G" "maps_ok (h_map h)" "G p = Some x" "h_map h p = Some m" "r \<in> live_in p x"
    and "\<And>q. q \<noteq> p \<Longrightarrow> G' q = G q" "(case G' p of None \<Rightarrow> {} | Some y \<Rightarrow> live_in p y) = live_in p x - {r}"
    and "\<And>y l. G' p = Some y \<Longrightarrow> chunk_size l y = chunk_size l x" "\<And>q. G' q \<noteq> None \<Longrightarrow> h_map h' q = h_map h q"
    and "\<And>y. \<not> in_range r (chunk_size m x) y \<Longrightarrow> h_bytes h' y = h_bytes h y"
  shows "keeps h G h' G' (live_blocks G - {r})"
  unfolding keeps_def
proof (intro allI impI conjI)
  fix s n assume s: "s \<in> live_blocks G - {r}" "chunk h G s n"
  then obtain q z l where q: "G q = Some z" "h_map h q = Some l" "s \<in> live_in q z" "n = chunk_size l z" unfolding chunk_def by blast
  have "\<exists>z'. G' q = Some z' \<and> s \<in> live_in q z' \<and> chunk_size l z' = chunk_size l z"
  proof (cases "q = p")
    case True
    then have "s \<in> (case G' p of None \<Rightarrow> {} | Some y \<Rightarrow> live_in p y)" using q(1,3) s(1) assms(3,7) by auto
    then obtain z' where "G' p = Some z'" "s \<in> live_in p z'" by (cases "G' p") auto
    then show ?thesis using True q(1) assms(3,8) by auto
  next
    case False
    then show ?thesis using q assms(6) by auto
  qed
  then show "chunk h' G' s n" using q assms(9)[of q] unfolding chunk_def by force
  fix y assume y: "in_range s n y"
  have "chunk h G r (chunk_size m x)" using assms(3-5) unfolding chunk_def by blast
  then have "\<not> in_range r (chunk_size m x) y" using chunks_apart[OF assms(1,2) s(2) _ _ y] s(1) by blast
  then show "h_bytes h' y = h_bytes h y" by (rule assms(10))
qed

lemma maps_ok_del: "maps_ok M \<Longrightarrow> maps_ok (M(p := None))"
  unfolding maps_ok_def by auto

lemma pages_ok_del:
  assumes "pages_ok h G" "h_map h' = (h_map h)(p := None)" "h_page h' = (h_page h)(p := None)" "h_block h' = h_block h"
  shows "pages_ok h' (G(p := None))"
proof (rule pages_okI)
  show "dom (h_page h') = dom (G(p := None))" "dom (h_map h') = dom (G(p := None))" using pages_ok_dom[OF assms(1)] assms(2,3) by simp_all
  fix q x assume q: "(G(p := None)) q = Some x"
  then have "q \<noteq> p" "G q = Some x" by (auto split: if_splits)
  then show "\<exists>g n. h_page h' q = Some g \<and> h_map h' q = Some n \<and> page_ok g n (h_block h') q x" using pages_okD[OF assms(1), of q x] assms(2-4) by auto
qed

lemma of_nat_small: "a < 4096 \<Longrightarrow> b < 4096 \<Longrightarrow> (of_nat a = (of_nat b :: u64)) = (a = b)"
proof -
  assume ab: "a < 4096" "b < 4096"
  have "unat (of_nat n :: u64) = n" if "n < 4096" for n using that by (simp add: unat_of_nat)
  with ab show ?thesis by metis
qed

lemma MempoolFree_spec:
  assumes w: "winv h G ls bl" and G: "G p = Some (Pool i ks f)" and r: "r \<in> live_in p (Pool i ks f)"
  shows "\<exists>h'. MempoolFree i r h = Some h' \<and> free_spec h G r h'"
proof -
  note d = winvD[OF w] and l = lists_okD[OF winvD(6)[OF w]]
  obtain g where g: "h_page h p = Some g" using pages_okD[OF d(5) G] by auto
  note pp = pages_ok_pool[OF d(5,4) G g] and pl = pool_lt[OF d(5) G]
  note i = pp(5)
  from r obtain k where k: "r = blk i p k" "k < f" "k \<notin> set ks" by auto
  have kc: "k < cap i" using k(2) pl(2) by simp
  define c where "c = length ks + (cap i - f)"
  have len: "length ks < f"
  proof -
    have "set ks \<subset> {..<f}" using pl(3) k(2,3) by auto
    from psubset_card_mono[OF _ this] show ?thesis using pl(4) by (simp add: distinct_card)
  qed
  have c: "Suc c \<le> cap i" "c < 4000" using len pl(2) pool_layout(7)[OF i] by (auto simp: c_def)
  have cap: "3 \<le> cap i" "cap i < 4000" using pool_layout(6,7)[OF i] by auto
  have gc: "pi_freeBlocksCnt g = of_nat c" using pp(2) by (simp add: c_def)
  define b where "b = \<lparr>bi_next = pi_freeBlockList g, bi_freeBlocksCnt = 1 :: u64\<rparr>"
  define g3 where "g3 = g\<lparr>pi_freeBlockList := r, pi_freeBlocksCnt := of_nat c + 1\<rparr>"
  define h3 where "h3 = h\<lparr>h_bytes := fill r (of_nat (bsize i)) 0 (h_bytes h),
    h_block := (fill r (of_nat (bsize i)) BlockInfo_zero (h_block h))(r := b), h_page := (h_page h)(p \<mapsto> g3)\<rparr>"
  define G1 where "G1 = G(p \<mapsto> Pool i (k # ks) f)"
  have pages: "pages_ok h3 G1"
    unfolding G1_def
  proof (rule pages_ok_upd[OF d(5) g pp(1)])
    have "h_block h3 (blk i p j) = h_block h (blk i p j)" if "j \<in> set ks \<or> j = f \<and> f < cap i" for j
    proof -
      have j: "j < cap i" "k \<noteq> j" using that pl(2,3) k(2,3) by auto
      then have "\<not> in_range r (of_nat (bsize i)) (blk i p j)" "blk i p j \<noteq> r"
        using blk_apart[OF i pp(3) kc i pp(3) j(1)] blk_inj[OF i pp(3) kc j(1)] k(1) by auto
      then show ?thesis by (simp add: h3_def fill_def)
    qed
    then have "block_chain (h_block h3) i p f ks (pi_freeBlockList g)" using pp(2) chain_cong[of ks f i "h_block h3" p "h_block h"] by auto
    then show "page_ok g3 4096 (h_block h3) p (Pool i (k # ks) f)"
      using pp(2) k by (auto simp: g3_def h3_def b_def c_def)
    fix q j us u n assume q: "q \<noteq> p" "G q = Some (Pool j us u)" "n < cap j"
    note jq = pool_lt(1)[OF d(5) q(2)] pool_aligned[OF d(5,4) q(2), THEN conjunct1]
    have "blk j q n \<noteq> r" using blk_page(1)[OF jq q(3)] blk_page(1)[OF i pp(3) kc] q(1) k(1) by metis
    then show "h_block h3 (blk j q n) = h_block h (blk j q n)" using blk_apart[OF i pp(3) kc jq q(3)] q(1) k(1) by (simp add: h3_def fill_def)
  qed (simp_all add: h3_def)
  have s3: "a_dfxMempoolBuf h3 = a_dfxMempoolBuf h" "a_pageList h3 = a_pageList h" "a_initFlag h3 = a_initFlag h" "h_map h3 = h_map h"
    "h_page h3 p = Some g3" by (simp_all add: h3_def)
  have lk: "link h3 = link h" using g by (auto simp: h3_def link_def g3_def fun_eq_iff)
  have hf: "has_free j (G1 q) = (if q = p then j = i else has_free j (G q))" for j q by (simp add: G1_def)
  have big: "G1 q = Some Big \<longleftrightarrow> G q = Some Big" for q using G by (simp add: G1_def)
  have hfp: "has_free j (G p) \<longleftrightarrow> j = i \<and> 0 < c" for j using G by (auto simp: c_def)
  have lv1: "(case G1 p of None \<Rightarrow> {} | Some y \<Rightarrow> live_in p y) = live_in p (Pool i ks f) - {r}"
  proof -
    have "blk i p j = r \<longleftrightarrow> j = k" if "j < f" for j using blk_inj[OF i pp(3) _ kc, of j] that pl(2) k(1) by simp
    then have "blk i p ` ({..<f} - set (k # ks)) = blk i p ` ({..<f} - set ks) - {r}" by auto
    then show ?thesis by (simp add: G1_def)
  qed
  have fin: "free_spec h G r h'" if "winv h' G' ls' bl'" "\<And>q. q \<noteq> p \<Longrightarrow> G' q = G q"
      "(case G' p of None \<Rightarrow> {} | Some y \<Rightarrow> live_in p y) = live_in p (Pool i ks f) - {r}" "\<And>y. G' p = Some y \<Longrightarrow> y = Pool i (k # ks) f"
      "\<And>q. G' q \<noteq> None \<Longrightarrow> h_map h' q = h_map h q" "h_bytes h' = h_bytes h3" for h' G' ls' bl'
  proof -
    have "keeps h G h' G' (live_blocks G - {r})"
      by (rule keeps_del[OF d(5,4) G pp(1) r that(2,3)]) (use that(4-6) in \<open>auto simp: h3_def fill_def\<close>)
    then show ?thesis using that(1) live_del[OF d(5,4) G r that(2,3)] unfolding free_spec_def by blast
  qed
  have run: "MempoolFree i r h =
    (if Suc c = cap i then
       (let h4 = upd_mempool i (\<lambda>m. m\<lparr>mp_freePagesCnt := mp_freePagesCnt m + 1\<rparr>) h3
        in if 1 \<le> mp_freePagesCnt (a_dfxMempoolBuf h4 ! i) then MempoolFreePage i p h4 else Some h4)
     else if c = 0 then MempoolAddPage i p h3 else Some h3)"
  proof -
    have bs: "mp_blockSize (a_dfxMempoolBuf h ! i) = of_nat (bsize i)" "mp_blocksPerPage (a_dfxMempoolBuf h ! i) = of_nat (cap i)"
      using d(3)[OF i] by (simp_all add: pool_ok_def)
    have ub: "unat (of_nat (bsize i) :: u64) = bsize i" using pool_layout(8)[OF i] by (simp add: unat_of_nat)
    have b0: "(of_nat (bsize i) :: u64) \<noteq> 0" using ub pool_layout(4)[OF i] by (metis not_numeral_le_zero unat_0)
    have "bsize i dvd unat r"
    proof -
      have "bsize i dvd unat p" using pp(3) pool_layout(5)[OF i] dvd_trans unfolding aligned_def by blast
      then show ?thesis using blk_page(2)[OF i pp(3) kc] pool_layout(3)[OF i] k(1) by simp
    qed
    then have "unat (r mod of_nat (bsize i)) = 0" by (simp add: unat_mod ub)
    then have md: "r mod of_nat (bsize i) = 0" by (simp add: unat_eq_0)
    have ip: "in_page r n H" if "h_page H p \<noteq> None" "unat n \<le> bsize i" for n H using in_page_blk[OF i pp(3) kc that] k(1) by simp
    have e: "(of_nat c + 1 = (of_nat (cap i) :: u64)) = (Suc c = cap i)" "(of_nat c + 1 = (1 :: u64)) = (c = 0)"
      using of_nat_small[of "Suc c" "cap i"] of_nat_small[of "Suc c" 1] c cap by (simp_all add: add.commute)
    have r0: "r \<noteq> 0" "PageStart r = p" using blk_nz[OF i pp(3) kc] blk_page(1)[OF i pp(3) kc] k(1) by simp_all
    have i1: "in_page r (of_nat (bsize i)) h" using ip[of h "of_nat (bsize i)"] g ub by simp
    have i2: "in_page r 16 (memset0 r (of_nat (bsize i)) h)" using ip[of "memset0 r (of_nat (bsize i)) h" 16] g pool_layout(4)[OF i] by (simp add: memset0_def)
    show ?thesis
      using r0 b0 md bs g gc i1 i2[unfolded memset0_def] e
      by (simp add: MempoolFree_def Let_def memset0_def put_block_def upd_page_def h3_def g3_def b_def)
  qed
  have base3: "length (a_dfxMempoolBuf h3) = 7" "dll (link h3) (mp_pageList (a_dfxMempoolBuf h3 ! i)) (ls i)" "distinct (ls i)"
    using d(2) l(1,2)[OF i] by (simp_all add: s3 lk)
  have pin: "p \<in> set (ls i) \<longleftrightarrow> 0 < c" using l(3)[OF i] hfp by simp
  have w3: "winv h3 G1 ls bl" if "0 < c"
  proof -
    have "lists_ok h3 G1 (ls(i := ls i)) bl"
      by (rule lists_ok_pool[OF d(6) i]) (use base3 l(3)[OF i] s3 lk that in \<open>auto simp: hf big hfp\<close>)
    then show ?thesis using pages d s3 by (simp add: winv_def)
  qed
  consider "c = 0" | "0 < c" "Suc c \<noteq> cap i" | "0 < c" "Suc c = cap i" by auto
  then show ?thesis
  proof cases
    case 1
    from MempoolAddPage_ok[OF base3(1) i base3(2,3), of p] pin 1 pp(4) s3(5) obtain h4 h1 where h4: "MempoolAddPage i p h3 = Some h4"
      "h4 = upd_mempool i (\<lambda>m. m\<lparr>mp_pageList := p\<rparr>) h1" "unlinked h3 h1" "dll (link h4) p (p # ls i)"
      "\<forall>q. q \<notin> set (p # ls i) \<longrightarrow> link h4 q = link h3 q" by auto
    note u = unlinked_same[OF h4(3)]
    have "lists_ok h4 G1 (ls(i := p # ls i)) bl"
    proof (rule lists_ok_pool[OF d(6) i])
      show "dll (link h4) (mp_pageList (a_dfxMempoolBuf h4 ! i)) (p # ls i)" using h4(4) u s3 d(2) i by (simp add: h4(2) upd_mempool_nth)
      show "set (p # ls i) = {q. has_free i (G1 q)}" "distinct (p # ls i)" using l(2,3)[OF i] pin 1 by (auto simp: hf)
      fix q assume q: "G q = Some Big \<or> (\<exists>j < 7. j \<noteq> i \<and> has_free j (G q))"
      then have "q \<notin> set (p # ls i)" using l(3)[OF i] G by (auto elim!: has_free.elims)
      then show "link h4 q = link h q" using h4(5) lk by simp
    qed (use u s3 d(2) i 1 in \<open>auto simp: h4(2) upd_mempool_nth hf big hfp\<close>)
    moreover have "pages_ok h4 G1" using pages_ok_unlinked[OF pages h4(3)] by (simp add: h4(2) pages_ok_frame[of "upd_mempool _ _ h1" h1])
    ultimately have "winv h4 G1 (ls(i := p # ls i)) bl" using d u s3 i by (auto simp: winv_def h4(2) upd_mempool_nth pool_ok_def)
    then have "free_spec h G r h4" by (rule fin) (use lv1 u s3 in \<open>auto simp: G1_def h4(2)\<close>)
    moreover have "MempoolFree i r h = Some h4" using run 1 cap h4(1) by simp
    ultimately show ?thesis by blast
  next
    case 2
    have "free_spec h G r h3" by (rule fin[OF w3[OF 2(1)]]) (use lv1 s3 in \<open>auto simp: G1_def\<close>)
    then show ?thesis using run 2 by simp
  next
    case 3
    define h4 where "h4 = upd_mempool i (\<lambda>m. m\<lparr>mp_freePagesCnt := mp_freePagesCnt m + 1\<rparr>) h3"
    have w4: "winv h4 G1 ls bl" unfolding h4_def by (rule winv_counter[OF w3[OF 3(1)] i])
    note d4 = winvD[OF w4] and l4 = lists_okD[OF winvD(6)[OF w4]]
    show ?thesis
    proof (cases "1 \<le> mp_freePagesCnt (a_dfxMempoolBuf h4 ! i)")
      case False
      have "free_spec h G r h4" by (rule fin[OF w4]) (use lv1 s3 in \<open>auto simp: G1_def h4_def\<close>)
      then show ?thesis using run 3 False by (simp add: h4_def[symmetric])
    next
      case True
      from MempoolRemovePage_ok[OF d4(2) i l4(1)[OF i] base3(3), of p] pin 3(1) obtain h5 l1 h1 where h5: "MempoolRemovePage i p h4 = Some h5"
        "h5 = upd_mempool i (\<lambda>m. m\<lparr>mp_pageList := l1\<rparr>) h1" "unlinked h4 h1" "dll (link h5) l1 (remove1 p (ls i))"
        "\<forall>q. q \<notin> set (ls i) \<longrightarrow> link h5 q = link h4 q" by auto
      note u = unlinked_same[OF h5(3)]
      define h6 where "h6 = h5\<lparr>h_map := (h_map h5)(p := None), h_page := (h_page h5)(p := None)\<rparr>"
      define G' where "G' = G1(p := None)"
      have s6: "a_dfxMempoolBuf h6 = a_dfxMempoolBuf h5" "a_pageList h6 = a_pageList h" "a_initFlag h6 = a_initFlag h" "h_map h6 = (h_map h)(p := None)"
        "h_bytes h6 = h_bytes h3" using u s3 by (simp_all add: h6_def h5(2) h4_def)
      have lk6: "link h6 q = link h5 q" if "q \<noteq> p" for q using that by (simp add: h6_def link_def)
      have hf': "has_free j (G' q) = (q \<noteq> p \<and> has_free j (G q))" for j q by (simp add: G'_def G1_def)
      have bg': "G' q = Some Big \<longleftrightarrow> G q = Some Big" for q using G by (simp add: G'_def G1_def)
      have "pages_ok h5 G1" using pages_ok_unlinked[OF d4(5) h5(3)] by (simp add: h5(2) pages_ok_frame[of "upd_mempool _ _ h1" h1])
      then have pages6: "pages_ok h6 G'" unfolding G'_def by (rule pages_ok_del) (simp_all add: h6_def)
      have np: "p \<notin> set (remove1 p (ls i))" using base3(3) by simp
      have "lists_ok h6 G' (ls(i := remove1 p (ls i))) bl"
      proof (rule lists_ok_pool[OF d(6) i])
        have "seg (link h6) 0 l1 (remove1 p (ls i)) 0 = seg (link h5) 0 l1 (remove1 p (ls i)) 0" using np by (intro seg_cong lk6) blast
        then show "dll (link h6) (mp_pageList (a_dfxMempoolBuf h6 ! i)) (remove1 p (ls i))"
          using h5(4) u d4(2) i by (simp add: s6 h5(2) upd_mempool_nth)
        show "set (remove1 p (ls i)) = {q. has_free i (G' q)}" using l(2,3)[OF i] by (auto simp: hf')
        fix q assume q: "G q = Some Big \<or> (\<exists>j < 7. j \<noteq> i \<and> has_free j (G q))"
        then have "q \<notin> set (ls i)" "q \<noteq> p" using l(3)[OF i] G by (auto elim!: has_free.elims)
        then show "link h6 q = link h q" using h5(5) lk lk6 by (simp add: h4_def)
      qed (use u s3 s6 d(2) i base3(3) in \<open>auto simp: h5(2) h4_def upd_mempool_nth hf' bg' hfp\<close>)
      then have "winv h6 G' (ls(i := remove1 p (ls i))) bl"
        using pages6 maps_ok_del[OF d(4)] d u s3 s6 i by (auto simp: winv_def h5(2) h4_def upd_mempool_nth pool_ok_def)
      from winv_counter[OF this i, of "\<lambda>m. mp_freePagesCnt m - 1"]
      have w7: "winv (upd_mempool i (\<lambda>m. m\<lparr>mp_freePagesCnt := mp_freePagesCnt m - 1\<rparr>) h6) G' (ls(i := remove1 p (ls i))) bl" .
      have "{..<f} - set (k # ks) = {}"
      proof -
        have "length (k # ks) = f" using 3(2) pl(2) len by (simp add: c_def)
        moreover have "distinct (k # ks)" using pl(4) k(3) by simp
        ultimately have "card (set (k # ks)) = card {..<f}" using distinct_card[of "k # ks"] by simp
        moreover have "set (k # ks) \<subseteq> {..<f}" using pl(3) k(2) by simp
        ultimately have "set (k # ks) = {..<f}" by (intro card_subset_eq) simp_all
        then show ?thesis by simp
      qed
      then have e: "live_in p (Pool i ks f) - {r} = {}"
        unfolding lv1[symmetric] by (simp only: G1_def fun_upd_same option.case live_in.simps image_empty)
      have "free_spec h G r (upd_mempool i (\<lambda>m. m\<lparr>mp_freePagesCnt := mp_freePagesCnt m - 1\<rparr>) h6)"
        by (rule fin[OF w7]) (use e s6 in \<open>auto simp: G'_def G1_def\<close>)
      moreover have "MempoolFree i r h = Some (upd_mempool i (\<lambda>m. m\<lparr>mp_freePagesCnt := mp_freePagesCnt m - 1\<rparr>) h6)"
      proof -
        have "h_page h4 p = Some g3" "mp_blocksPerPage (a_dfxMempoolBuf h4 ! i) = of_nat (cap i)" "pi_freeBlocksCnt g3 = of_nat (cap i)"
          using s3(5) d4(3)[OF i] 3(2)[symmetric] by (simp_all add: h4_def pool_ok_def g3_def)
        moreover have "munmap p DFX_PAGE_SIZE h5 = Some h6" using u s3 pp(1) by (simp add: munmap_def h6_def h5(2) h4_def DFX_PAGE_SIZE_def)
        ultimately have "MempoolFreePage i p h4 = Some (upd_mempool i (\<lambda>m. m\<lparr>mp_freePagesCnt := mp_freePagesCnt m - 1\<rparr>) h6)"
          using h5(1) by (simp add: MempoolFreePage_def)
        then show ?thesis using run 3(2) True by (simp add: h4_def[symmetric])
      qed
      ultimately show ?thesis by blast
    qed
  qed
qed

lemma GetPage_live:
  assumes "winv h G ls bl" "G p = Some x" "r \<in> live_in p x"
  shows "GetPage r h = Some p"
proof -
  note d = winvD[OF assms(1)]
  obtain g n where "h_page h p = Some g" "page_ok g n (h_block h) p x" using pages_okD[OF d(5) assms(2)] by blast
  then show ?thesis using GetPageUnchecked_live[OF d(5,4) assms(2,3)] by (cases x) (auto simp: GetPage_def)
qed

lemma live_nz:
  assumes "winv h G ls bl" "G p = Some x" "r \<in> live_in p x"
  shows "r \<noteq> 0" "p \<noteq> 0"
proof -
  note d = winvD[OF assms(1)]
  obtain m where m: "h_map h p = Some m" using pages_okD[OF d(5) assms(2)] by blast
  from chunk_bounds(1)[OF d(5,4) assms(2) m assms(3) refl] show "r \<noteq> 0" by (metis add_is_0 le_zero_eq unat_0 zero_neq_numeral)
  show "p \<noteq> 0" using pool_aligned[OF d(5,4) assms(2)] by simp
qed

lemma pool_type:
  assumes "i < 7"
  shows "(of_nat (4 + i) :: u32) \<noteq> DFX_MMAP_TYPE" "is_pool_type (of_nat (4 + i))" "unat (of_nat (4 + i) - DFX_MEMPOOL_MIN_TYPE :: u32) = i"
  using pool_cases[OF assms] by (auto simp: DFX_MMAP_TYPE_def is_pool_type_def DFX_MEMPOOL_MIN_TYPE_def DFX_MEMPOOL_MAX_TYPE_def)

lemma GetChunkSize_chunk:
  assumes "winv h G ls bl" "chunk h G r n"
  shows "GetChunkSize r h = Some n"
proof -
  note d = winvD[OF assms(1)]
  obtain p x m where p: "G p = Some x" "h_map h p = Some m" "r \<in> live_in p x" "n = chunk_size m x" using assms(2) unfolding chunk_def by blast
  obtain g where g: "h_page h p = Some g" "page_ok g m (h_block h) p x" using pages_okD[OF d(5) p(1)] p(2) by auto
  note gp = GetPage_live[OF assms(1) p(1,3)] and nz = live_nz[OF assms(1) p(1,3)]
  show ?thesis
  proof (cases x)
    case (Pool i ks f)
    then have i: "i < 7" "pi_type g = of_nat (4 + i)" using g(2) by auto
    have "mp_blockSize (a_dfxMempoolBuf h ! i) = of_nat (bsize i)" using d(3)[OF i(1)] by (simp add: pool_ok_def)
    then show ?thesis using gp nz g(1) i(2) pool_type[OF i(1)] p(4) Pool by (simp add: GetChunkSize_def del: of_nat_add)
  next
    case Big
    then have "r - p = 48" using p(3) by simp
    then show ?thesis using gp nz g p(4) Big by (simp add: GetChunkSize_def)
  qed
qed

lemma free_big:
  assumes w: "winv h G ls bl" and G: "G p = Some Big" and r: "r \<in> live_in p Big"
  shows "\<exists>h'. DfxFree r h = Some h' \<and> free_spec h G r h'"
proof -
  note d = winvD[OF w] and l = lists_okD[OF winvD(6)[OF w]]
  obtain g m where g: "h_page h p = Some g" "h_map h p = Some m" "page_ok g m (h_block h) p Big" using pages_okD[OF d(5) G] by blast
  from RemovePage_dll[OF l(4,5)] l(6) G obtain a h1 where h1: "RemovePage (a_pageList h) p h = Some (a, h1)" "dll (link h1) a (remove1 p bl)"
    "unlinked h h1" "\<forall>q. q \<notin> set bl \<longrightarrow> link h1 q = link h q" by blast
  note u = unlinked_same[OF h1(3)]
  define h2 where "h2 = h1\<lparr>a_pageList := a, h_map := (h_map h)(p := None), h_page := (h_page h1)(p := None)\<rparr>"
  define G' where "G' = G(p := None)"
  have lk: "link h2 q = link h1 q" if "q \<noteq> p" for q using that by (simp add: h2_def link_def)
  have pages: "pages_ok h2 G'"
    unfolding G'_def by (rule pages_ok_del[OF pages_ok_unlinked[OF d(5) h1(3)]]) (use u in \<open>simp_all add: h2_def\<close>)
  have "lists_ok h2 G' ls (remove1 p bl)"
  proof (rule lists_ok_big[OF d(6)])
    have "seg (link h2) 0 a (remove1 p bl) 0 = seg (link h1) 0 a (remove1 p bl) 0" using l(5) by (intro seg_cong lk) auto
    then show "dll (link h2) (a_pageList h2) (remove1 p bl)" using h1(2) by (simp add: h2_def)
    show "set (remove1 p bl) = {q. G' q = Some Big}" using l(5,6) by (auto simp: G'_def)
    fix q j assume "j < (7 :: nat)"
    show "has_free j (G' q) = has_free j (G q)" using G by (auto simp: G'_def)
    show "link h2 q = link h q" if "has_free j (G q)"
    proof -
      have "q \<noteq> p" "q \<notin> set bl" using that G l(6) by auto
      then show ?thesis using h1(4) lk by simp
    qed
  qed (use u l(5) in \<open>simp_all add: h2_def\<close>)
  then have w': "winv h2 G' ls (remove1 p bl)" using pages maps_ok_del[OF d(4)] d u by (simp add: winv_def h2_def)
  have e: "(case G' p of None \<Rightarrow> {} | Some y \<Rightarrow> live_in p y) = live_in p Big - {r}" using r by (simp add: G'_def)
  have o: "q \<noteq> p \<Longrightarrow> G' q = G q" for q by (simp add: G'_def)
  have "keeps h G h2 G' (live_blocks G - {r})"
    by (rule keeps_del[OF d(5,4) G g(2) r o e]) (use u in \<open>auto simp: G'_def h2_def\<close>)
  then have "free_spec h G r h2" using w' live_del[OF d(5,4) G r o e] unfolding free_spec_def by blast
  moreover have "DfxFree r h = Some h2"
    using GetPage_live[OF w G r] live_nz[OF w G r] d(1) g h1(1) u by (simp add: DfxFree_def munmap_def h2_def)
  ultimately show ?thesis by blast
qed

lemma DfxFree_spec:
  assumes w: "winv h G ls bl" and r: "r \<in> live_blocks G"
  shows "\<exists>h'. DfxFree r h = Some h' \<and> free_spec h G r h'"
proof -
  note d = winvD[OF w]
  obtain p x where p: "G p = Some x" "r \<in> live_in p x" using r unfolding live_blocks_def by blast
  show ?thesis
  proof (cases x)
    case (Pool i ks f)
    obtain g n where g: "h_page h p = Some g" "page_ok g n (h_block h) p x" using pages_okD[OF d(5) p(1)] by blast
    then have i: "i < 7" "pi_type g = of_nat (4 + i)" using Pool by auto
    have "DfxFree r h = MempoolFree i r h"
      using GetPage_live[OF w p] live_nz[OF w p] d(1) g(1) i(2) pool_type[OF i(1)] by (simp add: DfxFree_def del: of_nat_add)
    then show ?thesis using MempoolFree_spec[OF w, of p i ks f r] p Pool by simp
  next
    case Big
    then show ?thesis using free_big[OF w, of p r] p by simp
  qed
qed

text \<open>The loop counts the binary digits.\<close>

lemma SelectMempoolType_loop_digits:
  "unat n < 2 ^ k \<Longrightarrow> k = 0 \<or> 2 ^ (k - 1) \<le> unat n \<Longrightarrow> SelectMempoolType_loop n res = res + of_nat k"
proof (induction k arbitrary: n res)
  case 0
  then have "n = 0" by (simp add: unat_eq_0)
  then show ?case by (subst SelectMempoolType_loop.simps) simp
next
  case (Suc k)
  then have n: "2 ^ k \<le> unat n" "unat n < 2 * 2 ^ k" by auto
  then have "n \<noteq> 0" by (metis le_zero_eq power_not_zero unat_0 zero_neq_numeral)
  have u: "unat (drop_bit 1 n) = unat n div 2" by (simp add: drop_bit_Suc unat_div)
  have "SelectMempoolType_loop (drop_bit 1 n) (res + 1) = res + 1 + of_nat k"
  proof (rule Suc.IH)
    show "unat (drop_bit 1 n) < 2 ^ k" using n u by simp
    show "k = 0 \<or> 2 ^ (k - 1) \<le> unat (drop_bit 1 n)"
    proof (cases k)
      case (Suc j)
      then show ?thesis using n(1) u by simp
    qed simp
  qed
  then show ?case using \<open>n \<noteq> 0\<close> by (subst SelectMempoolType_loop.simps) simp
qed

lemma digits_exist: "\<exists>k. (m :: nat) < 2 ^ k \<and> (k = 0 \<or> 2 ^ (k - 1) \<le> m)"
proof -
  define k where "k = (LEAST k. m < 2 ^ k)"
  have "m < 2 ^ k" unfolding k_def by (rule LeastI[of _ m]) simp
  moreover have "k = 0 \<or> 2 ^ (k - 1) \<le> m" using not_less_Least[of "k - 1" "\<lambda>k. m < 2 ^ k"] unfolding k_def[symmetric] by (cases k) auto
  ultimately show ?thesis by blast
qed

lemma ready_same [simp]: "h_map (ready h) = h_map h" "h_page (ready h) = h_page h" "h_block (ready h) = h_block h" "h_bytes (ready h) = h_bytes h"
  by (simp_all add: ready_def InitDfxAllocator_def)

lemma winv_ready: "winv h G ls bl \<Longrightarrow> ready h = h" by (simp add: winv_def ready_def)

lemma alloc_inv_init: "alloc_inv g_dfxAllocator {}"
proof -
  have "winv (InitDfxAllocator g_dfxAllocator) Map.empty (\<lambda>_. []) []"
  proof -
    have "pool_ok i (a_dfxMempoolBuf (InitDfxAllocator g_dfxAllocator) ! i)" if "i < 7" for i
      using pool_cases[OF that]
      by (elim disjE) (simp_all add: InitDfxAllocator_def pool_ok_def bsize_def cap_def DFX_MEMPOOLS_NUM_def DFX_MEMPOOL_MIN_TYPE_def DFX_PAGE_SIZE_def sizeof_PageInfo_def Let_def upt_rec)
    moreover have "mp_pageList (a_dfxMempoolBuf (InitDfxAllocator g_dfxAllocator) ! i) = 0" if "i < 7" for i
      using that by (simp add: InitDfxAllocator_def DFX_MEMPOOLS_NUM_def Let_def)
    ultimately show ?thesis
      by (simp add: winv_def maps_ok_def pages_ok_def lists_ok_def) (simp add: InitDfxAllocator_def g_dfxAllocator_def DFX_MEMPOOLS_NUM_def)
  qed
  moreover have "live_blocks Map.empty = {}" by (simp add: live_blocks_def)
  moreover have "ready g_dfxAllocator = InitDfxAllocator g_dfxAllocator" by (simp add: ready_def g_dfxAllocator_def)
  ultimately show ?thesis unfolding alloc_inv_def by metis
qed

lemma SelectMempoolType_fits:
  assumes "0 < unat sz" "unat sz \<le> 1024"
    and "t = (if SelectMempoolType sz < DFX_MEMPOOL_MIN_TYPE then DFX_MEMPOOL_MIN_TYPE else SelectMempoolType sz)"
  shows "unat (t - DFX_MEMPOOL_MIN_TYPE) < 7" "unat sz \<le> bsize (unat (t - DFX_MEMPOOL_MIN_TYPE))"
proof -
  have u: "unat (sz - 1) = unat sz - 1" using assms(1) by (simp add: unat_sub word_le_nat_alt)
  obtain k where k: "unat sz - 1 < 2 ^ k" "k = 0 \<or> 2 ^ (k - 1) \<le> unat sz - 1" using digits_exist by blast
  have sel: "SelectMempoolType sz = of_nat k" unfolding SelectMempoolType_def using SelectMempoolType_loop_digits[of "sz - 1" k 0] k u by simp
  have k10: "k \<le> 10"
  proof (rule ccontr)
    assume "\<not> k \<le> 10"
    then have "(2 :: nat) ^ 10 \<le> 2 ^ (k - 1)" by (intro power_increasing) auto
    then show False using k(2) \<open>\<not> k \<le> 10\<close> assms(2) by auto
  qed
  have uk: "unat (of_nat k :: u32) = k" using k10 by (simp add: unat_of_nat)
  have t: "unat (t - DFX_MEMPOOL_MIN_TYPE) = k - 4"
  proof (cases "k < 4")
    case True
    then show ?thesis using assms(3) sel uk by (simp add: DFX_MEMPOOL_MIN_TYPE_def word_less_nat_alt)
  next
    case False
    then have "t = of_nat k" using assms(3) sel uk by (simp add: DFX_MEMPOOL_MIN_TYPE_def word_less_nat_alt)
    then show ?thesis using False uk by (simp add: DFX_MEMPOOL_MIN_TYPE_def unat_sub word_le_nat_alt)
  qed
  show "unat (t - DFX_MEMPOOL_MIN_TYPE) < 7" using t k10 by simp
  have "(2 :: nat) ^ k \<le> 2 ^ (4 + (k - 4))" by (intro power_increasing) auto
  then show "unat sz \<le> bsize (unat (t - DFX_MEMPOOL_MIN_TYPE))" using k(1) unfolding bsize_def t by linarith
qed

lemma DfxAlloc_spec:
  assumes w: "winv (ready h) G ls bl" and m: "mmap_ok mptr sz h"
  shows "\<exists>r h'. DfxAlloc mptr sz h = Some (r, h') \<and> alloc_spec (ready h) G sz r h' \<and> (mptr \<noteq> None \<longrightarrow> unat sz + 4143 < 2 ^ 64 \<longrightarrow> r \<noteq> 0)"
proof -
  define s where "s = (if sz = 0 then 1 else sz)"
  have s0: "0 < unat s" "sz \<le> s" by (auto simp: s_def unat_gt_0)
  have weak: "alloc_spec (ready h) G sz r h'" if a: "alloc_spec (ready h) G s r h'" for r h'
  proof -
    from a obtain G' ls' bl' where g: "winv h' G' ls' bl'" "keeps (ready h) G h' G' (live_blocks G)" "if r = 0 then live_blocks G' = live_blocks G
       else r \<notin> live_blocks G \<and> live_blocks G' = insert r (live_blocks G) \<and> (\<exists>n. chunk h' G' r n \<and> s \<le> n \<and> (\<forall>y. in_range r n y \<longrightarrow> h_bytes h' y = 0))"
      unfolding alloc_spec_def by blast
    have "s \<le> n \<Longrightarrow> sz \<le> n" for n using s0(2) by (rule order_trans)
    with g show ?thesis unfolding alloc_spec_def by (intro exI[of _ G'] exI[of _ ls'] exI[of _ bl']) (cases "r = 0"; auto)
  qed
  show ?thesis
  proof (cases "s \<le> 1024")
    case True
    define t where "t = (if SelectMempoolType s < DFX_MEMPOOL_MIN_TYPE then DFX_MEMPOOL_MIN_TYPE else SelectMempoolType s)"
    have "unat s \<le> 1024" using True by (simp add: word_le_nat_alt)
    note t = SelectMempoolType_fits[OF s0(1) this t_def]
    have "\<exists>r h'. MempoolAlloc mptr (unat (t - DFX_MEMPOOL_MIN_TYPE)) (ready h) = Some (r, h') \<and> alloc_spec (ready h) G s r h' \<and> (mptr \<noteq> None \<longrightarrow> r \<noteq> 0)"
      by (rule MempoolAlloc_spec[OF w t(1) _ t(2)]) (use m True in \<open>simp add: mmap_ok_def map_len_def s_def\<close>)
    moreover have "DfxAlloc mptr sz h = MempoolAlloc mptr (unat (t - DFX_MEMPOOL_MIN_TYPE)) (ready h)"
      using leD[OF True] by (simp add: DfxAlloc_def AllocImpl_def Let_def s_def[symmetric] ready_def[symmetric] t_def[symmetric] DFX_MEMPOOL_MAX_BLOCK_SIZE_def)
    ultimately show ?thesis using weak by metis
  next
    case False
    then have "s = sz" by (auto simp: s_def split: if_splits)
    then have "\<exists>r h'. AllocMmap mptr ALIGN_SIZE sz (ready h) = Some (r, h') \<and> alloc_spec (ready h) G sz r h'
        \<and> (mptr \<noteq> None \<longrightarrow> unat sz + 4143 < 2 ^ 64 \<longrightarrow> r \<noteq> 0)"
      using m False by (intro AllocMmap_spec[OF w]) (simp add: mmap_ok_def map_len_def s_def)
    moreover have "DfxAlloc mptr sz h = AllocMmap mptr ALIGN_SIZE sz (ready h)"
      using False \<open>s = sz\<close> by (simp add: DfxAlloc_def AllocImpl_def Let_def s_def[symmetric] ready_def[symmetric] DFX_MEMPOOL_MAX_BLOCK_SIZE_def not_le)
    ultimately show ?thesis by metis
  qed
qed

lemma keepsD: "keeps h G h' G' S \<Longrightarrow> s \<in> S \<Longrightarrow> chunk h G s n \<Longrightarrow> chunk h' G' s n \<and> (\<forall>y. in_range s n y \<longrightarrow> h_bytes h' y = h_bytes h y)"
  unfolding keeps_def by blast

text \<open>The blocks that wait in a page are not in a chunk of the client.\<close>

lemma free_block_apart:
  assumes w: "winv h G ls bl" and c: "chunk h G r n" and G: "G q = Some (Pool j us u)" and k: "k \<in> set us \<or> k = u \<and> u < cap j"
  shows "\<not> in_range r n (blk j q k)"
proof -
  note d = winvD[OF w]
  obtain p x m where p: "G p = Some x" "h_map h p = Some m" "r \<in> live_in p x" "n = chunk_size m x" using c unfolding chunk_def by blast
  note pl = pool_lt[OF d(5) G] and al = pool_aligned[OF d(5,4) G, THEN conjunct1]
  have kc: "k < cap j" using k pl(2,3) by auto
  show ?thesis
  proof (cases "p = q")
    case True
    then have x: "x = Pool j us u" using p(1) G by simp
    then obtain a where a: "r = blk j q a" "a < u" "a \<notin> set us" using p(3) True by auto
    have "a \<noteq> k" "a < cap j" using a k pl(2) by auto
    then show ?thesis using blk_apart[OF pl(1) al _ pl(1) al kc, of a] a(1) p(4) x by simp
  next
    case False
    note b = chunk_bounds[OF d(5,4) p]
    obtain g where "h_page h q = Some g" using pages_okD[OF d(5) G] by blast
    note mq = pages_ok_pool(1)[OF d(5,4) G this]
    have "unat p + unat m \<le> unat q \<or> unat q + 4096 \<le> unat p" using d(4) p(2) mq False unfolding maps_ok_def by force
    moreover note blk_page(2)[OF pl(1) al kc] blk_bound[OF pl(1) kc] pool_layout(4)[OF pl(1)] b(1,2,3)
    ultimately show ?thesis using in_range_iff[of r n "blk j q k"] by linarith
  qed
qed

lemma winv_store:
  assumes w: "winv h G ls bl" and c: "chunk h G r n" and s: "\<And>x. \<not> in_range r n x \<Longrightarrow> B x = h_block h x"
  shows "winv (h\<lparr>h_bytes := D, h_block := B\<rparr>) G ls bl"
proof -
  note d = winvD[OF w]
  have "pages_ok (h\<lparr>h_bytes := D, h_block := B\<rparr>) G"
  proof (rule pages_okI)
    fix p x assume p: "G p = Some x"
    obtain g m where g: "h_page h p = Some g" "h_map h p = Some m" "page_ok g m (h_block h) p x" using pages_okD[OF d(5) p] by blast
    have "page_ok g m B p x"
    proof (cases x)
      case (Pool i ks f)
      have "block_chain B i p f ks (pi_freeBlockList g) = block_chain (h_block h) i p f ks (pi_freeBlockList g)"
        using free_block_apart[OF w c p[unfolded Pool]] by (intro chain_cong s) blast
      then show ?thesis using g(3) Pool by simp
    qed (use g(3) in simp)
    then show "\<exists>g n. h_page (h\<lparr>h_bytes := D, h_block := B\<rparr>) p = Some g \<and> h_map (h\<lparr>h_bytes := D, h_block := B\<rparr>) p = Some n
        \<and> page_ok g n (h_block (h\<lparr>h_bytes := D, h_block := B\<rparr>)) p x" using g by simp
  qed (use pages_ok_dom[OF d(5)] in simp_all)
  moreover have "link (h\<lparr>h_bytes := D, h_block := B\<rparr>) = link h" by (simp add: link_def fun_eq_iff)
  ultimately show ?thesis using w by (simp add: winv_def lists_ok_def)
qed

lemma winv_memcpy:
  assumes "winv h G ls bl"
  shows "winv (memcpy a b n h) G ls bl"
proof -
  have "link (memcpy a b n h) = link h" by (simp add: memcpy_def link_def fun_eq_iff)
  then show ?thesis using assms by (simp add: winv_def lists_ok_def memcpy_def pages_ok_def)
qed

lemma chunk_memcpy [simp]: "chunk (memcpy a b n h) G = chunk h G"
  by (simp add: chunk_def memcpy_def fun_eq_iff)

lemma live_chunk:
  assumes "winv h G ls bl" "r \<in> live_blocks G"
  obtains n where "chunk h G r n" "GetChunkSize r h = Some n" "r \<noteq> 0" "16 dvd unat r" "n \<noteq> 0"
proof -
  note d = winvD[OF assms(1)]
  obtain p x where p: "G p = Some x" "r \<in> live_in p x" using assms(2) unfolding live_blocks_def by blast
  obtain m g where m: "h_map h p = Some m" "page_ok g m (h_block h) p x" using pages_okD[OF d(5) p(1)] by blast
  define n where "n = chunk_size m x"
  have c: "chunk h G r n" using p m(1) n_def unfolding chunk_def by blast
  note b = chunk_bounds[OF d(5,4) p(1) m(1) p(2) n_def]
  have "4096 \<le> unat m" using d(4) m(1) unfolding maps_ok_def by blast
  then have "x = Big \<Longrightarrow> unat n = unat m - 48" by (simp add: n_def unat_sub word_le_nat_alt)
  then have "n \<noteq> 0" using b(5) \<open>4096 \<le> unat m\<close> by fastforce
  then show ?thesis using that c GetChunkSize_chunk[OF assms(1) c] live_nz(1)[OF assms(1) p] b(4) by blast
qed

text \<open>What a reallocation does: it keeps the block, or moves its bytes to a new one.\<close>

lemma DfxRealloc_spec:
  assumes w: "winv (ready h) G ls bl" and r: "r \<in> live_blocks G" and m: "mmap_ok mptr sz h" and n: "GetChunkSize r (ready h) = Some n"
  shows "\<exists>s h' G' ls' bl'. DfxRealloc mptr r sz h = Some (s, h') \<and> winv h' G' ls' bl' \<and> live_blocks G' = (if s = 0 then live_blocks G else insert s (live_blocks G - {r}))
    \<and> keeps (ready h) G h' G' (live_blocks G - {r})
    \<and> (s = 0 \<longrightarrow> sz = 0) \<and> (s = r \<longrightarrow> keeps (ready h) G h' G' {r})
    \<and> (s \<noteq> 0 \<longrightarrow> s \<noteq> r \<longrightarrow> s \<notin> live_blocks G \<and> (\<exists>k. chunk h' G' s k \<and> sz \<le> k) \<and> (\<forall>y. y < n \<longrightarrow> h_bytes h' (s + y) = h_bytes h (r + y)))"
proof -
  obtain k where k: "chunk (ready h) G r k" "GetChunkSize r (ready h) = Some k" "r \<noteq> 0" "k \<noteq> 0" using live_chunk[OF w r] by metis
  then have kn: "k = n" using n by simp
  have def: "DfxRealloc mptr r sz h = (if sz = 0 then Some (0, ready h) else if n < sz then
      (case DfxAlloc mptr sz (ready h) of None \<Rightarrow> None | Some (res, h1) \<Rightarrow>
        if res \<noteq> 0 then (case DfxFree r (memcpy res r n h1) of None \<Rightarrow> None | Some h2 \<Rightarrow> Some (res, h2)) else Some (r, h1))
    else Some (r, ready h))"
    using k n kn by (auto simp: DfxRealloc_def ready_def[symmetric] Let_def split: option.splits bind_splits)
  have rr: "ready (ready h) = ready h" using winv_ready[OF w] .
  consider "sz = 0" | "sz \<noteq> 0" "\<not> n < sz" | "sz \<noteq> 0" "n < sz" by blast
  then show ?thesis
  proof cases
    case 1
    then show ?thesis using def w keeps_refl k(3) by (intro exI[of _ 0] exI[of _ "ready h"] exI[of _ G] exI[of _ ls] exI[of _ bl]) auto
  next
    case 2
    then show ?thesis using def w keeps_refl k(3) r by (intro exI[of _ r] exI[of _ "ready h"] exI[of _ G] exI[of _ ls] exI[of _ bl]) auto
  next
    case 3
    have m': "mmap_ok mptr sz (ready h)" using m by (simp add: mmap_ok_def)
    from DfxAlloc_spec[OF _ m', unfolded rr, OF w] obtain s h1 where a: "DfxAlloc mptr sz (ready h) = Some (s, h1)" "alloc_spec (ready h) G sz s h1" by blast
    from a(2) obtain G1 ls1 bl1 where g: "winv h1 G1 ls1 bl1" "keeps (ready h) G h1 G1 (live_blocks G)" "if s = 0 then live_blocks G1 = live_blocks G
       else s \<notin> live_blocks G \<and> live_blocks G1 = insert s (live_blocks G) \<and> (\<exists>n. chunk h1 G1 s n \<and> sz \<le> n \<and> (\<forall>y. in_range s n y \<longrightarrow> h_bytes h1 y = 0))"
      unfolding alloc_spec_def by blast
    show ?thesis
    proof (cases "s = 0")
      case True
      have "keeps (ready h) G h1 G1 (live_blocks G - {r})" "keeps (ready h) G h1 G1 {r}" using g(2) r unfolding keeps_def by blast+
      then show ?thesis using def 3 a(1) True g(1,3) k(3) r
        by (intro exI[of _ r] exI[of _ h1] exI[of _ G1] exI[of _ ls1] exI[of _ bl1]) auto
    next
      case False
      with g(3) obtain l where s: "s \<notin> live_blocks G" "live_blocks G1 = insert s (live_blocks G)" "chunk h1 G1 s l" "sz \<le> l" by auto
      have sr: "s \<noteq> r" using s(1) r by auto
      note d1 = winvD[OF g(1)]
      have cr: "chunk h1 G1 r n" using keepsD[OF g(2) r k(1)] kn by simp
      have nl: "n \<le> l" using 3(2) s(4) by simp
      define h2 where "h2 = memcpy s r n h1"
      have w2: "winv h2 G1 ls1 bl1" unfolding h2_def by (rule winv_memcpy[OF g(1)])
      have "r \<in> live_blocks G1" using s(2) r by simp
      from DfxFree_spec[OF w2 this] obtain h3 where f: "DfxFree r h2 = Some h3" "free_spec h2 G1 r h3" by blast
      then obtain G3 ls3 bl3 where f3: "winv h3 G3 ls3 bl3" "live_blocks G3 = live_blocks G1 - {r}" "keeps h2 G1 h3 G3 (live_blocks G1 - {r})" unfolding free_spec_def by blast
      have in_sl: "in_range s n y \<Longrightarrow> in_range s l y" for y using nl unfolding in_range_def by simp
      have k12: "keeps h1 G1 h2 G1 (live_blocks G - {r})"
        unfolding keeps_def
      proof (intro allI impI conjI)
        fix t j y assume t: "t \<in> live_blocks G - {r}" "chunk h1 G1 t j" "in_range t j y"
        have "\<not> in_range s l y" using chunks_apart[OF d1(5,4) t(2) s(3) _ t(3)] t(1) s(1) by blast
        then show "h_bytes h2 y = h_bytes h1 y" using in_sl by (auto simp: h2_def memcpy_def)
      qed (simp add: h2_def)
      have sub: "live_blocks G - {r} \<subseteq> live_blocks G1 - {r}" using s(2) by auto
      have k01: "keeps (ready h) G h1 G1 (live_blocks G - {r})" using g(2) unfolding keeps_def by blast
      have k23: "keeps h2 G1 h3 G3 (live_blocks G - {r})" using f3(3) sub unfolding keeps_def by blast
      have "s \<in> live_blocks G1 - {r}" using s(2) sr by simp
      from keepsD[OF f3(3) this] have cs: "chunk h3 G3 s l" "\<And>y. in_range s l y \<Longrightarrow> h_bytes h3 y = h_bytes h2 y" using s(3) by (simp_all add: h2_def)
      have bytes: "h_bytes h3 (s + y) = h_bytes h (r + y)" if "y < n" for y
      proof -
        have iy: "in_range s n (s + y)" "in_range r n (r + y)" using that by (simp_all add: in_range_def)
        have "h_bytes h3 (s + y) = h_bytes h2 (s + y)" using cs(2) in_sl iy(1) by blast
        also have "\<dots> = h_bytes h1 (r + y)" using iy(1) by (simp add: h2_def memcpy_def)
        also have "\<dots> = h_bytes h (r + y)" using keepsD[OF g(2) r k(1)] iy(2) kn by simp
        finally show ?thesis .
      qed
      have "DfxRealloc mptr r sz h = Some (s, h3)" using def 3 a(1) False f(1) by (simp add: h2_def)
      moreover have "live_blocks G3 = insert s (live_blocks G - {r})" using f3(2) s(2) sr by auto
      ultimately show ?thesis
        using f3(1) keeps_trans[OF k01 keeps_trans[OF k12 k23]] False sr s(1,4) cs(1) bytes
        by (intro exI[of _ s] exI[of _ h3] exI[of _ G3] exI[of _ ls3] exI[of _ bl3]) auto
    qed
  qed
qed

lemma alloc_inv_winv: "winv h G ls bl \<Longrightarrow> live_blocks G = L \<Longrightarrow> alloc_inv h L"
  using winv_ready[of h G ls bl] unfolding alloc_inv_def by metis

lemma alloc_inv_live:
  assumes "alloc_inv h L" "r \<in> L"
  shows "\<exists>G ls bl. winv h G ls bl \<and> live_blocks G = L \<and> ready h = h"
  using assms unfolding alloc_inv_def by fastforce

lemma DfxRealloc_ready:
  assumes "winv h G ls bl" "r \<in> live_blocks G" "mmap_ok mptr sz h" "GetChunkSize r h = Some n"
  shows "\<exists>s h' G' ls' bl'. DfxRealloc mptr r sz h = Some (s, h') \<and> winv h' G' ls' bl' \<and> live_blocks G' = (if s = 0 then live_blocks G else insert s (live_blocks G - {r}))
    \<and> keeps h G h' G' (live_blocks G - {r}) \<and> (s = 0 \<longrightarrow> sz = 0)
    \<and> (s \<noteq> 0 \<longrightarrow> s \<noteq> r \<longrightarrow> s \<notin> live_blocks G \<and> (\<exists>k. chunk h' G' s k \<and> sz \<le> k) \<and> (\<forall>y. y < n \<longrightarrow> h_bytes h' (s + y) = h_bytes h (r + y)))"
proof -
  note e = winv_ready[OF assms(1)]
  show ?thesis using DfxRealloc_spec[of h G ls bl r mptr sz n, unfolded e, OF assms] by blast
qed

lemma client_step_inv: "client_step a b \<Longrightarrow> alloc_inv (fst a) (snd a) \<Longrightarrow> alloc_inv (fst b) (snd b)"
proof (induction rule: client_step.induct)
  case (alloc mptr sz h r h' L)
  then obtain G ls bl where w: "winv (ready h) G ls bl" "live_blocks G = L" unfolding alloc_inv_def by auto
  from DfxAlloc_spec[OF w(1) alloc(1)] alloc(2) have "alloc_spec (ready h) G sz r h'" by auto
  then obtain G' ls' bl' where "winv h' G' ls' bl'" "live_blocks G' = (if r = 0 then L else insert r L)" using w(2) unfolding alloc_spec_def by (cases "r = 0") auto
  then show ?case using alloc_inv_winv by simp
next
  case (free r L h h')
  then obtain G ls bl where w: "winv h G ls bl" "live_blocks G = L" using alloc_inv_live[of h L r] free(1) by fastforce
  from DfxFree_spec[OF w(1), of r] free(1,2) w(2) have "free_spec h G r h'" by auto
  then show ?case using w(2) alloc_inv_winv unfolding free_spec_def by auto
next
  case (realloc r L mptr sz h s h')
  then obtain G ls bl where w: "winv h G ls bl" "live_blocks G = L" using alloc_inv_live[of h L r] realloc(1) by fastforce
  obtain n where n: "GetChunkSize r h = Some n" using live_chunk[OF w(1), of r] realloc(1) w(2) by metis
  from DfxRealloc_ready[OF w(1) _ realloc(2) n] realloc(1,3) w(2) obtain G' ls' bl'
    where "winv h' G' ls' bl'" "live_blocks G' = (if s = 0 then L else insert s (L - {r}))" by auto
  then show ?case using alloc_inv_winv by simp
next
  case (store r L h n D B)
  then obtain G ls bl where w: "winv h G ls bl" "live_blocks G = L" using alloc_inv_live[of h L r] store(1) by fastforce
  obtain m where m: "chunk h G r m" "GetChunkSize r h = Some m" using live_chunk[OF w(1), of r] store(1) w(2) by metis
  then have "m = n" using store(2) by simp
  then show ?case using winv_store[OF w(1) m(1), of B D] store(3) w(2) alloc_inv_winv by simp
qed

lemma reachable_inv: "client_step\<^sup>*\<^sup>* (g_dfxAllocator, {}) (h, L) \<Longrightarrow> alloc_inv h L"
proof -
  have "client_step\<^sup>*\<^sup>* a b \<Longrightarrow> alloc_inv (fst a) (snd a) \<Longrightarrow> alloc_inv (fst b) (snd b)" for a b
    by (induction rule: rtranclp_induct) (auto intro: client_step_inv)
  from this[of "(g_dfxAllocator, {})" "(h, L)"] show "client_step\<^sup>*\<^sup>* (g_dfxAllocator, {}) (h, L) \<Longrightarrow> alloc_inv h L"
    using alloc_inv_init by simp
qed

text \<open>A first block of a process.\<close>

lemma first_block:
  "\<exists>r h. client_step\<^sup>*\<^sup>* (g_dfxAllocator, {}) (h, {r}) \<and> r \<noteq> 0 \<and> DfxAlloc (Some 0x10000) 24 g_dfxAllocator = Some (r, h)"
proof -
  have m: "mmap_ok (Some 0x10000) 24 g_dfxAllocator" by (simp add: mmap_ok_def map_len_def fresh_def aligned_def g_dfxAllocator_def)
  obtain G ls bl where w: "winv (ready g_dfxAllocator) G ls bl" using alloc_inv_init unfolding alloc_inv_def by blast
  from DfxAlloc_spec[OF w m] obtain r h where r: "DfxAlloc (Some 0x10000) 24 g_dfxAllocator = Some (r, h)" "r \<noteq> 0" by auto
  from client_step.alloc[OF m r(1), of "{}"] r(2) have "client_step (g_dfxAllocator, {}) (h, {r})" by simp
  then show ?thesis using r by blast
qed

text \<open>
  C10. However a process allocates, frees, reallocates and writes to its blocks, no operation of the allocator is
  undefined, and the blocks it holds are aligned, not empty, and disjoint.
\<close>

theorem live_chunks:
  assumes "client_step\<^sup>*\<^sup>* (g_dfxAllocator, {}) (h, L)"
  shows "(\<forall>r. r \<in> L \<longrightarrow> (\<exists>n. GetChunkSize r h = Some n \<and> r \<noteq> 0 \<and> 16 dvd unat r \<and> n \<noteq> 0
      \<and> (\<forall>s k x. s \<in> L \<longrightarrow> s \<noteq> r \<longrightarrow> GetChunkSize s h = Some k \<longrightarrow> in_range r n x \<longrightarrow> \<not> in_range s k x)
      \<and> DfxFree r h \<noteq> None \<and> (\<forall>mptr sz. mmap_ok mptr sz h \<longrightarrow> DfxRealloc mptr r sz h \<noteq> None)))
    \<and> (\<forall>mptr sz. mmap_ok mptr sz h \<longrightarrow> DfxAlloc mptr sz h \<noteq> None)"
proof (intro conjI allI impI)
  note inv = reachable_inv[OF assms]
  show "DfxAlloc mptr sz h \<noteq> None" if "mmap_ok mptr sz h" for mptr sz using inv DfxAlloc_spec[OF _ that] unfolding alloc_inv_def by blast
  fix r assume r: "r \<in> L"
  obtain G ls bl where w: "winv h G ls bl" "live_blocks G = L" using alloc_inv_live[OF inv r] by blast
  note d = winvD[OF w(1)]
  obtain n where n: "chunk h G r n" "GetChunkSize r h = Some n" "r \<noteq> 0" "16 dvd unat r" "n \<noteq> 0" using live_chunk[OF w(1)] r w(2) by metis
  have "\<not> in_range s k x" if s: "s \<in> L" "s \<noteq> r" "GetChunkSize s h = Some k" "in_range r n x" for s k x
  proof -
    obtain j where "chunk h G s j" "GetChunkSize s h = Some j" using live_chunk[OF w(1)] s(1) w(2) by metis
    then show ?thesis using chunks_apart[OF d(5,4) n(1) _ _ s(4)] s(2,3) by auto
  qed
  moreover have "DfxFree r h \<noteq> None" using DfxFree_spec[OF w(1)] r w(2) by blast
  moreover have "DfxRealloc mptr r sz h \<noteq> None" if "mmap_ok mptr sz h" for mptr sz
    using DfxRealloc_ready[OF w(1) _ that n(2)] w(2) r by auto
  ultimately show "\<exists>n. GetChunkSize r h = Some n \<and> r \<noteq> 0 \<and> 16 dvd unat r \<and> n \<noteq> 0
      \<and> (\<forall>s k x. s \<in> L \<longrightarrow> s \<noteq> r \<longrightarrow> GetChunkSize s h = Some k \<longrightarrow> in_range r n x \<longrightarrow> \<not> in_range s k x)
      \<and> DfxFree r h \<noteq> None \<and> (\<forall>mptr sz. mmap_ok mptr sz h \<longrightarrow> DfxRealloc mptr r sz h \<noteq> None)" using n by blast
qed

theorem live_chunks_witness:
  "\<exists>r h n. DfxAlloc (Some 0x10000) 24 g_dfxAllocator = Some (r, h) \<and> GetChunkSize r h = Some n \<and> n \<noteq> 0 \<and> 16 dvd unat r \<and> DfxFree r h \<noteq> None"
proof -
  obtain r h where f: "client_step\<^sup>*\<^sup>* (g_dfxAllocator, {}) (h, {r})" "DfxAlloc (Some 0x10000) 24 g_dfxAllocator = Some (r, h)" using first_block by blast
  from live_chunks[OF f(1)] have "\<exists>n. GetChunkSize r h = Some n \<and> r \<noteq> 0 \<and> 16 dvd unat r \<and> n \<noteq> 0 \<and> DfxFree r h \<noteq> None" by auto
  then show ?thesis using f(2) by blast
qed





text \<open>
  C40. When the larger block cannot be had, a reallocation returns the old block as if it had succeeded, although it is
  smaller than the requested size.
\<close>

theorem realloc_failure_hidden:
  assumes "client_step\<^sup>*\<^sup>* (g_dfxAllocator, {}) (h, L)" "r \<in> L" "GetChunkSize r h = Some n" "n < sz" "DfxAlloc mptr sz h = Some (0, h')" "mmap_ok mptr sz h"
  shows "DfxRealloc mptr r sz h = Some (r, h') \<and> r \<noteq> 0 \<and> GetChunkSize r h' = Some n"
proof -
  obtain G ls bl where w: "winv h G ls bl" "live_blocks G = L" "ready h = h" using alloc_inv_live[OF reachable_inv[OF assms(1)] assms(2)] by blast
  obtain k where k: "chunk h G r k" "GetChunkSize r h = Some k" "r \<noteq> 0" "k \<noteq> 0" using live_chunk[OF w(1), of r] assms(2) w(2) by metis
  have "alloc_spec h G sz 0 h'" using DfxAlloc_spec[of h G ls bl mptr sz] w assms(5,6) by auto
  then obtain G' ls' bl' where g: "winv h' G' ls' bl'" "keeps h G h' G' (live_blocks G)" unfolding alloc_spec_def by blast
  have "GetChunkSize r h' = Some k" using keepsD[OF g(2) _ k(1)] assms(2) w(2) GetChunkSize_chunk[OF g(1)] by blast
  moreover have "sz \<noteq> 0" using assms(4) by auto
  ultimately show ?thesis using k assms(3-5) winvD(1)[OF w(1)] by (simp add: DfxRealloc_def)
qed

theorem realloc_failure_hidden_witness:
  "\<exists>r h n. DfxAlloc (Some 0x10000) 24 g_dfxAllocator = Some (r, h) \<and> GetChunkSize r h = Some n \<and> n < - 1 \<and> DfxRealloc None r (- 1) h = Some (r, h)"
proof -
  obtain r h where f: "client_step\<^sup>*\<^sup>* (g_dfxAllocator, {}) (h, {r})" "DfxAlloc (Some 0x10000) 24 g_dfxAllocator = Some (r, h)" using first_block by blast
  obtain G ls bl where w: "winv h G ls bl" "live_blocks G = {r}" using alloc_inv_live[OF reachable_inv[OF f(1)], of r] by blast
  obtain n where n: "chunk h G r n" "GetChunkSize r h = Some n" using live_chunk[OF w(1), of r] w(2) by auto
  then obtain p x m where p: "G p = Some x" "h_map h p = Some m" "r \<in> live_in p x" "n = chunk_size m x" unfolding chunk_def by blast
  have "unat (- 1 :: u64) = 2 ^ 64 - 1" by (simp add: unsigned_minus_1_eq_mask mask_eq_exp_minus_1)
  then have "unat n < unat (- 1 :: u64)" using chunk_bounds(1-3)[OF winvD(5,4)[OF w(1)] p] by simp
  then have l: "n < - 1" by (simp add: word_less_nat_alt)
  have a: "DfxAlloc None (- 1) h = Some (0, h)"
    using winvD(1)[OF w(1)] by (simp add: DfxAlloc_def AllocImpl_def AllocMmap_def head_size_eq add_overflow_def DFX_MEMPOOL_MAX_BLOCK_SIZE_def)
  have "mmap_ok None (- 1) h" by (simp add: mmap_ok_def)
  from realloc_failure_hidden[OF f(1) _ n(2) l a this] f(2) n(2) l show ?thesis by blast
qed

end
