(* ===== verification/Spec2Isabelle.thy ===== *)
theory Spec2Isabelle
  imports Dwarf_Entry Stack_Table Server Alloc_Safety
begin

text \<open>
  A verification library for the fault logger daemon of OpenHarmony and its stack unwinder.

  \<^bold>\<open>The program.\<close>  When a process crashes, or a tool asks for its stacks, a dumper walks the stacks with the
  unwinder, and the daemon hands out the files and pipes the reports travel through.  The library has
  parts that follow this division.

  \<^bold>\<open>The unwinder\<close> (\<^verbatim>\<open>src/interfaces/innerkits/unwinder\<close>, modelled for LP64 little-endian aarch64).
  \<^item> \<open>Prelude\<close>: fixed-width integers, C arithmetic with its undefined behaviour as \<^term>\<open>None\<close>, byte encodings.
  \<^item> \<open>Memory\<close>: \<^verbatim>\<open>DfxMemory\<close>.  The locale \<open>mem_view\<close> states what a reader of the target's bytes promises; it is
    interpreted on \<open>byte_memory\<close>.  Block reads are sound, the LEB128 readers invert their encodings, and one
    case shifts out of range.
  \<^item> \<open>Regs\<close>, \<open>Dwarf_Op\<close>, \<open>Cfa_Instr\<close>, \<open>Reg_Apply\<close>: the register file, the expression machine, the call frame
    instructions and the application of register rules.  Compiled expressions evaluate to their value, the
    interpreter of the instructions refines a reference semantics and ends, and the rules restore the caller.
  \<^item> \<open>Dwarf_Entry\<close>: \<^verbatim>\<open>DwarfEntryParser\<close>, the binary search of the table, CIEs and FDEs.  This theory composes with
    the others into the first property below, one whole frame from bytes to registers.
  \<^item> \<open>Stack_Table\<close>: \<^verbatim>\<open>UniqueStackTable\<close> (\<^verbatim>\<open>src/interfaces/innerkits/async_stack\<close>), a hash table of stacks.

  \<^bold>\<open>The daemon\<close> (\<^verbatim>\<open>src/services\<close>).  The state of the main thread is one extensible record, extended by each
  component: \<open>EpollManager\<close>, \<open>DelayTaskQueue\<close>, \<open>Daemon\<close>, \<open>Dumper\<close>, \<open>Server\<close>.  What system calls answer is a record
  passed to each operation, closures are values of a datatype of tasks, and messages, signals and reports are
  appended to the list \<open>d_out\<close>.
  \<^item> \<open>Std_List\<close>: the algorithms of \<^verbatim>\<open>std::list\<close> the daemon uses.
  \<^item> \<open>Epoll\<close>: \<^verbatim>\<open>epoll_manager.cpp\<close>.  Listeners and task queues stay sorted, a timer runs exactly the due tasks.
  \<^item> \<open>Pipes\<close>: \<^verbatim>\<open>fault_logger_pipe.cpp\<close>.  The locale \<open>pipe_registry\<close> is interpreted on all three registries.
  \<^item> \<open>Temp_Files\<close>: \<^verbatim>\<open>fault_logger_config.cpp\<close> and \<^verbatim>\<open>temp_file_manager.cpp\<close>.  File names read back, and a forced
    removal keeps the newest files.
  \<^item> \<open>Services\<close>: \<^verbatim>\<open>fault_logger_service.cpp\<close>.  Descriptors go only to entitled callers and write ends only once;
    the locale \<open>quota\<close> is interpreted on the four daily limits.
  \<^item> \<open>Coredump\<close>: \<^verbatim>\<open>services/coredump\<close>.  The state machine of a session sends at most one result.
  \<^item> \<open>Server\<close>: \<^verbatim>\<open>fault_logger_server.cpp\<close> and the body of \<^verbatim>\<open>EpollManager::StartEpoll\<close>, which dispatches to all
    of the above.  In every state the loop reaches, a user has at most five connections.

  \<^bold>\<open>The allocator\<close> of a crashing process (\<^verbatim>\<open>src/frameworks/allocator/dfx_allocator.c\<close>).
  \<^item> \<open>Allocator\<close>: the pools, page lists and large blocks over an explicit store of page headers, block headers and
    bytes, and the lemmas on the doubly linked page lists.
  \<^item> \<open>Alloc_Inv\<close>: the invariant that ties the headers, the chains of free blocks and the page lists together.
  \<^item> \<open>Alloc_Safety\<close>: in every state a client can reach, no operation is undefined and its blocks are disjoint; an
    allocation returns a new zeroed block, and a reallocation that moves a block moves its contents.

  \<^bold>\<open>Bounds.\<close>  No definition has fuel.  Loops over target memory are \<open>partial_function (option)\<close>, and that the
  instruction loop returns is a theorem.  The loop of the event thread does not end in the source; \<open>poll_round\<close> is
  one round of it, and invariants are over any sequence of rounds.

  \<^bold>\<open>Errors of the code.\<close>  Theorems whose kind is error state where the code departs from its purpose: for example, a
  negative CFA offset is zero-extended, and a failed core dump is reported as a success.

  \<^bold>\<open>Assumptions of the model.\<close>  Locks are not modelled: each operation is atomic.  The timeout task of a core dump
  session reads its captured identifier after its closure was erased; the model gives this read the value that was captured.

  \<^bold>\<open>Not modelled.\<close>  \<^verbatim>\<open>TimerTaskAdapter\<close> and the destructors of the event queues; the listener of the files of
  binder peers and the kernel dump device (input and output only); memory maps, ELF files and symbols; the frame loops
  over \<^verbatim>\<open>ptrace\<close> and signal contexts; other architectures; the JavaScript frames, which come from a library
  loaded at run time; the crash handlers, which clone and exec; the registration of the allocator in the C library;
  the process dump tool, the dump catcher, the client library, and the printers, which are mostly input and output.
\<close>

section \<open>One step of the unwinder\<close>

text \<open>
  C1. One frame of an unwind, from the bytes of the module to the registers of the caller: the
  search table leads to the FDE of a function with the standard prologue, Step turns the call
  frame instructions of its CIE and FDE into register rules, and Apply on these rules yields the
  caller's stack pointer, frame pointer, link register and program counter and keeps every other
  register.
\<close>

theorem unwind_step:
  assumes "mem_view m byte" "dp_memory dp = Some m" "dp_cieEntries dp = Map.empty" "dp_fdeEntries dp = Map.empty"
    and "\<not> uti_isLinear uti" "table_ok m byte uti n" "covers byte uti n pc k" "f = tab_fde byte uti k"
    and "code_at m byte a (entry_bytes (cie_body ca (- 8) 30 (cfa_program [I_def_cfa 31 0])))" "ca < 2 ^ 32"
    and "code_at m byte f (entry_bytes (fde_body delta start len (cfa_program (prologue d sz))))"
    and "delta \<noteq> 0" "a = f + 4 - ucast delta"
    and "cie = parsed_cie a ca (- 8) 30 (cfa_program [I_def_cfa 31 0])"
    and "f + 8 + scast start \<le> pc" "pc < f + 8 + scast start + scast len"
    and "exec_pc cie (I_advance_loc d) (f + 8 + scast start) \<le> pc"
    and "d < 64" "8 dvd sz" "16 \<le> sz" "sz < 2 ^ 31"
    and "length regs = REG_LAST" "sp = regs ! REG_SP" "readable m sp 8" "readable m (sp + 8) 8"
  shows "\<exists>rs dp' regs'. Step [] pc uti (Some (RegLocState_init junk 5)) dp = Some (True, Some rs, dp')
    \<and> Apply [] (Some m) regs rs UNW_ERROR_NONE = Some (True, regs', UNW_ERROR_NONE)
    \<and> regs' ! REG_SP = sp + of_nat sz \<and> regs' ! REG_FP = word_at_addr byte sp
    \<and> regs' ! REG_LR = word_at_addr byte (sp + 8) \<and> regs' ! REG_PC = word_at_addr byte (sp + 8)
    \<and> (\<forall>r < REG_LAST. r \<notin> {REG_SP, REG_FP, REG_LR, REG_PC} \<longrightarrow> regs' ! r = regs ! r)"
proof -
  have l: "length (cie_body ca (- 8) 30 (cfa_program [I_def_cfa 31 0])) < 2 ^ 32 - 1"
    "length (fde_body delta start len (cfa_program (prologue d sz))) < 2 ^ 32 - 1"
    using length_uleb_enc[of ca 4] length_prologue[of sz d] assms(10,21)
    by (simp_all add: cie_body_def fde_body_def cfa_program_def[of "[I_def_cfa 31 0]"] cfa_bytes_def uleb_enc.simps[of 31]
        uleb_enc.simps[of 0] sleb_enc.simps[of "- 8"])
  have w: "\<forall>i\<in>set [I_def_cfa 31 0]. wf_cfa cie i" "\<forall>i\<in>set (prologue d sz). wf_cfa cie i"
    using assms(14,18-21) by (auto simp: prologue_def parsed_cie_def REG_LAST_def is_s64_def)
  obtain lsda dp' where s: "Step [] pc uti (Some (RegLocState_init junk 5)) dp = Some (True,
      Some (cfa_table [] pc (parsed_fde f delta start len (cfa_program (prologue d sz)) lsda cie) [I_def_cfa 31 0]
        (prologue d sz) (RegLocState_init junk 5)), dp')"
    using Step_table[OF assms(1-10) _ _ assms(11-13) l assms(14) w assms(15,16), of "[]" "RegLocState_init junk 5"] by auto
  show ?thesis
    using prologue_apply[OF refl assms(1,22), where pc = pc and n = sz and d = d and sp = sp and junk = junk
        and fde = "parsed_fde f delta start len (cfa_program (prologue d sz)) lsda cie"]
      assms(14,15,17,19-) s by (auto simp: parsed_fde_def parsed_cie_def)
qed

theorem unwind_step_witness:
  "\<exists>rs dp' regs'. Step [] 0x4010 eh_table (Some (RegLocState_init 0 5)) eh_parser = Some (True, Some rs, dp')
    \<and> Apply [] (Some (byte_memory eh_memory)) (Create[REG_SP := 0x1038]) rs UNW_ERROR_NONE = Some (True, regs', UNW_ERROR_NONE)
    \<and> regs' ! REG_SP = 0x1058 \<and> regs' ! REG_FP = 0x7000 \<and> regs' ! REG_PC = 0x5008"
proof -
  have p: "prologue 1 32 = sample_fde_prog" "[I_def_cfa 31 0] = sample_cie_prog"
    by (simp_all add: prologue_def sample_defs)
  have w: "word_at_addr eh_memory 0x1038 = 0x7000" "word_at_addr eh_memory 0x1040 = 0x5008"
    using code_at_append[OF eh_code(4)] by (simp_all add: word_at_addr_def code_at_def)
  have sp: "0x1038 = Create[REG_SP := 0x1038] ! REG_SP" by (simp add: Create_def REG_defs)
  show ?thesis
    using unwind_step[where d = 1 and sz = 32, unfolded p, OF bm.mem_view_axioms _ _ _ _ eh_table_ok(1,2) eh_table_ok(3)[symmetric]
        eh_entry_facts(1) _ eh_entry_facts(2) _ _ refl _ _ _ _ _ _ _ _ sp, of eh_parser 0]
    by (simp add: w eh_parser_def eh_table_def parsed_cie_def readable_byte_memory) blast
qed

end
